(* ===== verification/Relay_Prelude.thy ===== *)
theory Relay_Prelude
  imports Main "HOL-Library.AList" "HOL-Library.Word" "HOL-Library.Sublist"
begin

text \<open>
  Shared vocabulary of the development.

  Go strings and byte slices are both sequences of bytes; an Isabelle \<open>char\<close> is
  exactly one byte, so both are \<open>string\<close> here and the conversions \<open>[]byte(s)\<close> and
  \<open>string(b)\<close> are the identity.  A \<open>nil\<close> slice that the code tells apart from an
  empty one is an \<open>option\<close>, or has a flag beside it.  A Go map is an association list with distinct keys
  (\<open>gomap\<close>): it is finite by construction, so the code that counts, ranges over or
  serialises a map stays executable.  Instants of time are integers, in nanoseconds
  since the Unix epoch; a \<open>time.Duration\<close> is a signed 64-bit word.
\<close>

section \<open>Types\<close>

type_synonym bytes = string
type_synonym ('k, 'v) gomap = "('k \<times> 'v) list"
type_synonym time = int
type_synonym duration = "64 word"
type_synonym conn = nat

section \<open>Collections of rewrite rules\<close>

named_theorems gomap_simps \<open>lookups in updated maps\<close>
named_theorems frame_simps \<open>components an operation does not touch\<close>

section \<open>Go maps\<close>

definition gm_put :: "'k \<Rightarrow> 'v \<Rightarrow> ('k, 'v) gomap \<Rightarrow> ('k, 'v) gomap" where
  "gm_put k v m = AList.update k v m"

definition gm_del :: "'k \<Rightarrow> ('k, 'v) gomap \<Rightarrow> ('k, 'v) gomap" where
  "gm_del k m = AList.delete k m"

definition gm_wf :: "('k, 'v) gomap \<Rightarrow> bool" where
  "gm_wf m \<longleftrightarrow> distinct (map fst m)"

lemma map_of_gm_put [simp, gomap_simps]: "map_of (gm_put k v m) = (map_of m)(k \<mapsto> v)"
  by (simp add: gm_put_def update_conv')

lemma map_of_gm_del [simp, gomap_simps]: "map_of (gm_del k m) = (map_of m)(k := None)"
  by (simp add: gm_del_def delete_conv')

lemma gm_wf_Nil [simp]: "gm_wf []"
  by (simp add: gm_wf_def)

lemma gm_wf_put [simp]: "gm_wf m \<Longrightarrow> gm_wf (gm_put k v m)"
  by (simp add: gm_wf_def gm_put_def distinct_update)

lemma gm_wf_del [simp]: "gm_wf m \<Longrightarrow> gm_wf (gm_del k m)"
  by (simp add: gm_wf_def gm_del_def distinct_delete)

text \<open>The number of entries of a well-formed map is the size of its domain.\<close>

lemma gm_wf_length: "gm_wf m \<Longrightarrow> length m = card (dom (map_of m))"
  by (metis gm_wf_def dom_map_of_conv_image_fst distinct_card length_map set_map)

end
