(* ===== verification/Connection_Limit.thy ===== *)
theory Connection_Limit
  imports Relay_Prelude
begin

text \<open>
  The connection counter of \<^verbatim>\<open>Server.handleWS\<close>.  Each request runs in its own goroutine
  and goes through the handler's atomic actions: the load of \<^verbatim>\<open>s.active\<close> with the
  comparison, the upgrade, the increment, and on return the deferred decrement.  A state
  is the counter and the position of every handler; \<open>handleWS_step\<close> performs the next
  action of one of them, so a list of handler ids is an interleaving.
\<close>

datatype wsPc = Arrived | Checked | Serving | Returned nat

record wsState =
  ws_active :: int
  ws_handlers :: "(nat, wsPc) gomap"

text \<open>
  \<open>upgraded\<close> is the outcome of \<^verbatim>\<open>websocket.Accept\<close>, for a handler that is about to
  upgrade.  A rejected request is answered 503; 0 marks a handler that returned without
  a status of its own.
\<close>

definition handleWS_step :: "int \<Rightarrow> nat \<Rightarrow> bool \<Rightarrow> wsState \<Rightarrow> wsState" where
  "handleWS_step maxClients h upgraded s =
     (case map_of (ws_handlers s) h of
        None \<Rightarrow> s\<lparr>ws_handlers := gm_put h Arrived (ws_handlers s)\<rparr>
      | Some Arrived \<Rightarrow>
          if maxClients \<le> ws_active s
          then s\<lparr>ws_handlers := gm_put h (Returned 503) (ws_handlers s)\<rparr>
          else s\<lparr>ws_handlers := gm_put h Checked (ws_handlers s)\<rparr>
      | Some Checked \<Rightarrow>
          if \<not> upgraded then s\<lparr>ws_handlers := gm_put h (Returned 0) (ws_handlers s)\<rparr>
          else s\<lparr>ws_active := ws_active s + 1, ws_handlers := gm_put h Serving (ws_handlers s)\<rparr>
      | Some Serving \<Rightarrow>
          s\<lparr>ws_active := ws_active s - 1, ws_handlers := gm_put h (Returned 0) (ws_handlers s)\<rparr>
      | Some (Returned st) \<Rightarrow> s)"

definition ws_init :: wsState where
  "ws_init = \<lparr>ws_active = 0, ws_handlers = []\<rparr>"

fun ws_run :: "int \<Rightarrow> (nat \<times> bool) list \<Rightarrow> wsState \<Rightarrow> wsState" where
  "ws_run maxClients [] s = s"
| "ws_run maxClients ((h, up) # es) s = ws_run maxClients es (handleWS_step maxClients h up s)"

definition at :: "wsPc \<Rightarrow> wsState \<Rightarrow> nat set" where
  "at pc s = {h. map_of (ws_handlers s) h = Some pc}"

lemma at_finite [simp]: "finite (at pc s)"
proof -
  have "at pc s \<subseteq> dom (map_of (ws_handlers s))" by (auto simp: at_def)
  then show ?thesis using finite_dom_map_of finite_subset by blast
qed

lemma at_put:
  "at pc (s\<lparr>ws_active := a, ws_handlers := gm_put h q (ws_handlers s)\<rparr>)
     = (if q = pc then insert h (at pc s) else at pc s - {h})"
  "at pc (s\<lparr>ws_handlers := gm_put h q (ws_handlers s)\<rparr>)
     = (if q = pc then insert h (at pc s) else at pc s - {h})"
  by (auto simp: at_def split: if_splits)

lemma at_iff: "map_of (ws_handlers s) h = Some q \<Longrightarrow> h \<in> at pc s \<longleftrightarrow> q = pc"
  "map_of (ws_handlers s) h = None \<Longrightarrow> h \<notin> at pc s"
  by (auto simp: at_def)

text \<open>The counter is the number of connections being served.\<close>

lemma step_counts:
  assumes "ws_active s = int (card (at Serving s))"
  shows "ws_active (handleWS_step n h up s) = int (card (at Serving (handleWS_step n h up s)))"
proof (cases "map_of (ws_handlers s) h")
  case None
  with assms show ?thesis by (simp add: handleWS_step_def at_put at_iff)
next
  case (Some pc)
  have "0 < card (at Serving s)" if "pc = Serving"
    using at_iff(1) [OF Some, of Serving] that by (auto simp: card_gt_0_iff)
  with Some assms show ?thesis
    by (cases pc) (auto simp: handleWS_step_def at_put at_iff(1) [OF Some] card_Diff_singleton)
qed

lemma step_bounded:
  assumes "ws_active s + int (card (at Checked s)) < n + k" "0 < k" "0 < n"
    and "int (card (at Checked (handleWS_step n h up s))) \<le> k"
  shows "ws_active (handleWS_step n h up s) + int (card (at Checked (handleWS_step n h up s))) < n + k"
proof (cases "map_of (ws_handlers s) h")
  case None
  with assms show ?thesis by (simp add: handleWS_step_def at_put at_iff)
next
  case (Some pc)
  have "0 < card (at Checked s)" if "pc = Checked"
    using at_iff(1) [OF Some, of Checked] that by (auto simp: card_gt_0_iff)
  with Some assms show ?thesis
    by (cases pc) (auto simp: handleWS_step_def at_put at_iff(1) [OF Some] card_Diff_singleton split: if_splits)
qed

text \<open>All states of a run, to say how many handlers are ever between check and increment.\<close>

fun ws_states :: "int \<Rightarrow> (nat \<times> bool) list \<Rightarrow> wsState \<Rightarrow> wsState list" where
  "ws_states n [] s = []"
| "ws_states n ((h, up) # es) s = (let s' = handleWS_step n h up s in s' # ws_states n es s')"

lemma run_bounded:
  assumes "ws_active s + int (card (at Checked s)) < n + k" "0 < k" "0 < n"
    and "\<forall>s' \<in> set (ws_states n es s). int (card (at Checked s')) \<le> k"
  shows "ws_active (ws_run n es s) < n + k"
  using assms
proof (induction n es s rule: ws_run.induct)
  case (2 n h up es s)
  from 2(5) have c: "int (card (at Checked (handleWS_step n h up s))) \<le> k"
    "\<forall>s' \<in> set (ws_states n es (handleWS_step n h up s)). int (card (at Checked s')) \<le> k"
    by (simp_all add: Let_def)
  from 2(1) [OF step_bounded [OF 2(2-4) c(1)] 2(3,4) c(2)] show ?case by simp
qed auto

lemma run_counts:
  "ws_active s = int (card (at Serving s)) \<Longrightarrow> ws_active (ws_run n es s) = int (card (at Serving (ws_run n es s)))"
  by (induction n es s rule: ws_run.induct) (auto simp: step_counts)

section \<open>Properties\<close>

text \<open>
  C36: The connection counter is exact and bounded: in every interleaving it equals the
  number of connections being served, and if at most \<open>k\<close> handlers are ever between the
  capacity check and the increment, it stays below MaxClients + k; with \<open>k = 1\<close> it
  never exceeds MaxClients.
\<close>

theorem active_counter_bounded:
  assumes "0 < n" "0 < k" "\<forall>s' \<in> set (ws_states n es ws_init). int (card (at Checked s')) \<le> k"
  shows "ws_active (ws_run n es ws_init) = int (card (at Serving (ws_run n es ws_init)))
    \<and> ws_active (ws_run n es ws_init) < n + k"
proof -
  have "at pc ws_init = {}" for pc by (simp add: at_def ws_init_def)
  then have init: "ws_active ws_init = int (card (at Serving ws_init))"
    "ws_active ws_init + int (card (at Checked ws_init)) < n + k"
    using assms(1,2) by (simp_all add: ws_init_def)
  show ?thesis using run_counts [OF init(1)] run_bounded [OF init(2) assms(2,1,3)] by blast
qed

text \<open>
  The capacity check and the increment are two steps, so MaxClients can be exceeded:
  with a limit of 1, two handlers that check before either increments both get in.
\<close>

theorem capacity_race:
  "ws_active (ws_run 1 [(1, True), (2, True), (1, True), (2, True), (1, True), (2, True)] ws_init) = 2"
  by (simp add: handleWS_step_def ws_init_def gm_put_def)

theorem active_counter_bounded_witness:
  "ws_active (ws_run 3 [(1, True), (1, True), (1, True)] ws_init)
     = int (card (at Serving (ws_run 3 [(1, True), (1, True), (1, True)] ws_init)))
   \<and> ws_active (ws_run 3 [(1, True), (1, True), (1, True)] ws_init) < 3 + 1"
proof (rule active_counter_bounded)
  have "{h. h = (1::nat)} = {1}" by auto
  then show "\<forall>s' \<in> set (ws_states 3 [(1, True), (1, True), (1, True)] ws_init). int (card (at Checked s')) \<le> 1"
    by (simp add: handleWS_step_def ws_init_def gm_put_def at_def Let_def)
qed simp_all

end
