(* ===== verification/Base64.thy ===== *)
theory Base64
  imports Relay_Prelude
begin

text \<open>
  \<^verbatim>\<open>base64.StdEncoding\<close> of the Go standard library, as the relay uses it: padded, not
  strict about trailing bits, skipping \<^verbatim>\<open>\r\<close> and \<^verbatim>\<open>\n\<close>, and returning the bytes
  decoded so far together with an error flag.  The last point matters to the handshake
  in \<^verbatim>\<open>server/auth.go\<close>, which ignores the error.
\<close>

section \<open>Bytes and characters\<close>

definition byte :: "nat \<Rightarrow> char" where
  "byte n = char_of n"

definition code :: "char \<Rightarrow> nat" where
  "code c = of_char c"

lemma code_byte [simp]: "code (byte n) = n mod 256"
  by (simp add: byte_def code_def)

lemma byte_code [simp]: "byte (code c) = c"
  by (simp add: byte_def code_def)

lemma code_less [simp]: "code c < 256"
  by (simp add: code_def)

lemma code_eq_iff: "code c = code d \<longleftrightarrow> c = d"
  by (metis byte_code)

section \<open>Encoding\<close>

definition b64_char :: "nat \<Rightarrow> char" where
  "b64_char n =
     byte (if n < 26 then n + 65 else if n < 52 then n + 71 else if n < 62 then n - 4
           else if n = 62 then 43 else 47)"

lemma b64_alphabet:
  "map b64_char [0..<64] = ''ABCDEFGHIJKLMNOPQRSTUVWXYZabcdefghijklmnopqrstuvwxyz0123456789+/''"
  by code_simp

fun b64_encode :: "bytes \<Rightarrow> string" where
  "b64_encode [] = []"
| "b64_encode [a] =
     [b64_char (code a div 4), b64_char (code a mod 4 * 16), CHR ''='', CHR ''='']"
| "b64_encode [a, b] =
     [b64_char (code a div 4), b64_char (code a mod 4 * 16 + code b div 16),
      b64_char (code b mod 16 * 4), CHR ''='']"
| "b64_encode (a # b # c # r) =
     b64_char (code a div 4) # b64_char (code a mod 4 * 16 + code b div 16) #
     b64_char (code b mod 16 * 4 + code c div 64) # b64_char (code c mod 64) #
     b64_encode r"

section \<open>Decoding\<close>

definition b64_val :: "char \<Rightarrow> nat option" where
  "b64_val c =
     (let n = code c in
      if 65 \<le> n \<and> n \<le> 90 then Some (n - 65)
      else if 97 \<le> n \<and> n \<le> 122 then Some (n - 71)
      else if 48 \<le> n \<and> n \<le> 57 then Some (n + 4)
      else if n = 43 then Some 62
      else if n = 47 then Some 63
      else None)"

definition is_nl :: "char \<Rightarrow> bool" where
  "is_nl c \<longleftrightarrow> code c = 10 \<or> code c = 13"

text \<open>The bytes a full or a padded quantum of sextets stands for.\<close>

fun b64_emit :: "nat list \<Rightarrow> bytes" where
  "b64_emit [v, w] = [byte (v * 4 + w div 16)]"
| "b64_emit [v, w, x] = [byte (v * 4 + w div 16), byte (w mod 16 * 16 + x div 4)]"
| "b64_emit [v, w, x, y] =
     [byte (v * 4 + w div 16), byte (w mod 16 * 16 + x div 4), byte (x mod 4 * 64 + y)]"
| "b64_emit vs = []"

text \<open>
  \<^verbatim>\<open>decodeQuantum\<close>: \<open>acc\<close> holds the sextets read so far.  The result is the input
  that is left, the bytes produced and whether the input was corrupt; input after the
  padding is corrupt but the padded quantum is still emitted.
\<close>

fun b64_quantum :: "nat list \<Rightarrow> string \<Rightarrow> string \<times> bytes \<times> bool" where
  "b64_quantum acc [] = ([], [], acc \<noteq> [])"
| "b64_quantum acc (c # cs) =
     (case b64_val c of
        Some v \<Rightarrow> if length acc = 3 then (cs, b64_emit (acc @ [v]), False)
                   else b64_quantum (acc @ [v]) cs
      | None \<Rightarrow>
          if is_nl c then b64_quantum acc cs
          else if c \<noteq> CHR ''='' \<or> length acc < 2 then (cs, [], True)
          else if length acc = 2
          then (case dropWhile is_nl cs of
                  [] \<Rightarrow> ([], [], True)
                | d # ds \<Rightarrow>
                    if d \<noteq> CHR ''='' then (d # ds, [], True)
                    else let r = dropWhile is_nl ds in (r, b64_emit acc, r \<noteq> []))
          else let r = dropWhile is_nl cs in (r, b64_emit acc, r \<noteq> []))"

lemma dropWhile_rest: "dropWhile P cs = d # ds \<Longrightarrow> length (dropWhile Q ds) \<le> length cs"
  by (metis length_Cons length_dropWhile_le Suc_leD le_trans)

lemma dropWhile_rest_Cons: "dropWhile P cs = d # ds \<Longrightarrow> Suc (length ds) \<le> length cs"
  by (metis length_Cons length_dropWhile_le)

lemma b64_quantum_rest: "length (fst (b64_quantum acc cs)) \<le> length cs"
proof (induction cs arbitrary: acc)
  case (Cons c cs)
  have "length (fst (b64_quantum acc' cs)) \<le> Suc (length cs)" for acc'
    using Cons.IH [of acc'] by simp
  moreover have "length (dropWhile is_nl cs) \<le> Suc (length cs)"
    by (simp add: length_dropWhile_le le_SucI)
  ultimately show ?case
    by (auto simp: Let_def dest: dropWhile_rest_Cons
        intro: le_SucI le_trans [OF length_dropWhile_le] split: option.split list.split)
qed simp

text \<open>Every quantum consumes input, so the decoding loop ends.\<close>

lemma b64_quantum_progress: "length (fst (b64_quantum acc (c # cs))) < Suc (length cs)"
  using b64_quantum_rest [of _ cs] length_dropWhile_le [of is_nl cs]
  by (auto simp: Let_def less_Suc_eq_le dest: dropWhile_rest dropWhile_rest_Cons
      split: option.split list.split)

function b64_decode :: "string \<Rightarrow> bytes \<times> bool" where
  "b64_decode [] = ([], False)"
| "b64_decode (c # cs) =
     (case b64_quantum [] (c # cs) of (r, out, err) \<Rightarrow>
        if err then (out, True)
        else case b64_decode r of (out', err') \<Rightarrow> (out @ out', err'))"
  by pat_completeness auto
termination
  by (relation "measure length")
    (auto simp del: b64_quantum.simps dest!: arg_cong [of _ _ fst]
      intro: ord_eq_less_trans [OF _ b64_quantum_progress] arg_cong [of _ _ length])

section \<open>Round trip\<close>

lemma b64_val_char: "n < 64 \<Longrightarrow> b64_val (b64_char n) = Some n"
  by (auto simp: b64_val_def b64_char_def Let_def)

lemma b64_pad [simp]: "b64_val CHR ''='' = None" "\<not> is_nl CHR ''=''"
  by (simp_all add: b64_val_def is_nl_def code_def)

lemma sextet_bounds [simp]:
  "code a div 4 < 64" "code a mod 4 * 16 + code b div 16 < 64"
  "code b mod 16 * 4 + code c div 64 < 64" "code a mod 64 < 64"
  "code a mod 4 * 16 < 64" "code b mod 16 * 4 < 64"
  using code_less [of a] code_less [of b] code_less [of c] by linarith+

lemma digits_div: "y < d \<Longrightarrow> (x * d + y) div d = (x::nat)"
  by simp

lemma digits_mod: "y < d \<Longrightarrow> (x * d + y) mod d = (y::nat)"
  by simp

lemma code_div [simp]: "code a div 16 < 16" "code a div 64 < 4"
  using code_less [of a] by linarith+

lemmas b64_eval = digits_div digits_mod b64_val_char numeral_2_eq_2 numeral_3_eq_3 Let_def

lemmas b64_noise = div_mult_self1 div_mult_self2 div_mult_self3 div_mult_self4
  mod_mult_self1 mod_mult_self2 mod_mult_self3 mod_mult_self4

lemma b64_decode_encode: "b64_decode (b64_encode bs) = (bs, False)"
  by (induction bs rule: b64_encode.induct)
    (simp_all add: b64_eval del: b64_noise)

text \<open>
  Text after the padding is an error, but the bytes before it are decoded all the same.
\<close>

lemma b64_decode_garbage:
  "length bs mod 3 \<noteq> 0 \<Longrightarrow> \<not> is_nl g \<Longrightarrow> b64_decode (b64_encode bs @ g # gs) = (bs, True)"
proof (induction bs rule: b64_encode.induct)
  case (4 a b c r)
  have "length r mod 3 \<noteq> 0"
    using 4(2) by simp
  from 4(1) [OF this 4(3)] show ?case
    by (simp add: b64_eval del: b64_noise)
next
  case (2 a)
  from 2(2) show ?case
    by (simp add: b64_eval del: b64_noise)
next
  case (3 a b)
  from 3(2) show ?case
    by (simp add: b64_eval del: b64_noise)
qed simp

text \<open>What the encoder writes is plain ASCII.\<close>

definition plain_char :: "char \<Rightarrow> bool" where
  "plain_char c \<longleftrightarrow> 43 \<le> code c \<and> code c \<le> 122 \<and> code c \<noteq> 60 \<and> code c \<noteq> 62 \<and> code c \<noteq> 92"

lemma b64_char_plain: "n < 64 \<Longrightarrow> plain_char (b64_char n)"
  by (auto simp: plain_char_def b64_char_def)

lemma b64_encode_plain: "\<forall>c \<in> set (b64_encode bs). plain_char c"
  by (induction bs rule: b64_encode.induct)
    (auto intro: b64_char_plain simp: plain_char_def [of "CHR ''=''"] code_def [of "CHR ''=''"])

end
