(* ===== verification/Go_Std.thy ===== *)
theory Go_Std
  imports Base64
begin

text \<open>
  The other functions of Go's standard library that the relay's decisions depend on:
  \<^verbatim>\<open>strings.SplitN/TrimPrefix/ContainsAny\<close>, \<^verbatim>\<open>net.SplitHostPort\<close>,
  \<^verbatim>\<open>strconv.Atoi/ParseInt/FormatInt\<close>, and the integer and time arithmetic of
  \<^verbatim>\<open>time.Duration\<close>.  Each is written from the behaviour of the library, branch by branch.
\<close>

section \<open>strings\<close>

text \<open>\<^verbatim>\<open>strings.SplitN(s, sep, 2)\<close> for a one-byte separator.\<close>

definition splitN2 :: "char \<Rightarrow> string \<Rightarrow> string list" where
  "splitN2 c s =
     (case dropWhile (\<lambda>x. x \<noteq> c) s of
        [] \<Rightarrow> [s]
      | _ # rest \<Rightarrow> [takeWhile (\<lambda>x. x \<noteq> c) s, rest])"

definition trimPrefix :: "string \<Rightarrow> string \<Rightarrow> string" where
  "trimPrefix s p = (if prefix p s then drop (length p) s else s)"

definition containsAny :: "string \<Rightarrow> string \<Rightarrow> bool" where
  "containsAny s cs \<longleftrightarrow> (\<exists>c \<in> set s. c \<in> set cs)"

lemma splitN2_none: "c \<notin> set s \<Longrightarrow> splitN2 c s = [s]"
proof -
  assume "c \<notin> set s"
  then have "dropWhile (\<lambda>x. x \<noteq> c) s = []"
    by (auto simp: dropWhile_eq_Nil_conv)
  then show ?thesis by (simp only: splitN2_def list.case)
qed

lemma splitN2_some: "c \<notin> set u \<Longrightarrow> splitN2 c (u @ c # d) = [u, d]"
  by (simp add: splitN2_def dropWhile_append takeWhile_append)

lemma splitN2_cases:
  obtains (one) "splitN2 c s = [s]" "c \<notin> set s"
  | (two) u d where "splitN2 c s = [u, d]" "s = u @ c # d" "c \<notin> set u"
proof (cases "c \<in> set s")
  case False
  then show ?thesis using one splitN2_none by metis
next
  case True
  then obtain u d where "s = u @ c # d" "c \<notin> set u"
    by (metis split_list_first)
  then show ?thesis using two splitN2_some by metis
qed

section \<open>net.SplitHostPort\<close>

datatype addrErr = MissingPort | TooManyColons | MissingBracket | UnexpectedBracket

text \<open>\<open>lastIndex\<close> and \<open>index\<close> are \<^verbatim>\<open>LastIndexByte\<close> and \<^verbatim>\<open>IndexByte\<close>, \<open>None\<close> for -1.\<close>

fun index :: "char \<Rightarrow> string \<Rightarrow> nat option" where
  "index c [] = None"
| "index c (x # xs) = (if x = c then Some 0 else map_option Suc (index c xs))"

definition lastIndex :: "char \<Rightarrow> string \<Rightarrow> nat option" where
  "lastIndex c s = map_option (\<lambda>i. length s - 1 - i) (index c (rev s))"

definition splitHostPort :: "string \<Rightarrow> addrErr + (string \<times> string)" where
  "splitHostPort hp =
     (case lastIndex CHR '':'' hp of
        None \<Rightarrow> Inl MissingPort
      | Some i \<Rightarrow>
          if hp ! 0 = CHR ''[''
          then (case index CHR '']'' hp of
                  None \<Rightarrow> Inl MissingBracket
                | Some e \<Rightarrow>
                    if e + 1 = length hp then Inl MissingPort
                    else if e + 1 \<noteq> i
                    then (if hp ! (e + 1) = CHR '':'' then Inl TooManyColons else Inl MissingPort)
                    else if index CHR ''['' (drop 1 hp) \<noteq> None then Inl UnexpectedBracket
                    else if index CHR '']'' (drop (e + 1) hp) \<noteq> None then Inl UnexpectedBracket
                    else Inr (take (e - 1) (drop 1 hp), drop (i + 1) hp))
          else if index CHR '':'' (take i hp) \<noteq> None then Inl TooManyColons
          else if index CHR ''['' hp \<noteq> None then Inl UnexpectedBracket
          else if index CHR '']'' hp \<noteq> None then Inl UnexpectedBracket
          else Inr (take i hp, drop (i + 1) hp))"

lemma index_None_iff: "index c s = None \<longleftrightarrow> c \<notin> set s"
  by (induction s) auto

lemma index_append_hit: "c \<notin> set u \<Longrightarrow> index c (u @ c # d) = Some (length u)"
  by (induction u) auto

lemma lastIndex_None_iff: "lastIndex c s = None \<longleftrightarrow> c \<notin> set s"
  by (simp add: lastIndex_def index_None_iff)

lemma lastIndex_hit:
  assumes "c \<notin> set p"
  shows "lastIndex c (h @ c # p) = Some (length h)"
proof -
  from assms have "index c (rev p @ c # rev h) = Some (length p)"
    using index_append_hit [of c "rev p"] by simp
  then show ?thesis by (simp add: lastIndex_def)
qed

text \<open>A host name or a port as they are written without brackets.\<close>

definition plain_part :: "string \<Rightarrow> bool" where
  "plain_part s \<longleftrightarrow> CHR '':'' \<notin> set s \<and> CHR ''['' \<notin> set s \<and> CHR '']'' \<notin> set s"

lemma splitHostPort_plain:
  assumes "plain_part h" "plain_part p"
  shows "splitHostPort (h @ CHR '':'' # p) = Inr (h, p)"
proof -
  have "(h @ CHR '':'' # p) ! 0 \<noteq> CHR ''[''"
    using assms by (cases h) (auto simp: plain_part_def)
  with assms show ?thesis
    by (auto simp: splitHostPort_def plain_part_def lastIndex_hit index_None_iff)
qed

lemma splitHostPort_no_port:
  "CHR '':'' \<notin> set s \<Longrightarrow> splitHostPort s = Inl MissingPort"
  by (simp add: splitHostPort_def lastIndex_None_iff [THEN iffD2])

section \<open>strconv\<close>

definition is_digit :: "char \<Rightarrow> bool" where
  "is_digit c \<longleftrightarrow> 48 \<le> code c \<and> code c \<le> 57"

definition digit_val :: "char \<Rightarrow> nat" where
  "digit_val c = code c - 48"

definition digits_val :: "string \<Rightarrow> nat" where
  "digits_val s = foldl (\<lambda>n c. 10 * n + digit_val c) 0 s"

text \<open>
  \<^verbatim>\<open>strconv.ParseInt(s, 10, 64)\<close>, which \<^verbatim>\<open>Atoi\<close> agrees with: an optional sign, one or
  more digits, and a value in the signed 64-bit range; anything else is an error.
\<close>

definition int64_ok :: "int \<Rightarrow> bool" where
  "int64_ok n \<longleftrightarrow> - (2 ^ 63) \<le> n \<and> n < 2 ^ 63"

definition parseInt :: "string \<Rightarrow> int option" where
  "parseInt s =
     (let neg = (s \<noteq> [] \<and> hd s = CHR ''-'');
          ds = (if s \<noteq> [] \<and> (hd s = CHR ''-'' \<or> hd s = CHR ''+'') then tl s else s);
          n = (if neg then - int (digits_val ds) else int (digits_val ds))
      in if ds \<noteq> [] \<and> list_all is_digit ds \<and> int64_ok n then Some n else None)"

text \<open>\<^verbatim>\<open>strconv.FormatInt(n, 10)\<close>, also what \<^verbatim>\<open>%d\<close> and the JSON encoder print.\<close>

fun nat_digits :: "nat \<Rightarrow> string" where
  "nat_digits n =
     (if n < 10 then [byte (48 + n)] else nat_digits (n div 10) @ [byte (48 + n mod 10)])"

declare nat_digits.simps [simp del]

definition formatInt :: "int \<Rightarrow> string" where
  "formatInt n = (if n < 0 then CHR ''-'' # nat_digits (nat (- n)) else nat_digits (nat n))"

lemma digits_val_snoc: "digits_val (ds @ [d]) = 10 * digits_val ds + digit_val d"
  by (simp add: digits_val_def)

lemma digit_byte: "n < 10 \<Longrightarrow> is_digit (byte (48 + n)) \<and> digit_val (byte (48 + n)) = n"
  by (simp add: is_digit_def digit_val_def)

lemma nat_digits_props:
  "nat_digits n \<noteq> [] \<and> list_all is_digit (nat_digits n) \<and> digits_val (nat_digits n) = n"
proof (induction n rule: nat_digits.induct)
  case (1 n)
  show ?case
  proof (cases "n < 10")
    case True
    then have "nat_digits n = [byte (48 + n)]"
      by (subst nat_digits.simps) simp
    with digit_byte [OF True] show ?thesis
      by (simp add: digits_val_def)
  next
    case False
    then have eq: "nat_digits n = nat_digits (n div 10) @ [byte (48 + n mod 10)]"
      by (subst nat_digits.simps) simp
    have "n mod 10 < 10" by simp
    from digit_byte [OF this] 1 False show ?thesis
      unfolding eq by (simp add: digits_val_snoc)
  qed
qed

lemma nat_digits_hd: "is_digit (hd (nat_digits n))"
  using nat_digits_props [of n] by (cases "nat_digits n") auto

lemma digit_not_sign: "is_digit c \<Longrightarrow> c \<noteq> CHR ''-'' \<and> c \<noteq> CHR ''+''"
  by (auto simp: is_digit_def code_def)

lemma parseInt_formatInt: "int64_ok n \<Longrightarrow> parseInt (formatInt n) = Some n"
  using nat_digits_props [of "nat n"] nat_digits_props [of "nat (- n)"]
    nat_digits_hd [of "nat n"] digit_not_sign [of "hd (nat_digits (nat n))"]
  by (auto simp: parseInt_def formatInt_def Let_def)

section \<open>time\<close>

text \<open>\<^verbatim>\<open>time.Duration(n) * time.Second\<close>: a signed 64-bit product, which wraps around.\<close>

definition seconds :: "int \<Rightarrow> duration" where
  "seconds n = word_of_int n * 1000000000"

definition time_add :: "time \<Rightarrow> duration \<Rightarrow> time" where
  "time_add t d = t + sint d"

definition unix :: "time \<Rightarrow> int" where
  "unix t = t div 1000000000"

definition unixMilli :: "time \<Rightarrow> int" where
  "unixMilli t = t div 1000000"

lemma sint_seconds_wrap:
  "sint (seconds n) = (n * 1000000000 + 2 ^ 63) mod 2 ^ 64 - 2 ^ 63"
proof -
  have "seconds n = word_of_int (n * 1000000000)"
    by (simp add: seconds_def)
  then show ?thesis
    by (simp only: int_word_sint) simp
qed

lemma sint_seconds:
  assumes "0 \<le> n" "n * 1000000000 < 2 ^ 63"
  shows "sint (seconds n) = n * 1000000000"
  unfolding sint_seconds_wrap using assms by (subst mod_pos_pos_trivial) auto

end
