(* ===== verification/Disk.thy ===== *)
theory Disk
  imports Go_Std
begin

text \<open>
  What the two encrypted stores and the certificate authority share: files, the AEAD
  that protects them, the key files, and the write-to-temp-then-rename that
  \<^verbatim>\<open>Store.persistLocked\<close> and \<^verbatim>\<open>PrekeyStore.persistLocked\<close> both spell out.

  A file system maps paths to files; every call the operating system may refuse takes
  its outcome from an environment record, so a statement about all environments covers
  all failures.  AES-GCM and Ed25519 are parameters (\<open>crypto\<close>), with their documented
  behaviour as the named hypotheses \<open>gcm_correct\<close> and \<open>ed25519_correct\<close>.
\<close>

section \<open>Errors\<close>

datatype goErr = ErrNotExist | ErrPermission | ErrIO | ErrMsg string

definition classifyErr :: "goErr option \<Rightarrow> string" where
  "classifyErr err =
     (case err of
        None \<Rightarrow> ''none''
      | Some ErrNotExist \<Rightarrow> ''not_exist''
      | Some ErrPermission \<Rightarrow> ''permission''
      | Some _ \<Rightarrow> ''io'')"

section \<open>Cryptography\<close>

record crypto =
  gcmSeal :: "bytes \<Rightarrow> bytes \<Rightarrow> bytes \<Rightarrow> bytes"
  gcmOpen :: "bytes \<Rightarrow> bytes \<Rightarrow> bytes \<Rightarrow> bytes option"
  edPublic :: "bytes \<Rightarrow> bytes"
  edSign :: "bytes \<Rightarrow> bytes \<Rightarrow> bytes"
  edVerify :: "bytes \<Rightarrow> bytes \<Rightarrow> bytes \<Rightarrow> bool"

text \<open>Opening what was sealed under the same key and nonce gives the plaintext.\<close>

definition gcm_correct :: "crypto \<Rightarrow> bool" where
  "gcm_correct cr \<longleftrightarrow>
     (\<forall>key nonce p. length nonce = 12 \<longrightarrow> gcmOpen cr key nonce (gcmSeal cr key nonce p) = Some p)"

text \<open>
  \<open>edPublic\<close> maps a 32-byte seed to its public key; the private key is the seed
  followed by the public key.  Signatures made with a private key verify under its
  public half.
\<close>

definition ed25519_correct :: "crypto \<Rightarrow> bool" where
  "ed25519_correct cr \<longleftrightarrow>
     (\<forall>seed m. length seed = 32 \<longrightarrow>
        length (edPublic cr seed) = 32 \<and>
        length (edSign cr (seed @ edPublic cr seed) m) = 64 \<and>
        edVerify cr (edPublic cr seed) m (edSign cr (seed @ edPublic cr seed) m))"

definition gcmNonceSize :: nat where
  "gcmNonceSize = 12"

definition newCipher :: "bytes \<Rightarrow> goErr option" where
  "newCipher key =
     (if length key \<in> {16, 24, 32} then None else Some (ErrMsg ''invalid key size''))"

text \<open>
  \<open>rnd\<close> is what \<^verbatim>\<open>rand.Reader\<close> delivers: \<^verbatim>\<open>io.ReadFull\<close> fails if it is too short.
\<close>

definition encrypt :: "crypto \<Rightarrow> bytes \<Rightarrow> bytes \<Rightarrow> bytes \<Rightarrow> goErr + bytes" where
  "encrypt cr key rnd plaintext =
     (case newCipher key of
        Some e \<Rightarrow> Inl e
      | None \<Rightarrow>
          if length rnd < gcmNonceSize then Inl ErrIO
          else let nonce = take gcmNonceSize rnd in Inr (nonce @ gcmSeal cr key nonce plaintext))"

definition decrypt :: "crypto \<Rightarrow> bytes \<Rightarrow> bytes \<Rightarrow> goErr + bytes" where
  "decrypt cr key ciphertext =
     (case newCipher key of
        Some e \<Rightarrow> Inl e
      | None \<Rightarrow>
          if length ciphertext < gcmNonceSize then Inl (ErrMsg ''ciphertext too short'')
          else (case gcmOpen cr key (take gcmNonceSize ciphertext) (drop gcmNonceSize ciphertext) of
                  None \<Rightarrow> Inl (ErrMsg ''message authentication failed'')
                | Some p \<Rightarrow> Inr p))"

lemma encrypt_nonce: "encrypt cr key rnd p = Inr c \<Longrightarrow> gcmNonceSize \<le> length c"
  by (auto simp: encrypt_def Let_def split: option.splits if_splits)

lemma decrypt_encrypt:
  "gcm_correct cr \<Longrightarrow> encrypt cr key rnd p = Inr c \<Longrightarrow> decrypt cr key c = Inr p"
  by (auto simp: encrypt_def decrypt_def Let_def gcm_correct_def gcmNonceSize_def
      split: option.splits if_splits)

text \<open>
  A toy instance that meets both hypotheses: no encryption, and signatures anybody can
  make.  It shows that the hypotheses can hold, and nothing else.
\<close>

definition plainCrypto :: crypto where
  "plainCrypto = \<lparr>gcmSeal = (\<lambda>key nonce p. p), gcmOpen = (\<lambda>key nonce c. Some c),
     edPublic = (\<lambda>seed. seed),
     edSign = (\<lambda>priv m. take 32 priv @ take 32 (m @ replicate 32 CHR 0x00)),
     edVerify = (\<lambda>pub m sig. sig = pub @ take 32 (m @ replicate 32 CHR 0x00))\<rparr>"

lemma plainCrypto_gcm: "gcm_correct plainCrypto"
  by (simp add: gcm_correct_def plainCrypto_def)

lemma plainCrypto_ed: "ed25519_correct plainCrypto"
  by (auto simp: ed25519_correct_def plainCrypto_def)

section \<open>Files\<close>

record fileRec =
  fdata :: bytes
  fmode :: nat

type_synonym fs = "string \<Rightarrow> fileRec option"

definition mode0600 :: nat where
  "mode0600 = 384"

definition readFile :: "fs \<Rightarrow> goErr option \<Rightarrow> string \<Rightarrow> goErr + bytes" where
  "readFile disk fault path =
     (case fault of
        Some e \<Rightarrow> Inl e
      | None \<Rightarrow> (case disk path of None \<Rightarrow> Inl ErrNotExist | Some f \<Rightarrow> Inr (fdata f)))"

text \<open>\<^verbatim>\<open>os.WriteFile\<close>: truncate or create, then write; it may stop anywhere.\<close>

datatype writeOutcome = WriteOk | WriteStops nat goErr | WriteRefused goErr

definition writeFile :: "fs \<Rightarrow> writeOutcome \<Rightarrow> string \<Rightarrow> bytes \<Rightarrow> nat \<Rightarrow> goErr option \<times> fs" where
  "writeFile disk out path data perm =
     (let m = (case disk path of None \<Rightarrow> perm | Some f \<Rightarrow> fmode f) in
      case out of
        WriteOk \<Rightarrow> (None, disk(path \<mapsto> \<lparr>fdata = data, fmode = m\<rparr>))
      | WriteStops n e \<Rightarrow> (Some e, disk(path \<mapsto> \<lparr>fdata = take n data, fmode = m\<rparr>))
      | WriteRefused e \<Rightarrow> (Some e, disk))"

section \<open>Paths\<close>

fun splitOn :: "char \<Rightarrow> string \<Rightarrow> string list" where
  "splitOn c [] = [[]]"
| "splitOn c (x # xs) =
     (if x = c then [] # splitOn c xs
      else case splitOn c xs of [] \<Rightarrow> [[x]] | w # ws \<Rightarrow> (x # w) # ws)"

fun joinWith :: "char \<Rightarrow> string list \<Rightarrow> string" where
  "joinWith c [] = []"
| "joinWith c [w] = w"
| "joinWith c (w # v # ws) = w @ c # joinWith c (v # ws)"

definition cleanStep :: "bool \<Rightarrow> string list \<Rightarrow> string \<Rightarrow> string list" where
  "cleanStep rooted st c =
     (if c = [] \<or> c = ''.'' then st
      else if c = ''..''
      then (case st of
              [] \<Rightarrow> if rooted then [] else [''..'']
            | t # ts \<Rightarrow> if t = ''..'' then ''..'' # st else ts)
      else c # st)"

definition cleanPath :: "string \<Rightarrow> string" where
  "cleanPath p =
     (if p = [] then ''.''
      else let rooted = (hd p = CHR ''/'');
               body = joinWith CHR ''/'' (rev (foldl (cleanStep rooted) [] (splitOn CHR ''/'' p)))
           in if rooted then CHR ''/'' # body else if body = [] then ''.'' else body)"

definition filepathDir :: "string \<Rightarrow> string" where
  "filepathDir p =
     (case lastIndex CHR ''/'' p of None \<Rightarrow> ''.'' | Some i \<Rightarrow> cleanPath (take (Suc i) p))"

section \<open>Replacing a file atomically\<close>

record persistEnv =
  pe_rand :: bytes
  pe_names :: "string list"
  pe_create :: goErr
  pe_write :: "(nat \<times> goErr) option"
  pe_chmod :: "goErr option"
  pe_close :: "goErr option"
  pe_rename :: "goErr option"
  pe_remove :: bool

definition tempName :: "string \<Rightarrow> string \<Rightarrow> string \<Rightarrow> string" where
  "tempName dir pre r =
     (if dir \<noteq> [] \<and> last dir = CHR ''/'' then dir else dir @ ''/'') @ pre @ r @ ''.tmp''"

text \<open>
  \<^verbatim>\<open>os.CreateTemp\<close> tries random names until one does not exist; \<open>names\<close> are the ones it
  tries before it gives up, with the error \<open>pe_create\<close> of the environment.
\<close>

definition createTemp :: "fs \<Rightarrow> string \<Rightarrow> string \<Rightarrow> string list \<Rightarrow> string option" where
  "createTemp disk dir pre names =
     List.find (\<lambda>p. disk p = None) (map (tempName dir pre) names)"

definition removeFile :: "bool \<Rightarrow> fs \<Rightarrow> string \<Rightarrow> fs" where
  "removeFile ok disk p = (if ok then disk(p := None) else disk)"

definition renameFile :: "fs \<Rightarrow> string \<Rightarrow> string \<Rightarrow> fs" where
  "renameFile disk a b = (case disk a of None \<Rightarrow> disk | Some f \<Rightarrow> (disk(a := None))(b \<mapsto> f))"

definition replaceFile :: "persistEnv \<Rightarrow> fs \<Rightarrow> string \<Rightarrow> string \<Rightarrow> bytes \<Rightarrow> goErr option \<times> fs" where
  "replaceFile env disk path pre sealed =
     (case createTemp disk (filepathDir path) pre (pe_names env) of
        None \<Rightarrow> (Some (pe_create env), disk)
      | Some tmp \<Rightarrow>
          (case pe_write env of
             Some (n, e) \<Rightarrow>
               (Some e, removeFile (pe_remove env)
                  (disk(tmp \<mapsto> \<lparr>fdata = take n sealed, fmode = mode0600\<rparr>)) tmp)
           | None \<Rightarrow>
               let disk1 = disk(tmp \<mapsto> \<lparr>fdata = sealed, fmode = mode0600\<rparr>) in
               (case pe_chmod env of
                  Some e \<Rightarrow> (Some e, removeFile (pe_remove env) disk1 tmp)
                | None \<Rightarrow>
                    (case pe_close env of
                       Some e \<Rightarrow> (Some e, removeFile (pe_remove env) disk1 tmp)
                     | None \<Rightarrow>
                         (case pe_rename env of
                            Some e \<Rightarrow> (Some e, disk1)
                          | None \<Rightarrow> (None, renameFile disk1 tmp path))))))"

text \<open>
  The states a crash of the process can leave behind while \<open>tmp\<close> is being written and renamed.
  The source never calls \<^verbatim>\<open>fsync\<close>: what a crash of the machine leaves is not covered.
\<close>

inductive crash_state :: "fs \<Rightarrow> string \<Rightarrow> string \<Rightarrow> bytes \<Rightarrow> fs \<Rightarrow> bool"
  for disk path tmp sealed where
  before: "crash_state disk path tmp sealed disk"
| writing: "crash_state disk path tmp sealed
     (disk(tmp \<mapsto> \<lparr>fdata = take n sealed, fmode = mode0600\<rparr>))"
| removed: "crash_state disk path tmp sealed d \<Longrightarrow> crash_state disk path tmp sealed (d(tmp := None))"
| renamed: "crash_state disk path tmp sealed
     (renameFile (disk(tmp \<mapsto> \<lparr>fdata = sealed, fmode = mode0600\<rparr>)) tmp path)"

lemma createTemp_fresh: "createTemp disk dir pre names = Some tmp \<Longrightarrow> disk tmp = None"
  by (auto simp: createTemp_def find_Some_iff)

lemma createTemp_name: "createTemp disk dir pre names = Some tmp \<Longrightarrow> tmp \<in> set (map (tempName dir pre) names)"
  by (auto simp: createTemp_def find_Some_iff)

lemma createTemp_suffix: "createTemp disk dir pre names = Some tmp \<Longrightarrow> suffix ''.tmp'' tmp"
  by (drule createTemp_name) (auto simp: tempName_def suffix_def)

text \<open>Whatever the outcome, the call ends in one of those states.\<close>

lemma replaceFile_crash_state:
  assumes "createTemp disk (filepathDir path) pre (pe_names env) = Some tmp"
  shows "crash_state disk path tmp sealed (snd (replaceFile env disk path pre sealed))"
proof -
  have w: "crash_state disk path tmp sealed (disk(tmp \<mapsto> \<lparr>fdata = sealed, fmode = mode0600\<rparr>))"
    using crash_state.writing [of disk path tmp sealed "length sealed"] by simp
  show ?thesis
    using assms w crash_state.writing [of disk path tmp sealed]
      crash_state.removed [OF crash_state.before]
    by (auto simp: replaceFile_def removeFile_def Let_def
        intro: crash_state.removed crash_state.renamed split: option.split)
qed

lemma crash_state_target:
  assumes "crash_state disk path tmp sealed d" "disk tmp = None"
  shows "d path = disk path \<or> tmp = path
           \<or> d path = Some \<lparr>fdata = sealed, fmode = mode0600\<rparr>"
  using assms by (induction rule: crash_state.induct) (auto simp: renameFile_def)

lemma crash_state_frame:
  assumes "crash_state disk path tmp sealed d" "p \<noteq> path" "p \<noteq> tmp"
  shows "d p = disk p"
  using assms by (induction rule: crash_state.induct) (auto simp: renameFile_def)

text \<open>Success installs the new contents; failure leaves the old ones.\<close>

lemma replaceFile_ok:
  assumes "replaceFile env disk path pre sealed = (None, disk')"
  shows "disk' path = Some \<lparr>fdata = sealed, fmode = mode0600\<rparr>"
  using assms by (auto simp: replaceFile_def renameFile_def Let_def split: option.splits if_splits)

lemma replaceFile_err:
  assumes "replaceFile env disk path pre sealed = (Some e, disk')" "disk path \<noteq> None"
  shows "disk' path = disk path"
  using assms createTemp_fresh [of disk "filepathDir path" pre "pe_names env"]
  by (force simp: replaceFile_def removeFile_def Let_def split: option.splits if_splits)

text \<open>No other existing file is touched.\<close>

lemma replaceFile_frame:
  assumes "disk p \<noteq> None" "p \<noteq> path"
  shows "snd (replaceFile env disk path pre sealed) p = disk p"
proof (cases "createTemp disk (filepathDir path) pre (pe_names env)")
  case None
  then show ?thesis by (simp add: replaceFile_def)
next
  case (Some tmp)
  with assms(1) have "p \<noteq> tmp" using createTemp_fresh by metis
  with Some assms(2) show ?thesis
    using crash_state_frame replaceFile_crash_state by metis
qed

text \<open>
  A save without faults.  \<open>busy\<close> are the file names in use; the save needs a temporary name
  outside.
\<close>

definition save_clean :: "string set \<Rightarrow> string \<Rightarrow> string \<Rightarrow> persistEnv \<Rightarrow> bool" where
  "save_clean busy pre path env \<longleftrightarrow> pe_write env = None \<and> pe_chmod env = None \<and> pe_close env = None
     \<and> pe_rename env = None \<and> gcmNonceSize \<le> length (pe_rand env)
     \<and> (\<exists>n \<in> set (pe_names env). tempName (filepathDir path) pre n \<notin> busy)"

lemma replaceFile_succeeds:
  assumes "save_clean busy pre path env" "dom d \<subseteq> busy" "path \<in> busy"
  shows "\<exists>d'. replaceFile env d path pre sealed = (None, d') \<and> dom d' \<subseteq> busy"
proof -
  let ?name = "tempName (filepathDir path) pre"
  obtain n where n: "n \<in> set (pe_names env)" "?name n \<notin> busy" using assms(1) by (auto simp: save_clean_def)
  then have "d (?name n) = None" using assms(2) by blast
  with n(1) obtain tmp where tmp: "createTemp d (filepathDir path) pre (pe_names env) = Some tmp"
    by (cases "createTemp d (filepathDir path) pre (pe_names env)") (auto simp: createTemp_def find_None_iff)
  with assms show ?thesis
    by (auto simp: replaceFile_def save_clean_def renameFile_def Let_def)
qed

lemma encrypt_clean:
  assumes "save_clean busy pre path env" "length key = 32"
  shows "\<exists>c. encrypt cr key (pe_rand env) plain = Inr c"
  using assms by (auto simp: encrypt_def newCipher_def save_clean_def Let_def)

section \<open>The contract of a snapshot file\<close>

text \<open>
  A store that persists itself by replacing one file: \<open>image s b\<close> says that \<open>b\<close> is an
  encrypted image of state \<open>s\<close>.  Both stores of the relay are instances.
\<close>

locale snapshot_file =
  fixes persist :: "persistEnv \<Rightarrow> 's \<Rightarrow> fs \<Rightarrow> goErr option \<times> fs"
    and path :: "'s \<Rightarrow> string"
    and image :: "'s \<Rightarrow> bytes \<Rightarrow> bool"
  assumes persist_ok: "persist env s d = (None, d') \<Longrightarrow>
        \<exists>b. image s b \<and> d' (path s) = Some \<lparr>fdata = b, fmode = mode0600\<rparr>"
    and persist_err: "persist env s d = (Some e, d') \<Longrightarrow> d (path s) \<noteq> None \<Longrightarrow>
        d' (path s) = d (path s)"
    and persist_frame: "d p \<noteq> None \<Longrightarrow> p \<noteq> path s \<Longrightarrow> snd (persist env s d) p = d p"
begin

definition holds_image :: "fs \<Rightarrow> string \<Rightarrow> 's set \<Rightarrow> bool" where
  "holds_image d p S \<longleftrightarrow> (\<exists>s \<in> S. \<exists>f b. d p = Some f \<and> fdata f = b \<and> image s b)"

lemma persist_old_or_new:
  assumes "d (path s) \<noteq> None"
  shows "snd (persist env s d) (path s) = d (path s)
    \<or> (\<exists>b. image s b \<and> snd (persist env s d) (path s) = Some \<lparr>fdata = b, fmode = mode0600\<rparr>)"
proof (cases "persist env s d")
  case (Pair r d')
  show ?thesis
  proof (cases r)
    case None
    with Pair persist_ok show ?thesis by (metis snd_conv)
  next
    case (Some e)
    with Pair persist_err assms show ?thesis by (metis snd_conv)
  qed
qed

text \<open>
  Over a run of saves the file holds, at any time, a complete image of one of the
  states saved so far, however many of the saves failed and wherever they did.
\<close>

fun saves :: "(persistEnv \<times> 's) list \<Rightarrow> fs \<Rightarrow> fs" where
  "saves [] d = d"
| "saves ((env, s) # es) d = saves es (snd (persist env s d))"

lemma saves_hold_image:
  assumes "holds_image d p S" "\<forall>(env, s) \<in> set es. path s = p"
  shows "holds_image (saves es d) p (S \<union> snd ` set es)"
  using assms
proof (induction es arbitrary: d S)
  case Nil
  then show ?case by simp
next
  case (Cons e es)
  obtain env s where e: "e = (env, s)" by (cases e)
  with Cons.prems have p: "path s = p" by auto
  then have "holds_image (snd (persist env s d)) p (insert s S)"
    using Cons.prems(1) persist_old_or_new [of d s env]
    by (fastforce simp: holds_image_def)
  from Cons.IH [OF this] Cons.prems(2) show ?case
    by (simp add: e insert_commute)
qed

end

section \<open>Key files\<close>

record keyEnv =
  ke_read :: "goErr option"
  ke_rand :: bytes
  ke_mkdir :: "goErr option"
  ke_write :: writeOutcome

definition loadOrCreateKey :: "keyEnv \<Rightarrow> fs \<Rightarrow> string \<Rightarrow> (goErr + bytes) \<times> fs" where
  "loadOrCreateKey env disk path =
     (case readFile disk (ke_read env) path of
        Inr data \<Rightarrow>
          if length data \<noteq> 32 then (Inl (ErrMsg ''invalid key file length''), disk)
          else (Inr data, disk)
      | Inl e \<Rightarrow>
          if e \<noteq> ErrNotExist then (Inl e, disk)
          else if length (ke_rand env) < 32 then (Inl ErrIO, disk)
          else (case ke_mkdir env of
                  Some e' \<Rightarrow> (Inl e', disk)
                | None \<Rightarrow>
                    let key = take 32 (ke_rand env) in
                    (case writeFile disk (ke_write env) path key mode0600 of
                       (Some e', disk') \<Rightarrow> (Inl e', disk')
                     | (None, disk') \<Rightarrow> (Inr key, disk'))))"

definition keyFileSuffix :: string where
  "keyFileSuffix = ''.key''"

lemma loadOrCreateKey_length: "loadOrCreateKey env disk path = (Inr key, disk') \<Longrightarrow> length key = 32"
  by (auto simp: loadOrCreateKey_def Let_def split: sum.splits option.splits prod.splits if_splits)

lemma loadOrCreateKey_frame: "p \<noteq> path \<Longrightarrow> snd (loadOrCreateKey env disk path) p = disk p"
  by (auto simp: loadOrCreateKey_def Let_def writeFile_def
      split: sum.splits option.splits prod.splits if_splits writeOutcome.splits)

text \<open>The key is the same on the next start.\<close>

lemma loadOrCreateKey_stable:
  assumes "loadOrCreateKey env disk path = (Inr key, disk')" "ke_read env = None"
    and "ke_read env' = None"
  shows "loadOrCreateKey env' disk' path = (Inr key, disk')"
  using assms
  by (auto simp: loadOrCreateKey_def readFile_def Let_def writeFile_def
      split: sum.splits option.splits prod.splits if_splits writeOutcome.splits)

text \<open>A complete key file is read and never changed.\<close>

lemma key_file_loads:
  assumes "d path = Some f" "fdata f = key" "length key = 32" "ke_read env \<noteq> Some ErrNotExist"
  shows "loadOrCreateKey env d path = (case ke_read env of None \<Rightarrow> Inr key | Some e \<Rightarrow> Inl e, d)"
  using assms by (simp add: loadOrCreateKey_def readFile_def split: option.split)

end
