(* ===== verification/Queue_Table.thy ===== *)
theory Queue_Table
  imports Disk
begin

text \<open>
  The \<^verbatim>\<open>queue\<close> table of \<^verbatim>\<open>server/store.go\<close> and the SQL statements the store runs on
  it, one definition per statement, with the time \<^verbatim>\<open>unixepoch()\<close> reads as an argument.
  What the store relies on is the locale \<open>queue_table\<close>, interpreted on the statements.
  Turning the in-memory database into bytes is the driver's: \<open>sqliteDriver\<close> holds the
  two methods the store looks up by reflection.
\<close>

section \<open>Rows and statements\<close>

record row =
  row_id :: int
  row_recipient :: string
  row_payload :: bytes
  row_expires :: int

record sqlDB =
  db_rows :: "row list"
  db_seq :: int

text \<open>\<^verbatim>\<open>CREATE TABLE IF NOT EXISTS queue ...\<close> on the fresh in-memory database.\<close>

definition sqlCreate :: sqlDB where
  "sqlCreate = \<lparr>db_rows = [], db_seq = 0\<rparr>"

text \<open>\<^verbatim>\<open>DELETE FROM queue WHERE recipient_id = ? AND expires_at < unixepoch()\<close>\<close>

definition sqlDeleteExpiredFor :: "string \<Rightarrow> int \<Rightarrow> sqlDB \<Rightarrow> sqlDB" where
  "sqlDeleteExpiredFor rid epoch t =
     t\<lparr>db_rows := filter (\<lambda>r. \<not> (row_recipient r = rid \<and> row_expires r < epoch)) (db_rows t)\<rparr>"

text \<open>\<^verbatim>\<open>SELECT COUNT(*) FROM queue WHERE recipient_id = ?\<close>\<close>

definition sqlCountFor :: "string \<Rightarrow> sqlDB \<Rightarrow> int" where
  "sqlCountFor rid t = int (length (filter (\<lambda>r. row_recipient r = rid) (db_rows t)))"

text \<open>
  \<^verbatim>\<open>INSERT INTO queue (recipient_id, payload, expires_at) VALUES (?, ?, ?)\<close>: the id is
  one more than any id ever used (\<^verbatim>\<open>AUTOINCREMENT\<close>); past the largest 64-bit id the
  table is full.
\<close>

definition sqlInsert :: "string \<Rightarrow> bytes \<Rightarrow> int \<Rightarrow> sqlDB \<Rightarrow> goErr + sqlDB" where
  "sqlInsert rid payload expires t =
     (if 2 ^ 63 \<le> db_seq t + 1 then Inl (ErrMsg ''database or disk is full'')
      else Inr (t\<lparr>db_rows := db_rows t @
                   [\<lparr>row_id = db_seq t + 1, row_recipient = rid, row_payload = payload,
                     row_expires = expires\<rparr>],
                 db_seq := db_seq t + 1\<rparr>))"

text \<open>\<^verbatim>\<open>SELECT payload, expires_at FROM queue WHERE recipient_id = ? ORDER BY id ASC\<close>\<close>

definition sqlSelectFor :: "string \<Rightarrow> sqlDB \<Rightarrow> (bytes \<times> int) list" where
  "sqlSelectFor rid t =
     map (\<lambda>r. (row_payload r, row_expires r))
       (sort_key row_id (filter (\<lambda>r. row_recipient r = rid) (db_rows t)))"

text \<open>\<^verbatim>\<open>DELETE FROM queue WHERE recipient_id = ?\<close>\<close>

definition sqlDeleteFor :: "string \<Rightarrow> sqlDB \<Rightarrow> sqlDB" where
  "sqlDeleteFor rid t = t\<lparr>db_rows := filter (\<lambda>r. row_recipient r \<noteq> rid) (db_rows t)\<rparr>"

text \<open>\<^verbatim>\<open>SELECT COUNT(*) FROM queue WHERE expires_at >= unixepoch()\<close>\<close>

definition sqlCountLive :: "int \<Rightarrow> sqlDB \<Rightarrow> int" where
  "sqlCountLive epoch t = int (length (filter (\<lambda>r. epoch \<le> row_expires r) (db_rows t)))"

text \<open>\<^verbatim>\<open>DELETE FROM queue WHERE expires_at < unixepoch()\<close>\<close>

definition sqlDeleteExpired :: "int \<Rightarrow> sqlDB \<Rightarrow> sqlDB" where
  "sqlDeleteExpired epoch t = t\<lparr>db_rows := filter (\<lambda>r. \<not> row_expires r < epoch) (db_rows t)\<rparr>"

section \<open>The driver\<close>

datatype 'f driverMethod = MethodMissing | MethodArity | Method 'f

record sqliteDriver =
  drv_Serialize :: "(sqlDB \<Rightarrow> goErr + bytes) driverMethod"
  drv_Deserialize :: "(bytes \<Rightarrow> goErr + sqlDB) driverMethod"

definition serializeDB :: "sqliteDriver \<Rightarrow> sqlDB \<Rightarrow> goErr + bytes" where
  "serializeDB drv t =
     (case drv_Serialize drv of
        MethodMissing \<Rightarrow> Inl (ErrMsg ''Serialize method not found on driver connection'')
      | MethodArity \<Rightarrow> Inl (ErrMsg ''unexpected number of return values from Serialize'')
      | Method f \<Rightarrow> f t)"

definition deserializeDB :: "sqliteDriver \<Rightarrow> bytes \<Rightarrow> goErr + sqlDB" where
  "deserializeDB drv data =
     (case drv_Deserialize drv of
        MethodMissing \<Rightarrow> Inl (ErrMsg ''Deserialize method not found on driver connection'')
      | MethodArity \<Rightarrow> Inl (ErrMsg ''unexpected number of return values from Deserialize'')
      | Method f \<Rightarrow> f data)"

text \<open>A database image loads as the database it was taken from.\<close>

definition driver_correct :: "sqliteDriver \<Rightarrow> bool" where
  "driver_correct drv \<longleftrightarrow> (\<forall>t b. serializeDB drv t = Inr b \<longrightarrow> deserializeDB drv b = Inr t)"

section \<open>The contract of the table\<close>

text \<open>
  \<open>box t rid\<close> is the mailbox of a recipient in insertion order.  The laws say what each
  statement does to every mailbox.
\<close>

locale queue_table =
  fixes wf :: "'t \<Rightarrow> bool"
    and box :: "'t \<Rightarrow> string \<Rightarrow> (bytes \<times> int) list"
    and create :: 't
    and insert_row :: "string \<Rightarrow> bytes \<Rightarrow> int \<Rightarrow> 't \<Rightarrow> goErr + 't"
    and delete_for :: "string \<Rightarrow> 't \<Rightarrow> 't"
    and expire_for :: "string \<Rightarrow> int \<Rightarrow> 't \<Rightarrow> 't"
    and expire_all :: "int \<Rightarrow> 't \<Rightarrow> 't"
    and count_for :: "string \<Rightarrow> 't \<Rightarrow> int"
  assumes wf_create: "wf create"
    and wf_insert: "wf t \<Longrightarrow> insert_row rid p x t = Inr t' \<Longrightarrow> wf t'"
    and wf_delete: "wf t \<Longrightarrow> wf (delete_for rid t)"
    and wf_expire_for: "wf t \<Longrightarrow> wf (expire_for rid e t)"
    and wf_expire_all: "wf t \<Longrightarrow> wf (expire_all e t)"
    and box_create: "box create rid = []"
    and box_insert: "wf t \<Longrightarrow> insert_row rid p x t = Inr t' \<Longrightarrow>
          box t' rid' = box t rid' @ (if rid' = rid then [(p, x)] else [])"
    and box_delete: "wf t \<Longrightarrow> box (delete_for rid t) rid' = (if rid' = rid then [] else box t rid')"
    and box_expire_for: "wf t \<Longrightarrow> box (expire_for rid e t) rid'
          = (if rid' = rid then filter (\<lambda>(p, x). e \<le> x) (box t rid') else box t rid')"
    and box_expire_all: "wf t \<Longrightarrow> box (expire_all e t) rid' = filter (\<lambda>(p, x). e \<le> x) (box t rid')"
    and count_box: "count_for rid t = int (length (box t rid))"
begin

text \<open>A mailbox never grows beyond a cap if insertion is guarded by the count.\<close>

lemma guarded_insert:
  assumes "wf t" "\<And>r. int (length (box t r)) \<le> cap" "count_for rid t < cap"
    and "insert_row rid p x t = Inr t'"
  shows "int (length (box t' r)) \<le> cap"
  using assms(2) [of r] assms(3) box_insert [OF assms(1,4), of r]
  by (simp add: count_box split: if_splits)

lemma expire_for_shrinks: "wf t \<Longrightarrow> length (box (expire_for rid e t) r) \<le> length (box t r)"
  by (simp add: box_expire_for)

lemma expire_all_shrinks: "wf t \<Longrightarrow> length (box (expire_all e t) r) \<le> length (box t r)"
  by (simp add: box_expire_all)

lemma delete_shrinks: "wf t \<Longrightarrow> length (box (delete_for rid t) r) \<le> length (box t r)"
  by (simp add: box_delete)

end

section \<open>The statements meet the contract\<close>

definition table_wf :: "sqlDB \<Rightarrow> bool" where
  "table_wf t \<longleftrightarrow> sorted_wrt (<) (map row_id (db_rows t)) \<and> (\<forall>r \<in> set (db_rows t). row_id r \<le> db_seq t)"

lemma sorted_wrt_map_filter:
  "sorted_wrt (<) (map f xs) \<Longrightarrow> sorted_wrt (<) (map f (filter P xs))"
  by (induction xs) auto

lemma table_wf_filter: "table_wf t \<Longrightarrow> table_wf (t\<lparr>db_rows := filter P (db_rows t)\<rparr>)"
  by (simp add: table_wf_def sorted_wrt_map_filter)

lemma select_plain:
  "table_wf t \<Longrightarrow> sqlSelectFor rid t =
     map (\<lambda>r. (row_payload r, row_expires r)) (filter (\<lambda>r. row_recipient r = rid) (db_rows t))"
  by (simp add: sqlSelectFor_def table_wf_def sort_key_id_if_sorted strict_sorted_imp_sorted
      sorted_wrt_map_filter)

lemma table_wf_insert: "table_wf t \<Longrightarrow> sqlInsert rid p x t = Inr t' \<Longrightarrow> table_wf t'"
  by (fastforce simp: table_wf_def sqlInsert_def sorted_wrt_append split: if_splits)

definition mailbox :: "sqlDB \<Rightarrow> string \<Rightarrow> (bytes \<times> int) list" where
  "mailbox t rid = sqlSelectFor rid t"

lemma filter_map_rows:
  "filter (\<lambda>(p, x). e \<le> x) (map (\<lambda>r. (row_payload r, row_expires r)) rs)
     = map (\<lambda>r. (row_payload r, row_expires r)) (filter (\<lambda>r. e \<le> row_expires r) rs)"
  by (induction rs) auto

lemma table_wf_statements:
  "table_wf t \<Longrightarrow> table_wf (sqlDeleteFor rid t)"
  "table_wf t \<Longrightarrow> table_wf (sqlDeleteExpiredFor rid e t)"
  "table_wf t \<Longrightarrow> table_wf (sqlDeleteExpired e t)"
  by (simp_all add: sqlDeleteFor_def sqlDeleteExpiredFor_def sqlDeleteExpired_def table_wf_filter)

lemma box_statements:
  "mailbox sqlCreate rid = []"
  "table_wf t \<Longrightarrow> mailbox (sqlDeleteFor rid t) rid' = (if rid' = rid then [] else mailbox t rid')"
  "table_wf t \<Longrightarrow> mailbox (sqlDeleteExpiredFor rid e t) rid'
     = (if rid' = rid then filter (\<lambda>(p, x). e \<le> x) (mailbox t rid') else mailbox t rid')"
  "table_wf t \<Longrightarrow> mailbox (sqlDeleteExpired e t) rid' = filter (\<lambda>(p, x). e \<le> x) (mailbox t rid')"
  by (auto simp: mailbox_def sqlCreate_def sqlSelectFor_def [of rid sqlCreate, unfolded sqlCreate_def]
      sqlDeleteFor_def sqlDeleteExpiredFor_def sqlDeleteExpired_def
      table_wf_filter select_plain filter_map_rows filter_empty_conv not_less
      intro!: arg_cong [of _ _ "map _"] filter_cong)

interpretation qt: queue_table table_wf mailbox sqlCreate sqlInsert sqlDeleteFor
  sqlDeleteExpiredFor sqlDeleteExpired sqlCountFor
proof (unfold_locales, goal_cases)
  case 1
  then show ?case by (simp add: table_wf_def sqlCreate_def)
next
  case (2 t rid p x t')
  then show ?case by (rule table_wf_insert)
next
  case (7 t rid p x t' rid')
  then show ?case
    using table_wf_insert [OF 7]
    by (auto simp: mailbox_def select_plain sqlInsert_def split: if_splits)
next
  case (11 rid t)
  then show ?case by (simp add: mailbox_def sqlCountFor_def sqlSelectFor_def)
qed (simp_all add: table_wf_statements box_statements)

end
