(* ===== verification/Json.thy ===== *)
theory Json
  imports Go_Std
begin

text \<open>
  The part of \<^verbatim>\<open>encoding/json\<close> the relay relies on: the scanner (which rejects a text
  before anything is decoded), the string unquoting with its replacement of invalid
  UTF-8, the nesting limit, and the compact encoder with HTML escaping.  The parser is a
  token-driven stack machine, as Go's scanner is, so it needs no fuel: every step
  consumes input.
\<close>

section \<open>Values and tokens\<close>

datatype json =
    JNull
  | JBool bool
  | JNum string
  | JStr string
  | JArr "json list"
  | JObj "(string \<times> json) list"

datatype jtok =
    LBrace | RBrace | LBrack | RBrack | TColon | TComma
  | TStr string | TNum string | TTrue | TFalse | TNull

section \<open>UTF-8\<close>

definition between :: "nat \<Rightarrow> nat \<Rightarrow> char \<Rightarrow> bool" where
  "between lo hi c \<longleftrightarrow> lo \<le> code c \<and> code c \<le> hi"

abbreviation continuation :: "char \<Rightarrow> bool" where
  "continuation \<equiv> between 128 191"

text \<open>The range of the second byte excludes overlong forms, surrogates and U+110000 up.\<close>

definition second_ok :: "char \<Rightarrow> char \<Rightarrow> bool" where
  "second_ok a b \<longleftrightarrow>
     between (if code a = 224 then 160 else if code a = 240 then 144 else 128)
             (if code a = 237 then 159 else if code a = 244 then 143 else 191) b"

text \<open>The number of bytes the lead byte announces, 0 for a byte that cannot lead.\<close>

definition utf8_need :: "char \<Rightarrow> nat" where
  "utf8_need a =
     (if code a < 128 then 1
      else if between 194 223 a then 2
      else if between 224 239 a then 3
      else if between 240 244 a then 4
      else 0)"

fun utf8_tail_ok :: "string \<Rightarrow> bool" where
  "utf8_tail_ok (a # b # u) \<longleftrightarrow> second_ok a b \<and> list_all continuation u"
| "utf8_tail_ok _ \<longleftrightarrow> True"

text \<open>Length of the well-formed UTF-8 sequence a string starts with, 0 if there is none.\<close>

definition utf8_len :: "string \<Rightarrow> nat" where
  "utf8_len s =
     (case s of [] \<Rightarrow> 0
      | a # _ \<Rightarrow> let n = utf8_need a
                 in if n \<le> length s \<and> utf8_tail_ok (take n s) then n else 0)"

definition utf8_enc :: "nat \<Rightarrow> string" where
  "utf8_enc n =
     (if n < 128 then [byte n]
      else if n < 2048 then [byte (192 + n div 64), byte (128 + n mod 64)]
      else if n < 65536
      then [byte (224 + n div 4096), byte (128 + n div 64 mod 64), byte (128 + n mod 64)]
      else [byte (240 + n div 262144), byte (128 + n div 4096 mod 64),
            byte (128 + n div 64 mod 64), byte (128 + n mod 64)])"

text \<open>U+FFFD, which replaces every byte that is not part of a well-formed sequence.\<close>

definition replacement :: string where
  "replacement = utf8_enc 65533"

lemma utf8_len_le: "utf8_len s \<le> length s"
  by (simp add: utf8_len_def Let_def split: list.split)

lemma utf8_len_ascii: "code c < 128 \<Longrightarrow> utf8_len (c # cs) = 1"
  by (simp add: utf8_len_def utf8_need_def Let_def)

text \<open>The length depends on the sequence itself only, not on what follows it.\<close>

lemma utf8_len_take:
  assumes "utf8_len (c # cs) = Suc n"
  shows "utf8_len (c # take n cs @ r) = Suc n"
  using assms by (auto simp: utf8_len_def Let_def split: if_splits)

function valid_utf8 :: "string \<Rightarrow> bool" where
  "valid_utf8 [] \<longleftrightarrow> True"
| "valid_utf8 (c # cs) \<longleftrightarrow>
     (case utf8_len (c # cs) of 0 \<Rightarrow> False | Suc n \<Rightarrow> valid_utf8 (drop n cs))"
  by pat_completeness auto
termination
  by (relation "measure length") auto

lemma valid_utf8_ascii: "\<forall>c \<in> set s. code c < 128 \<Longrightarrow> valid_utf8 s"
  by (induction s) (simp_all add: utf8_len_ascii)

declare valid_utf8.simps(2) [simp del]

section \<open>String literals\<close>

definition hex_val :: "char \<Rightarrow> nat option" where
  "hex_val c =
     (if between 48 57 c then Some (code c - 48)
      else if between 97 102 c then Some (code c - 87)
      else if between 65 70 c then Some (code c - 55)
      else None)"

definition hex_char :: "nat \<Rightarrow> char" where
  "hex_char n = byte (if n < 10 then 48 + n else 87 + n)"

fun hex4 :: "string \<Rightarrow> nat option" where
  "hex4 (a # b # c # d # _) =
     (case (hex_val a, hex_val b, hex_val c, hex_val d) of
        (Some w, Some x, Some y, Some z) \<Rightarrow> Some (w * 4096 + x * 256 + y * 16 + z)
      | _ \<Rightarrow> None)"
| "hex4 _ = None"

abbreviation dquote :: char where "dquote \<equiv> CHR 0x22"
abbreviation bslash :: char where "bslash \<equiv> CHR 0x5C"

text \<open>
  An escape, after its backslash: the bytes it stands for and the input left.  A
  surrogate that does not start a valid pair becomes U+FFFD.
\<close>

definition unescape :: "string \<Rightarrow> (string \<times> string) option" where
  "unescape s =
     (case s of
        [] \<Rightarrow> None
      | e # r \<Rightarrow>
          if e = dquote \<or> e = bslash \<or> e = CHR ''/'' then Some ([e], r)
          else if e = CHR ''b'' then Some ([byte 8], r)
          else if e = CHR ''f'' then Some ([byte 12], r)
          else if e = CHR ''n'' then Some ([byte 10], r)
          else if e = CHR ''r'' then Some ([byte 13], r)
          else if e = CHR ''t'' then Some ([byte 9], r)
          else if e = CHR ''u''
          then (case hex4 r of
                  None \<Rightarrow> None
                | Some u \<Rightarrow>
                    let r' = drop 4 r in
                    if 55296 \<le> u \<and> u < 57344
                    then (case (if take 2 r' = [bslash, CHR ''u''] then hex4 (drop 2 r') else None) of
                            Some v \<Rightarrow>
                              if u < 56320 \<and> 56320 \<le> v \<and> v < 57344
                              then Some (utf8_enc ((u - 55296) * 1024 + (v - 56320) + 65536), drop 6 r')
                              else Some (replacement, r')
                          | None \<Rightarrow> Some (replacement, r'))
                    else Some (utf8_enc u, r'))
          else None)"

lemma unescape_le: "unescape s = Some (out, r) \<Longrightarrow> length r \<le> length s"
  by (auto simp: unescape_def Let_def split: list.splits if_splits option.splits)

text \<open>The rest of a literal after its opening quote: its value and the input left.\<close>

function scanString :: "string \<Rightarrow> (string \<times> string) option" where
  "scanString [] = None"
| "scanString (c # cs) =
     (if c = dquote then Some ([], cs)
      else if c = bslash
      then (case unescape cs of
              None \<Rightarrow> None
            | Some (out, r) \<Rightarrow> map_option (apfst ((@) out)) (scanString r))
      else if code c < 32 then None
      else (case utf8_len (c # cs) of
              0 \<Rightarrow> map_option (apfst ((@) replacement)) (scanString cs)
            | Suc n \<Rightarrow> map_option (apfst ((@) (c # take n cs))) (scanString (drop n cs))))"
  by pat_completeness auto
termination
  by (relation "measure length") (auto dest: unescape_le)

lemma scanString_le: "scanString s = Some (v, r) \<Longrightarrow> length r < length s"
proof (induction s arbitrary: v r rule: scanString.induct)
  case (2 c cs)
  then show ?case
    by (fastforce split: if_splits option.splits nat.splits dest: unescape_le)
qed simp

text \<open>The encoder's side.\<close>

definition escape_ascii :: "char \<Rightarrow> string" where
  "escape_ascii c =
     (if c = dquote \<or> c = bslash then [bslash, c]
      else if code c = 8 then [bslash, CHR ''b'']
      else if code c = 12 then [bslash, CHR ''f'']
      else if code c = 10 then [bslash, CHR ''n'']
      else if code c = 13 then [bslash, CHR ''r'']
      else if code c = 9 then [bslash, CHR ''t'']
      else if code c < 32 \<or> c = CHR ''<'' \<or> c = CHR ''>'' \<or> c = CHR ''&''
      then [bslash, CHR ''u'', CHR ''0'', CHR ''0'',
            hex_char (code c div 16), hex_char (code c mod 16)]
      else [c])"

function quoteBody :: "string \<Rightarrow> string" where
  "quoteBody [] = []"
| "quoteBody (c # cs) =
     (if code c < 128 then escape_ascii c @ quoteBody cs
      else (case utf8_len (c # cs) of
              0 \<Rightarrow> bslash # ''ufffd'' @ quoteBody cs
            | Suc n \<Rightarrow>
                (if c # take n cs = utf8_enc 8232 then bslash # ''u2028''
                 else if c # take n cs = utf8_enc 8233 then bslash # ''u2029''
                 else c # take n cs) @ quoteBody (drop n cs)))"
  by pat_completeness auto
termination
  by (relation "measure length") auto

definition quote :: "string \<Rightarrow> string" where
  "quote s = dquote # quoteBody s @ [dquote]"

lemma hex_val_char [simp]: "n < 16 \<Longrightarrow> hex_val (hex_char n) = Some n"
  by (auto simp: hex_val_def hex_char_def between_def)

lemma utf8_enc_code: "code c < 128 \<Longrightarrow> utf8_enc (code c) = [c]"
  by (simp add: utf8_enc_def)

lemma unescape_hex:
  assumes "code c < 128"
  shows "unescape (CHR ''u'' # CHR ''0'' # CHR ''0'' # hex_char (code c div 16)
           # hex_char (code c mod 16) # r) = Some ([c], r)"
proof -
  have "hex_val CHR ''0'' = Some 0" by (simp add: hex_val_def between_def code_def)
  moreover have "code c div 16 < 16" "code c mod 16 < 16" by simp_all
  ultimately have "hex4 (CHR ''0'' # CHR ''0'' # hex_char (code c div 16)
      # hex_char (code c mod 16) # r) = Some (code c)"
    by simp
  with assms show ?thesis
    by (simp add: unescape_def utf8_enc_code)
qed

lemma scanString_escape:
  assumes "code c < 128"
  shows "scanString (escape_ascii c @ r) = map_option (apfst ((@) [c])) (scanString r)"
proof -
  consider "c = dquote \<or> c = bslash" | "code c \<in> {8, 9, 10, 12, 13}"
    | "c \<noteq> dquote" "c \<noteq> bslash" "code c \<notin> {8, 9, 10, 12, 13}"
        "code c < 32 \<or> c = CHR ''<'' \<or> c = CHR ''>'' \<or> c = CHR ''&''"
    | "c \<noteq> dquote" "c \<noteq> bslash" "code c \<notin> {8, 9, 10, 12, 13}"
        "\<not> (code c < 32 \<or> c = CHR ''<'' \<or> c = CHR ''>'' \<or> c = CHR ''&'')"
    by blast
  then show ?thesis
  proof cases
    case 1
    then show ?thesis by (auto simp: escape_ascii_def unescape_def)
  next
    case 2
    then have "c \<in> {byte 8, byte 9, byte 10, byte 12, byte 13}"
      using byte_code [of c] by (elim insertE emptyE) simp_all
    then show ?thesis
      by (elim insertE emptyE) (simp_all add: escape_ascii_def unescape_def byte_def code_def)
  next
    case 3
    then have "escape_ascii c = [bslash, CHR ''u'', CHR ''0'', CHR ''0'',
        hex_char (code c div 16), hex_char (code c mod 16)]"
      by (simp add: escape_ascii_def)
    with assms show ?thesis by (simp add: unescape_hex)
  next
    case 4
    then have "escape_ascii c = [c]" by (simp add: escape_ascii_def)
    with 4 assms show ?thesis by (simp add: utf8_len_ascii)
  qed
qed

lemma unescape_line_sep [simp]:
  "unescape (''u2028'' @ r) = Some (utf8_enc 8232, r)"
  "unescape (''u2029'' @ r) = Some (utf8_enc 8233, r)"
  by (simp_all add: unescape_def hex_val_def between_def code_def)

lemma scanString_multi:
  assumes "\<not> code c < 128" "utf8_len (c # cs) = Suc n"
  shows "scanString (c # take n cs @ r) = map_option (apfst ((@) (c # take n cs))) (scanString r)"
proof -
  have "n \<le> length cs" using assms(2) utf8_len_le [of "c # cs"] by simp
  moreover have "c \<noteq> dquote" "c \<noteq> bslash" using assms(1) by (auto simp: code_def)
  ultimately show ?thesis
    using assms utf8_len_take [OF assms(2), of r] by simp
qed

lemma scanString_line_sep:
  "scanString (bslash # ''u2028'' @ r) = map_option (apfst ((@) (utf8_enc 8232))) (scanString r)"
  "scanString (bslash # ''u2029'' @ r) = map_option (apfst ((@) (utf8_enc 8233))) (scanString r)"
  using unescape_line_sep [of r] by simp_all

lemma scanString_quoteBody:
  "valid_utf8 s \<Longrightarrow> scanString (quoteBody s @ dquote # r) = Some (s, r)"
proof (induction s rule: valid_utf8.induct)
  case (2 c cs)
  from "2.prems" obtain n where n: "utf8_len (c # cs) = Suc n" "valid_utf8 (drop n cs)"
    by (auto simp: valid_utf8.simps split: nat.splits)
  note IH = "2.IH" [OF n]
  show ?case
  proof (cases "code c < 128")
    case True
    with n have "n = 0" using utf8_len_ascii by simp
    with IH True show ?thesis by (simp add: scanString_escape)
  next
    case False
    have "scanString ((if c # take n cs = utf8_enc 8232 then bslash # ''u2028''
          else if c # take n cs = utf8_enc 8233 then bslash # ''u2029'' else c # take n cs) @ X)
        = map_option (apfst ((@) (c # take n cs))) (scanString X)" for X
      using scanString_multi [OF False n(1), of X] scanString_line_sep [of X]
      by (simp del: scanString.simps)
    with False n(1) IH show ?thesis
      by (simp del: scanString.simps)
  qed
qed simp

declare scanString.simps [simp del] quoteBody.simps [simp del]

section \<open>Tokens\<close>

definition is_ws :: "char \<Rightarrow> bool" where
  "is_ws c \<longleftrightarrow> code c \<in> {9, 10, 13, 32}"

definition num_char :: "char \<Rightarrow> bool" where
  "num_char c \<longleftrightarrow> is_digit c \<or> c \<in> set ''+-.eE''"

text \<open>The number grammar of JSON: sign, integer without leading zeros, fraction, exponent.\<close>

definition valid_exp :: "string \<Rightarrow> bool" where
  "valid_exp s \<longleftrightarrow>
     (case s of
        [] \<Rightarrow> True
      | e # r \<Rightarrow>
          (e = CHR ''e'' \<or> e = CHR ''E'') \<and>
          (let ds = (if r \<noteq> [] \<and> (hd r = CHR ''+'' \<or> hd r = CHR ''-'') then tl r else r)
           in ds \<noteq> [] \<and> list_all is_digit ds))"

definition valid_frac :: "string \<Rightarrow> bool" where
  "valid_frac s \<longleftrightarrow>
     (case s of
        [] \<Rightarrow> True
      | d # r \<Rightarrow>
          if d = CHR ''.'' then takeWhile is_digit r \<noteq> [] \<and> valid_exp (dropWhile is_digit r)
          else valid_exp s)"

definition valid_number :: "string \<Rightarrow> bool" where
  "valid_number s \<longleftrightarrow>
     (let u = (if s \<noteq> [] \<and> hd s = CHR ''-'' then tl s else s);
          ds = takeWhile is_digit u
      in ds \<noteq> [] \<and> (hd ds = CHR ''0'' \<longrightarrow> length ds = 1) \<and> valid_frac (dropWhile is_digit u))"

definition lex_token :: "char \<Rightarrow> string \<Rightarrow> (jtok \<times> string) option" where
  "lex_token c cs =
     (if c = CHR ''{'' then Some (LBrace, cs)
      else if c = CHR ''}'' then Some (RBrace, cs)
      else if c = CHR ''['' then Some (LBrack, cs)
      else if c = CHR '']'' then Some (RBrack, cs)
      else if c = CHR '':'' then Some (TColon, cs)
      else if c = CHR '','' then Some (TComma, cs)
      else if c = dquote then map_option (apfst TStr) (scanString cs)
      else if c = CHR ''-'' \<or> is_digit c
      then (let w = c # takeWhile num_char cs
            in if valid_number w then Some (TNum w, dropWhile num_char cs) else None)
      else if c = CHR ''t'' \<and> take 3 cs = ''rue'' then Some (TTrue, drop 3 cs)
      else if c = CHR ''f'' \<and> take 4 cs = ''alse'' then Some (TFalse, drop 4 cs)
      else if c = CHR ''n'' \<and> take 3 cs = ''ull'' then Some (TNull, drop 3 cs)
      else None)"

definition lex1 :: "string \<Rightarrow> (jtok \<times> string) option" where
  "lex1 s = (case dropWhile is_ws s of [] \<Rightarrow> None | c # cs \<Rightarrow> lex_token c cs)"

lemma if_rest:
  assumes "(if b then x else y) = Some z"
    and "x = Some z \<Longrightarrow> P" and "y = Some z \<Longrightarrow> P"
  shows P
  using assms by (cases b) auto

lemma lex_token_le: "lex_token c cs = Some (t, r) \<Longrightarrow> length r \<le> length cs"
  unfolding lex_token_def Let_def
  by (elim if_rest) (auto simp: length_dropWhile_le dest: scanString_le)

lemma lex1_le: "lex1 s = Some (t, r) \<Longrightarrow> length r < length s"
proof -
  assume "lex1 s = Some (t, r)"
  then obtain c cs where c: "dropWhile is_ws s = c # cs" and t: "lex_token c cs = Some (t, r)"
    by (auto simp: lex1_def split: list.splits)
  show ?thesis
    using dropWhile_rest_Cons [OF c] lex_token_le [OF t] by simp
qed

section \<open>Parsing\<close>

text \<open>
  An open container holds what has been read of it, newest first; an object also the
  key whose value comes next.
\<close>

datatype frame = FArr "json list" | FObj "(string \<times> json) list" "string option"

datatype expect = EVal | EValOrEnd | EKey | EKeyOrEnd | EColon | EAfter

datatype jres = Fail | Done json | More "frame list" expect

definition maxNestingDepth :: nat where
  "maxNestingDepth = 10000"

fun pushv :: "frame list \<Rightarrow> json \<Rightarrow> jres" where
  "pushv [] v = Done v"
| "pushv (FArr vs # st) v = More (FArr (v # vs) # st) EAfter"
| "pushv (FObj kvs (Some k) # st) v = More (FObj ((k, v) # kvs) None # st) EAfter"
| "pushv (FObj kvs None # st) v = Fail"

definition opens :: "frame list \<Rightarrow> frame \<Rightarrow> expect \<Rightarrow> jres" where
  "opens st f e = (if length st < maxNestingDepth then More (f # st) e else Fail)"

fun valstep :: "frame list \<Rightarrow> jtok \<Rightarrow> jres" where
  "valstep st LBrack = opens st (FArr []) EValOrEnd"
| "valstep st LBrace = opens st (FObj [] None) EKeyOrEnd"
| "valstep st (TStr s) = pushv st (JStr s)"
| "valstep st (TNum w) = pushv st (JNum w)"
| "valstep st TTrue = pushv st (JBool True)"
| "valstep st TFalse = pushv st (JBool False)"
| "valstep st TNull = pushv st JNull"
| "valstep st _ = Fail"

fun keystep :: "frame list \<Rightarrow> jtok \<Rightarrow> jres" where
  "keystep (FObj kvs None # st) (TStr k) = More (FObj kvs (Some k) # st) EColon"
| "keystep _ _ = Fail"

fun endstep :: "frame list \<Rightarrow> jtok \<Rightarrow> jres" where
  "endstep (FArr vs # st) RBrack = pushv st (JArr (rev vs))"
| "endstep (FObj kvs None # st) RBrace = pushv st (JObj (rev kvs))"
| "endstep (FArr vs # st) TComma = More (FArr vs # st) EVal"
| "endstep (FObj kvs None # st) TComma = More (FObj kvs None # st) EKey"
| "endstep _ _ = Fail"

fun jstep :: "frame list \<Rightarrow> expect \<Rightarrow> jtok \<Rightarrow> jres" where
  "jstep st EVal t = valstep st t"
| "jstep st EValOrEnd t = (if t = RBrack then endstep st t else valstep st t)"
| "jstep st EKey t = keystep st t"
| "jstep st EKeyOrEnd t = (if t = RBrace then endstep st t else keystep st t)"
| "jstep st EColon t = (if t = TColon then More st EVal else Fail)"
| "jstep st EAfter t = endstep st t"

text \<open>Parses one value and returns the input after it.\<close>

function jrun :: "frame list \<Rightarrow> expect \<Rightarrow> string \<Rightarrow> (json \<times> string) option" where
  "jrun st e s =
     (case lex1 s of
        None \<Rightarrow> None
      | Some (t, r) \<Rightarrow>
          (case jstep st e t of
             Fail \<Rightarrow> None
           | Done v \<Rightarrow> Some (v, r)
           | More st' e' \<Rightarrow> jrun st' e' r))"
  by pat_completeness auto
termination
  by (relation "measure (\<lambda>(st, e, s). length s)") (auto dest: lex1_le)

declare jrun.simps [simp del]

text \<open>
  \<^verbatim>\<open>json.Unmarshal\<close> parses the whole input; \<^verbatim>\<open>Decoder.Decode\<close> takes the first value
  of the stream and leaves the rest unread.
\<close>

definition jparse :: "string \<Rightarrow> json option" where
  "jparse s = (case jrun [] EVal s of
                 Some (v, r) \<Rightarrow> if list_all is_ws r then Some v else None
               | None \<Rightarrow> None)"

definition jfirst :: "string \<Rightarrow> json option" where
  "jfirst s = map_option fst (jrun [] EVal s)"

section \<open>Printing\<close>

fun jprint :: "json \<Rightarrow> string"
  and jprint_elems :: "json list \<Rightarrow> string"
  and jprint_members :: "(string \<times> json) list \<Rightarrow> string" where
  "jprint JNull = ''null''"
| "jprint (JBool b) = (if b then ''true'' else ''false'')"
| "jprint (JNum w) = w"
| "jprint (JStr s) = quote s"
| "jprint (JArr vs) = CHR ''['' # jprint_elems vs @ '']''"
| "jprint (JObj kvs) = CHR ''{'' # jprint_members kvs @ ''}''"
| "jprint_elems [] = []"
| "jprint_elems [v] = jprint v"
| "jprint_elems (v # w # vs) = jprint v @ CHR '','' # jprint_elems (w # vs)"
| "jprint_members [] = []"
| "jprint_members [(k, v)] = quote k @ CHR '':'' # jprint v"
| "jprint_members ((k, v) # m # kvs) =
     quote k @ CHR '':'' # jprint v @ CHR '','' # jprint_members (m # kvs)"

section \<open>What is printed parses back\<close>

text \<open>
  A value the encoder can print and the parser read back within nesting depth \<open>n\<close>:
  strings are well-formed UTF-8 (anything else comes back with U+FFFD in it) and numbers
  are JSON numbers.
\<close>

fun jfits :: "nat \<Rightarrow> json \<Rightarrow> bool"
  and jfits_elems :: "nat \<Rightarrow> json list \<Rightarrow> bool"
  and jfits_members :: "nat \<Rightarrow> (string \<times> json) list \<Rightarrow> bool" where
  "jfits n JNull \<longleftrightarrow> True"
| "jfits n (JBool b) \<longleftrightarrow> True"
| "jfits n (JNum w) \<longleftrightarrow> valid_number w \<and> list_all num_char w"
| "jfits n (JStr s) \<longleftrightarrow> valid_utf8 s"
| "jfits n (JArr vs) \<longleftrightarrow> (case n of 0 \<Rightarrow> False | Suc m \<Rightarrow> jfits_elems m vs)"
| "jfits n (JObj kvs) \<longleftrightarrow> (case n of 0 \<Rightarrow> False | Suc m \<Rightarrow> jfits_members m kvs)"
| "jfits_elems n [] \<longleftrightarrow> True"
| "jfits_elems n (v # vs) \<longleftrightarrow> jfits n v \<and> jfits_elems n vs"
| "jfits_members n [] \<longleftrightarrow> True"
| "jfits_members n ((k, v) # kvs) \<longleftrightarrow> valid_utf8 k \<and> jfits n v \<and> jfits_members n kvs"

definition stops :: "string \<Rightarrow> bool" where
  "stops r \<longleftrightarrow> r = [] \<or> \<not> num_char (hd r)"

definition jcont :: "jres \<Rightarrow> string \<Rightarrow> (json \<times> string) option" where
  "jcont res r = (case res of Fail \<Rightarrow> None | Done v \<Rightarrow> Some (v, r) | More st e \<Rightarrow> jrun st e r)"

lemma jrun_token: "lex1 s = Some (t, r) \<Longrightarrow> jrun st e s = jcont (jstep st e t) r"
  by (subst jrun.simps) (simp add: jcont_def)

lemma lex1_punct [simp]:
  "lex1 (CHR ''['' # r) = Some (LBrack, r)" "lex1 (CHR '']'' # r) = Some (RBrack, r)"
  "lex1 (CHR ''{'' # r) = Some (LBrace, r)" "lex1 (CHR ''}'' # r) = Some (RBrace, r)"
  "lex1 (CHR '','' # r) = Some (TComma, r)" "lex1 (CHR '':'' # r) = Some (TColon, r)"
  by (simp_all add: lex1_def lex_token_def is_ws_def code_def)

lemma lex1_word [simp]:
  "lex1 (''null'' @ r) = Some (TNull, r)" "lex1 (''true'' @ r) = Some (TTrue, r)"
  "lex1 (''false'' @ r) = Some (TFalse, r)"
  by (simp_all add: lex1_def lex_token_def is_ws_def code_def is_digit_def)

lemma lex1_quote [simp]: "valid_utf8 s \<Longrightarrow> lex1 (quote s @ r) = Some (TStr s, r)"
  by (simp add: lex1_def lex_token_def is_ws_def code_def quote_def scanString_quoteBody)

lemma num_start:
  assumes "c = CHR ''-'' \<or> is_digit c"
  shows "\<not> is_ws c" "c \<notin> {CHR ''{'', CHR ''}'', CHR ''['', CHR '']'', CHR '':'', CHR '','', dquote}"
  using assms by (auto simp: is_ws_def is_digit_def code_def)

lemma valid_number_start:
  assumes "valid_number w"
  obtains c cs where "w = c # cs" "c = CHR ''-'' \<or> is_digit c"
  using assms by (cases w) (auto simp: valid_number_def Let_def split: if_splits)

lemma lex1_num:
  assumes "valid_number w" "list_all num_char w" "stops r"
  shows "lex1 (w @ r) = Some (TNum w, r)"
proof -
  obtain c cs where w: "w = c # cs" and c: "c = CHR ''-'' \<or> is_digit c"
    using assms(1) by (rule valid_number_start)
  have "takeWhile num_char (cs @ r) = cs" "dropWhile num_char (cs @ r) = r"
    using assms(2,3) by (cases r; auto simp: w stops_def list_all_iff)+
  with num_start [OF c] c assms(1) show ?thesis
    by (simp add: lex1_def w lex_token_def)
qed

lemma stops_punct [simp]:
  "stops (CHR '','' # r)" "stops (CHR '']'' # r)" "stops (CHR ''}'' # r)" "stops []"
  by (simp_all add: stops_def num_char_def is_digit_def code_def)

lemma jcont_More [simp]: "jcont (More st e) r = jrun st e r"
  by (simp add: jcont_def)

lemmas jrun_punct = lex1_punct [THEN jrun_token]

lemmas jrun_words = lex1_word [THEN jrun_token, simplified]

lemma jstep_value: "e \<in> {EVal, EValOrEnd} \<Longrightarrow> t \<noteq> RBrack \<Longrightarrow> jstep st e t = valstep st t"
  by auto

lemma jstep_key: "e \<in> {EKey, EKeyOrEnd} \<Longrightarrow> t \<noteq> RBrace \<Longrightarrow> jstep st e t = keystep st t"
  by auto

lemma jrun_jprint:
  "jfits n v \<Longrightarrow> length st + n \<le> maxNestingDepth \<Longrightarrow> e \<in> {EVal, EValOrEnd} \<Longrightarrow> stops r \<Longrightarrow>
   jrun st e (jprint v @ r) = jcont (pushv st v) r"
  "jfits_elems n vs \<Longrightarrow> vs \<noteq> [] \<Longrightarrow> Suc (length st) + n \<le> maxNestingDepth \<Longrightarrow>
   e \<in> {EVal, EValOrEnd} \<Longrightarrow>
   jrun (FArr acc # st) e (jprint_elems vs @ CHR '']'' # r) = jcont (pushv st (JArr (rev acc @ vs))) r"
  "jfits_members n kvs \<Longrightarrow> kvs \<noteq> [] \<Longrightarrow> Suc (length st) + n \<le> maxNestingDepth \<Longrightarrow>
   e \<in> {EKey, EKeyOrEnd} \<Longrightarrow>
   jrun (FObj kacc None # st) e (jprint_members kvs @ CHR ''}'' # r)
     = jcont (pushv st (JObj (rev kacc @ kvs))) r"
proof (induction v and vs and kvs arbitrary: n st e r and n st e r acc and n st e r kacc
    rule: jprint_jprint_elems_jprint_members.induct)
  case 1
  then show ?case by (simp add: jrun_words jstep_value)
next
  case (2 b)
  then show ?case by (simp add: jrun_words jstep_value)
next
  case (3 w)
  then show ?case by (simp add: jrun_token [OF lex1_num] jstep_value)
next
  case (4 s)
  then show ?case by (simp add: jrun_token [OF lex1_quote] jstep_value)
next
  case (5 vs)
  then obtain m where m: "n = Suc m" "jfits_elems m vs" by (auto split: nat.splits)
  with 5 have "jrun (FArr [] # st) EValOrEnd (jprint_elems vs @ CHR '']'' # r)
      = jcont (pushv st (JArr vs)) r"
    by (cases "vs = []") (simp_all add: jrun_punct)
  with m 5 show ?case
    by (simp add: jrun_punct jstep_value opens_def)
next
  case (6 kvs)
  then obtain m where m: "n = Suc m" "jfits_members m kvs" by (auto split: nat.splits)
  with 6 have "jrun (FObj [] None # st) EKeyOrEnd (jprint_members kvs @ CHR ''}'' # r)
      = jcont (pushv st (JObj kvs)) r"
    by (cases "kvs = []") (simp_all add: jrun_punct)
  with m 6 show ?case
    by (simp add: jrun_punct jstep_value opens_def)
next
  case 7
  then show ?case by simp
next
  case (8 v)
  then show ?case by (simp add: jrun_punct)
next
  case (9 v w vs)
  have "jrun (FArr acc # st) e (jprint v @ CHR '','' # jprint_elems (w # vs) @ CHR '']'' # r)
      = jcont (pushv (FArr acc # st) v) (CHR '','' # jprint_elems (w # vs) @ CHR '']'' # r)"
    using "9.prems" by (intro "9.IH"(1) [of n]) simp_all
  with "9.prems" "9.IH"(2) [of n st EVal "v # acc" r] show ?case
    by (simp add: jrun_punct)
next
  case 10
  then show ?case by simp
next
  case (11 k v)
  let ?f = "FObj kacc (Some k) # st"
  have "jrun ?f EVal (jprint v @ CHR ''}'' # r) = jcont (pushv ?f v) (CHR ''}'' # r)"
    using "11.prems" by (intro "11.IH" [of n]) simp_all
  with "11.prems" show ?case
    by (simp add: jrun_token [OF lex1_quote] jstep_key jrun_punct)
next
  case (12 k v m kvs)
  let ?f = "FObj kacc (Some k) # st"
  have "jrun ?f EVal (jprint v @ CHR '','' # jprint_members (m # kvs) @ CHR ''}'' # r)
      = jcont (pushv ?f v) (CHR '','' # jprint_members (m # kvs) @ CHR ''}'' # r)"
    using "12.prems" by (intro "12.IH"(1) [of n]) simp_all
  with "12.prems" "12.IH"(2) [of n st EKey "(k, v) # kacc" r] show ?case
    by (simp add: jrun_token [OF lex1_quote] jstep_key jrun_punct)
qed

theorem jparse_jprint: "jfits maxNestingDepth v \<Longrightarrow> jparse (jprint v) = Some v"
  using jrun_jprint(1) [of maxNestingDepth v "[]" EVal "[]"]
  by (simp add: jparse_def jcont_def)

lemma jfirst_jprint: "jfits maxNestingDepth v \<Longrightarrow> stops r \<Longrightarrow> jfirst (jprint v @ r) = Some v"
  using jrun_jprint(1) [of maxNestingDepth v "[]" EVal r]
  by (simp add: jfirst_def jcont_def)

section \<open>Numbers the relay prints\<close>

lemma code_zero: "code CHR ''0'' = 48"
  by (simp add: code_def)

lemma nat_digits_lead: "hd (nat_digits n) = CHR ''0'' \<Longrightarrow> n = 0"
proof (induction n rule: nat_digits.induct)
  case (1 n)
  show ?case
  proof (cases "n < 10")
    case True
    with "1.prems" have "code (byte (48 + n)) = 48"
      by (subst (asm) nat_digits.simps) (simp add: code_zero del: code_byte)
    with True show ?thesis by simp
  next
    case False
    then have "nat_digits n = nat_digits (n div 10) @ [byte (48 + n mod 10)]"
      by (subst nat_digits.simps) simp
    with "1.prems" have "hd (nat_digits (n div 10)) = CHR ''0''"
      using nat_digits_props [of "n div 10"] by simp
    with "1.IH" False show ?thesis by simp
  qed
qed

lemma nat_digits_zero: "nat_digits 0 = [CHR ''0'']"
  by (subst nat_digits.simps) (simp add: code_eq_iff [symmetric] code_zero)

lemma nat_digits_number:
  "valid_number (nat_digits n)" "valid_number (CHR ''-'' # nat_digits n)"
  "list_all num_char (nat_digits n)"
proof -
  let ?d = "nat_digits n"
  have d: "?d \<noteq> []" "list_all is_digit ?d" using nat_digits_props [of n] by auto
  then have span: "takeWhile is_digit ?d = ?d" "dropWhile is_digit ?d = []"
    by (auto simp: list_all_iff)
  have lead: "hd ?d = CHR ''0'' \<longrightarrow> length ?d = 1"
    using nat_digits_lead [of n] nat_digits_zero by auto
  have "hd ?d \<noteq> CHR ''-''" using nat_digits_hd digit_not_sign by blast
  then show "valid_number ?d" "valid_number (CHR ''-'' # ?d)"
    using d(1) lead
    by (simp_all add: valid_number_def valid_frac_def span Let_def
        del: dropWhile_eq_Nil_conv takeWhile_eq_all_conv)
  show "list_all num_char ?d"
    using d(2) by (auto simp: list_all_iff num_char_def)
qed

lemma formatInt_number: "valid_number (formatInt n) \<and> list_all num_char (formatInt n)"
  by (simp add: formatInt_def nat_digits_number num_char_def)

end
