(* ===== verification/Json_Decode.thy ===== *)
theory Json_Decode
  imports Json
begin

text \<open>
  How \<^verbatim>\<open>json.Unmarshal\<close> fills a Go value from a parsed text.  Decoding continues after
  a type mismatch, which is reported at the end; so a decoder maps the current value of
  its target to a pair of an error flag and the new value.  Keys match a struct field
  exactly or else by case folding, unknown keys are skipped, a repeated key decodes
  into the value its predecessor left, and \<^verbatim>\<open>null\<close> leaves strings, numbers and structs
  alone.  Hidden capacity of a slice that an earlier duplicate of the same key had
  filled is taken to be zeroed.
\<close>

section \<open>Scalars and slices\<close>

definition decString :: "json \<Rightarrow> string \<Rightarrow> bool \<times> string" where
  "decString v cur = (case v of JStr s \<Rightarrow> (False, s) | JNull \<Rightarrow> (False, cur) | _ \<Rightarrow> (True, cur))"

definition decInt64 :: "json \<Rightarrow> int \<Rightarrow> bool \<times> int" where
  "decInt64 v cur =
     (case v of
        JNum w \<Rightarrow> (case parseInt w of Some n \<Rightarrow> (False, n) | None \<Rightarrow> (True, cur))
      | JNull \<Rightarrow> (False, cur)
      | _ \<Rightarrow> (True, cur))"

definition parseUint :: "nat \<Rightarrow> string \<Rightarrow> nat option" where
  "parseUint bits w =
     (if w \<noteq> [] \<and> list_all is_digit w \<and> digits_val w < 2 ^ bits then Some (digits_val w) else None)"

definition decUint32 :: "json \<Rightarrow> 32 word \<Rightarrow> bool \<times> 32 word" where
  "decUint32 v cur =
     (case v of
        JNum w \<Rightarrow> (case parseUint 32 w of Some n \<Rightarrow> (False, of_nat n) | None \<Rightarrow> (True, cur))
      | JNull \<Rightarrow> (False, cur)
      | _ \<Rightarrow> (True, cur))"

definition decByte :: "json \<Rightarrow> char \<Rightarrow> bool \<times> char" where
  "decByte v cur =
     (case v of
        JNum w \<Rightarrow> (case parseUint 8 w of Some n \<Rightarrow> (False, byte n) | None \<Rightarrow> (True, cur))
      | JNull \<Rightarrow> (False, cur)
      | _ \<Rightarrow> (True, cur))"

fun decList :: "(json \<Rightarrow> 'a \<Rightarrow> bool \<times> 'a) \<Rightarrow> 'a \<Rightarrow> json list \<Rightarrow> 'a list \<Rightarrow> bool \<times> 'a list" where
  "decList f zero [] cur = (False, [])"
| "decList f zero (v # vs) cur =
     (case f v (case cur of [] \<Rightarrow> zero | x # _ \<Rightarrow> x) of (e, x) \<Rightarrow>
        case decList f zero vs (tl cur) of (e', xs) \<Rightarrow> (e \<or> e', x # xs))"

text \<open>A \<^verbatim>\<open>[]byte\<close> is a base64 string, or an array of small numbers.\<close>

definition decBytes :: "json \<Rightarrow> bytes \<Rightarrow> bool \<times> bytes" where
  "decBytes v cur =
     (case v of
        JStr s \<Rightarrow> (case b64_decode s of (b, err) \<Rightarrow> if err then (True, cur) else (False, b))
      | JArr vs \<Rightarrow> decList decByte (byte 0) vs cur
      | JNull \<Rightarrow> (False, [])
      | _ \<Rightarrow> (True, cur))"

section \<open>Structs\<close>

text \<open>
  Case folding of keys.  Besides the ASCII letters, two other characters fold to an
  ASCII letter: the long s (U+017F) and the Kelvin sign (U+212A).
\<close>

function foldKey :: "string \<Rightarrow> string" where
  "foldKey [] = []"
| "foldKey (c # cs) =
     (if between 97 122 c then byte (code c - 32) # foldKey cs
      else if take 2 (c # cs) = [byte 197, byte 191] then CHR ''S'' # foldKey (drop 1 cs)
      else if take 3 (c # cs) = [byte 226, byte 132, byte 170] then CHR ''K'' # foldKey (drop 2 cs)
      else c # foldKey cs)"
  by pat_completeness auto
termination
  by (relation "measure length") auto

declare foldKey.simps [simp del]

definition fieldOf :: "string list \<Rightarrow> string \<Rightarrow> string option" where
  "fieldOf fs k = (if k \<in> set fs then Some k else List.find (\<lambda>f. foldKey f = foldKey k) fs)"

fun decMembers :: "(string \<Rightarrow> json \<Rightarrow> 'a \<Rightarrow> bool \<times> 'a) \<Rightarrow> string list
    \<Rightarrow> (string \<times> json) list \<Rightarrow> 'a \<Rightarrow> bool \<times> 'a" where
  "decMembers set_field fs [] x = (False, x)"
| "decMembers set_field fs ((k, v) # kvs) x =
     (case fieldOf fs k of
        None \<Rightarrow> decMembers set_field fs kvs x
      | Some f \<Rightarrow>
          (case set_field f v x of (e, x') \<Rightarrow>
             case decMembers set_field fs kvs x' of (e', x'') \<Rightarrow> (e \<or> e', x'')))"

definition decStruct :: "(string \<Rightarrow> json \<Rightarrow> 'a \<Rightarrow> bool \<times> 'a) \<Rightarrow> string list \<Rightarrow> json \<Rightarrow> 'a
    \<Rightarrow> bool \<times> 'a" where
  "decStruct set_field fs v x =
     (case v of
        JObj kvs \<Rightarrow> decMembers set_field fs kvs x
      | JNull \<Rightarrow> (False, x)
      | _ \<Rightarrow> (True, x))"

text \<open>A pointer: \<^verbatim>\<open>null\<close> clears it, anything else allocates its target first.\<close>

definition decPtr :: "(json \<Rightarrow> 'a \<Rightarrow> bool \<times> 'a) \<Rightarrow> 'a \<Rightarrow> json \<Rightarrow> 'a option \<Rightarrow> bool \<times> 'a option" where
  "decPtr dec zero v cur =
     (case v of
        JNull \<Rightarrow> (False, None)
      | _ \<Rightarrow> apsnd Some (dec v (case cur of None \<Rightarrow> zero | Some x \<Rightarrow> x)))"

definition unmarshal :: "(json \<Rightarrow> 'a \<Rightarrow> bool \<times> 'a) \<Rightarrow> 'a \<Rightarrow> bytes \<Rightarrow> bool \<times> 'a" where
  "unmarshal dec zero data =
     (case jparse data of None \<Rightarrow> (True, zero) | Some v \<Rightarrow> dec v zero)"

text \<open>\<^verbatim>\<open>json.NewDecoder(r).Decode\<close>: the first value of the stream.\<close>

definition decodeFirst :: "(json \<Rightarrow> 'a \<Rightarrow> bool \<times> 'a) \<Rightarrow> 'a \<Rightarrow> bytes \<Rightarrow> bool \<times> 'a" where
  "decodeFirst dec zero data =
     (case jfirst data of None \<Rightarrow> (True, zero) | Some v \<Rightarrow> dec v zero)"

section \<open>Rules\<close>

named_theorems decode_simps \<open>decoding what the encoder prints\<close>

lemma fieldOf_exact [decode_simps]: "k \<in> set fs \<Longrightarrow> fieldOf fs k = Some k"
  by (simp add: fieldOf_def)

lemma decString_Str [decode_simps]: "decString (JStr s) cur = (False, s)"
  by (simp add: decString_def)

lemma decBytes_Str [decode_simps]: "decBytes (JStr (b64_encode b)) cur = (False, b)"
  by (simp add: decBytes_def b64_decode_encode)

lemma decInt64_Num [decode_simps]:
  "int64_ok n \<Longrightarrow> decInt64 (JNum (formatInt n)) cur = (False, n)"
  by (simp add: decInt64_def parseInt_formatInt)

lemma parseUint_digits: "n < 2 ^ b \<Longrightarrow> parseUint b (nat_digits n) = Some n"
  using nat_digits_props [of n] by (simp add: parseUint_def)

lemma decUint32_Num [decode_simps]:
  "decUint32 (JNum (nat_digits (unat w))) cur = (False, w)"
  using unsigned_less [of w, where 'a = nat]
  by (simp add: decUint32_def parseUint_digits)

lemma decStruct_Obj [decode_simps]: "decStruct f fs (JObj kvs) x = decMembers f fs kvs x"
  by (simp add: decStruct_def)

lemma unmarshal_jprint [decode_simps]:
  "jfits maxNestingDepth v \<Longrightarrow> unmarshal dec zero (jprint v) = dec v zero"
  by (simp add: unmarshal_def jparse_jprint)

lemma fits_depth: "(\<And>n. jfits (Suc (Suc (Suc n))) v) \<Longrightarrow> jfits maxNestingDepth v"
  by (simp add: maxNestingDepth_def numeral_eq_Suc)

lemma unmarshal_fits:
  "(\<And>n. jfits (Suc (Suc (Suc n))) v) \<Longrightarrow> unmarshal dec zero (jprint v) = dec v zero"
  by (simp only: unmarshal_jprint fits_depth)

lemma plain_ascii: "plain_char c \<Longrightarrow> code c < 128"
  by (simp add: plain_char_def)

lemma valid_b64 [simp]: "valid_utf8 (b64_encode b)"
  using b64_encode_plain plain_ascii by (blast intro: valid_utf8_ascii)

lemma valid_utf8_key: "list_all (\<lambda>c. code c < 128) s \<Longrightarrow> valid_utf8 s"
  by (simp add: valid_utf8_ascii list_all_iff)

end
