(* ===== verification/Envelope.thy ===== *)
theory Envelope
  imports Json_Decode
begin

text \<open>
  The wire types of \<^verbatim>\<open>model/envelope.go\<close> with their JSON codecs, as the struct tags
  prescribe them.  Nil and empty byte slices are identified.
\<close>

section \<open>Sealed envelopes\<close>

record SealedEnvelope =
  se_RecipientID :: string
  se_Ciphertext :: bytes
  se_TimestampMS :: int
  se_ID :: string
  se_FederationSenderRelay :: string

definition zeroSealed :: SealedEnvelope where
  "zeroSealed = \<lparr>se_RecipientID = [], se_Ciphertext = [], se_TimestampMS = 0, se_ID = [],
     se_FederationSenderRelay = []\<rparr>"

definition sealedFields :: "string list" where
  "sealedFields =
     [''recipient_id'', ''ciphertext'', ''timestamp_ms'', ''id'', ''federation_sender_relay'']"

definition setSealed :: "string \<Rightarrow> json \<Rightarrow> SealedEnvelope \<Rightarrow> bool \<times> SealedEnvelope" where
  "setSealed f v x =
     (if f = ''recipient_id''
      then apsnd (\<lambda>s. x\<lparr>se_RecipientID := s\<rparr>) (decString v (se_RecipientID x))
      else if f = ''ciphertext''
      then apsnd (\<lambda>b. x\<lparr>se_Ciphertext := b\<rparr>) (decBytes v (se_Ciphertext x))
      else if f = ''timestamp_ms''
      then apsnd (\<lambda>n. x\<lparr>se_TimestampMS := n\<rparr>) (decInt64 v (se_TimestampMS x))
      else if f = ''id''
      then apsnd (\<lambda>s. x\<lparr>se_ID := s\<rparr>) (decString v (se_ID x))
      else if f = ''federation_sender_relay''
      then apsnd (\<lambda>s. x\<lparr>se_FederationSenderRelay := s\<rparr>) (decString v (se_FederationSenderRelay x))
      else (False, x))"

definition decSealed :: "json \<Rightarrow> SealedEnvelope \<Rightarrow> bool \<times> SealedEnvelope" where
  "decSealed = decStruct setSealed sealedFields"

definition unmarshalSealed :: "bytes \<Rightarrow> bool \<times> SealedEnvelope" where
  "unmarshalSealed = unmarshal decSealed zeroSealed"

definition jsonSealed :: "SealedEnvelope \<Rightarrow> json" where
  "jsonSealed x = JObj
     ([(''recipient_id'', JStr (se_RecipientID x)),
       (''ciphertext'', JStr (b64_encode (se_Ciphertext x))),
       (''timestamp_ms'', JNum (formatInt (se_TimestampMS x))),
       (''id'', JStr (se_ID x))] @
      (if se_FederationSenderRelay x = [] then []
       else [(''federation_sender_relay'', JStr (se_FederationSenderRelay x))]))"

definition marshalSealed :: "SealedEnvelope \<Rightarrow> bytes" where
  "marshalSealed x = jprint (jsonSealed x)"

section \<open>Open envelopes\<close>

record OpenEnvelope =
  oe_SenderID :: string
  oe_RecipientID :: string
  oe_Ciphertext :: bytes
  oe_TimestampMS :: int
  oe_ID :: string

definition zeroOpen :: OpenEnvelope where
  "zeroOpen = \<lparr>oe_SenderID = [], oe_RecipientID = [], oe_Ciphertext = [], oe_TimestampMS = 0,
     oe_ID = []\<rparr>"

definition openFields :: "string list" where
  "openFields = [''sender_id'', ''recipient_id'', ''ciphertext'', ''timestamp_ms'', ''id'']"

definition setOpen :: "string \<Rightarrow> json \<Rightarrow> OpenEnvelope \<Rightarrow> bool \<times> OpenEnvelope" where
  "setOpen f v x =
     (if f = ''sender_id''
      then apsnd (\<lambda>s. x\<lparr>oe_SenderID := s\<rparr>) (decString v (oe_SenderID x))
      else if f = ''recipient_id''
      then apsnd (\<lambda>s. x\<lparr>oe_RecipientID := s\<rparr>) (decString v (oe_RecipientID x))
      else if f = ''ciphertext''
      then apsnd (\<lambda>b. x\<lparr>oe_Ciphertext := b\<rparr>) (decBytes v (oe_Ciphertext x))
      else if f = ''timestamp_ms''
      then apsnd (\<lambda>n. x\<lparr>oe_TimestampMS := n\<rparr>) (decInt64 v (oe_TimestampMS x))
      else if f = ''id''
      then apsnd (\<lambda>s. x\<lparr>oe_ID := s\<rparr>) (decString v (oe_ID x))
      else (False, x))"

definition decOpen :: "json \<Rightarrow> OpenEnvelope \<Rightarrow> bool \<times> OpenEnvelope" where
  "decOpen = decStruct setOpen openFields"

definition unmarshalOpen :: "bytes \<Rightarrow> bool \<times> OpenEnvelope" where
  "unmarshalOpen = unmarshal decOpen zeroOpen"

definition jsonOpen :: "OpenEnvelope \<Rightarrow> json" where
  "jsonOpen x = JObj
     [(''sender_id'', JStr (oe_SenderID x)),
      (''recipient_id'', JStr (oe_RecipientID x)),
      (''ciphertext'', JStr (b64_encode (oe_Ciphertext x))),
      (''timestamp_ms'', JNum (formatInt (oe_TimestampMS x))),
      (''id'', JStr (oe_ID x))]"

definition marshalOpen :: "OpenEnvelope \<Rightarrow> bytes" where
  "marshalOpen x = jprint (jsonOpen x)"

section \<open>The handshake\<close>

record AuthRequest =
  ar_UserID :: string
  ar_IdentityPublicKey :: string
  ar_Signature :: string

definition zeroAuthRequest :: AuthRequest where
  "zeroAuthRequest = \<lparr>ar_UserID = [], ar_IdentityPublicKey = [], ar_Signature = []\<rparr>"

definition setAuthRequest :: "string \<Rightarrow> json \<Rightarrow> AuthRequest \<Rightarrow> bool \<times> AuthRequest" where
  "setAuthRequest f v x =
     (if f = ''user_id''
      then apsnd (\<lambda>s. x\<lparr>ar_UserID := s\<rparr>) (decString v (ar_UserID x))
      else if f = ''identity_public_key''
      then apsnd (\<lambda>s. x\<lparr>ar_IdentityPublicKey := s\<rparr>) (decString v (ar_IdentityPublicKey x))
      else if f = ''signature''
      then apsnd (\<lambda>s. x\<lparr>ar_Signature := s\<rparr>) (decString v (ar_Signature x))
      else (False, x))"

definition unmarshalAuthRequest :: "bytes \<Rightarrow> bool \<times> AuthRequest" where
  "unmarshalAuthRequest =
     unmarshal (decStruct setAuthRequest [''user_id'', ''identity_public_key'', ''signature''])
       zeroAuthRequest"

definition marshalAuthRequest :: "AuthRequest \<Rightarrow> bytes" where
  "marshalAuthRequest x = jprint (JObj
     [(''user_id'', JStr (ar_UserID x)),
      (''identity_public_key'', JStr (ar_IdentityPublicKey x)),
      (''signature'', JStr (ar_Signature x))])"

text \<open>
  \<^verbatim>\<open>wsjson.Write\<close> writes these two with a \<^verbatim>\<open>json.Encoder\<close>, which ends the text with a newline.
\<close>

definition marshalChallenge :: "bytes \<Rightarrow> bytes" where
  "marshalChallenge nonce = jprint (JObj [(''nonce'', JStr (b64_encode nonce))]) @ [byte 10]"

definition marshalAuthResponse :: "bool \<Rightarrow> string \<Rightarrow> bytes" where
  "marshalAuthResponse success err =
     jprint (JObj [(''success'', JBool success), (''error'', JStr err)]) @ [byte 10]"

section \<open>Round trips\<close>

text \<open>What a Go string and an int64 must satisfy to survive JSON unchanged.\<close>

definition sealed_wf :: "SealedEnvelope \<Rightarrow> bool" where
  "sealed_wf x \<longleftrightarrow> valid_utf8 (se_RecipientID x) \<and> int64_ok (se_TimestampMS x)
     \<and> valid_utf8 (se_ID x) \<and> valid_utf8 (se_FederationSenderRelay x)"

definition open_wf :: "OpenEnvelope \<Rightarrow> bool" where
  "open_wf x \<longleftrightarrow> valid_utf8 (oe_SenderID x) \<and> valid_utf8 (oe_RecipientID x)
     \<and> int64_ok (oe_TimestampMS x) \<and> valid_utf8 (oe_ID x)"

lemma envelope_keys_utf8 [simp]:
  "valid_utf8 ''recipient_id''" "valid_utf8 ''ciphertext''" "valid_utf8 ''timestamp_ms''"
  "valid_utf8 ''id''" "valid_utf8 ''federation_sender_relay''" "valid_utf8 ''sender_id''"
  "valid_utf8 ''user_id''" "valid_utf8 ''identity_public_key''" "valid_utf8 ''signature''"
  by (rule valid_utf8_key, simp add: code_def)+

lemma jsonSealed_fits: "sealed_wf x \<Longrightarrow> jfits (Suc n) (jsonSealed x)"
  by (simp add: jsonSealed_def sealed_wf_def formatInt_number)

lemma jsonOpen_fits: "open_wf x \<Longrightarrow> jfits (Suc n) (jsonOpen x)"
  by (simp add: jsonOpen_def open_wf_def formatInt_number)

lemma decSealed_json: "sealed_wf x \<Longrightarrow> decSealed (jsonSealed x) zeroSealed = (False, x)"
  by (simp add: decSealed_def jsonSealed_def sealed_wf_def decode_simps sealedFields_def setSealed_def
      zeroSealed_def)

lemma decOpen_json: "open_wf x \<Longrightarrow> decOpen (jsonOpen x) zeroOpen = (False, x)"
  by (simp add: decOpen_def jsonOpen_def open_wf_def decode_simps openFields_def setOpen_def
      zeroOpen_def)

lemma unmarshal_marshalSealed: "sealed_wf x \<Longrightarrow> unmarshalSealed (marshalSealed x) = (False, x)"
  by (simp add: unmarshalSealed_def marshalSealed_def unmarshal_fits
      jsonSealed_fits decSealed_json)

lemma unmarshal_marshalOpen: "open_wf x \<Longrightarrow> unmarshalOpen (marshalOpen x) = (False, x)"
  by (simp add: unmarshalOpen_def marshalOpen_def unmarshal_fits
      jsonOpen_fits decOpen_json)

text \<open>
  An open envelope is also a well-formed text for the sealed decoder, which skips the
  key it does not know: the sender.
\<close>

definition seal_of :: "OpenEnvelope \<Rightarrow> SealedEnvelope" where
  "seal_of x = \<lparr>se_RecipientID = oe_RecipientID x, se_Ciphertext = oe_Ciphertext x,
     se_TimestampMS = oe_TimestampMS x, se_ID = oe_ID x, se_FederationSenderRelay = []\<rparr>"

lemma sealed_skips_sender: "fieldOf sealedFields ''sender_id'' = None"
  by code_simp

lemma unmarshalSealed_marshalOpen:
  "open_wf x \<Longrightarrow> unmarshalSealed (marshalOpen x) = (False, seal_of x)"
  by (simp add: unmarshalSealed_def marshalOpen_def unmarshal_fits
      jsonOpen_fits)
    (simp add: decSealed_def jsonOpen_def open_wf_def decode_simps
      sealed_skips_sender [unfolded sealedFields_def] sealedFields_def setSealed_def zeroSealed_def seal_of_def)

end
