(* ===== verification/Store.thy ===== *)
theory Store
  imports Queue_Table Envelope
begin

text \<open>
  \<^verbatim>\<open>server/store.go\<close>: the client registry and the encrypted offline queue.  Every
  method runs under \<^verbatim>\<open>s.mu\<close>, so each is one state transition.  The calls that can fail
  (statements, random bytes, file operations) and the clocks they read come from an
  environment record per method; \<open>st_stopped\<close> records that \<^verbatim>\<open>Stop\<close> has closed the
  connection, after which every statement fails.
\<close>

section \<open>Queued messages\<close>

record queuedMessage =
  qm_Sealed :: "SealedEnvelope option"
  qm_Open :: "OpenEnvelope option"
  qm_ExpiresAt :: int

definition zeroQueued :: queuedMessage where
  "zeroQueued = \<lparr>qm_Sealed = None, qm_Open = None, qm_ExpiresAt = 0\<rparr>"

definition setQueued :: "string \<Rightarrow> json \<Rightarrow> queuedMessage \<Rightarrow> bool \<times> queuedMessage" where
  "setQueued f v x =
     (if f = ''sealed''
      then apsnd (\<lambda>p. x\<lparr>qm_Sealed := p\<rparr>) (decPtr decSealed zeroSealed v (qm_Sealed x))
      else if f = ''open''
      then apsnd (\<lambda>p. x\<lparr>qm_Open := p\<rparr>) (decPtr decOpen zeroOpen v (qm_Open x))
      else if f = ''expires_at''
      then apsnd (\<lambda>n. x\<lparr>qm_ExpiresAt := n\<rparr>) (decInt64 v (qm_ExpiresAt x))
      else (False, x))"

definition unmarshalQueued :: "bytes \<Rightarrow> bool \<times> queuedMessage" where
  "unmarshalQueued =
     unmarshal (decStruct setQueued [''sealed'', ''open'', ''expires_at'']) zeroQueued"

definition jsonQueued :: "queuedMessage \<Rightarrow> json" where
  "jsonQueued m = JObj
     ((case qm_Sealed m of None \<Rightarrow> [] | Some x \<Rightarrow> [(''sealed'', jsonSealed x)]) @
      (case qm_Open m of None \<Rightarrow> [] | Some x \<Rightarrow> [(''open'', jsonOpen x)]) @
      [(''expires_at'', JNum (formatInt (qm_ExpiresAt m)))])"

definition marshalMessage :: "queuedMessage \<Rightarrow> bytes" where
  "marshalMessage m = jprint (jsonQueued m)"

section \<open>The store\<close>

definition maxQueuePerRecipient :: int where
  "maxQueuePerRecipient = 500"

record Store =
  st_clients :: "(string, conn) gomap"
  st_db :: sqlDB
  st_queuePath :: string
  st_key :: bytes
  st_ttl :: duration
  st_stopped :: bool

text \<open>\<^verbatim>\<open>Register\<close> returns the connection it displaces.\<close>

definition Register :: "Store \<Rightarrow> string \<Rightarrow> conn \<Rightarrow> conn option \<times> Store" where
  "Register s userID c =
     (map_of (st_clients s) userID, s\<lparr>st_clients := gm_put userID c (st_clients s)\<rparr>)"

definition Unregister :: "Store \<Rightarrow> string \<Rightarrow> conn \<Rightarrow> Store" where
  "Unregister s userID c =
     (if map_of (st_clients s) userID = Some c
      then s\<lparr>st_clients := gm_del userID (st_clients s)\<rparr> else s)"

definition LookupClient :: "Store \<Rightarrow> string \<Rightarrow> conn option" where
  "LookupClient s userID = map_of (st_clients s) userID"

definition ConnectedClients :: "Store \<Rightarrow> int" where
  "ConnectedClients s = int (length (st_clients s))"

definition store_persistLocked :: "crypto \<Rightarrow> sqliteDriver \<Rightarrow> persistEnv \<Rightarrow> Store \<Rightarrow> fs
    \<Rightarrow> goErr option \<times> fs" where
  "store_persistLocked cr drv env s disk =
     (if st_stopped s then (Some ErrIO, disk)
      else case serializeDB drv (st_db s) of
        Inl e \<Rightarrow> (Some e, disk)
      | Inr plain \<Rightarrow>
          (case encrypt cr (st_key s) (pe_rand env) plain of
             Inl e \<Rightarrow> (Some e, disk)
           | Inr sealed \<Rightarrow> replaceFile env disk (st_queuePath s) ''queue-'' sealed))"

record enqEnv =
  ee_delete :: "goErr option"
  ee_epoch :: int
  ee_count :: "goErr option"
  ee_now :: time
  ee_rand :: bytes
  ee_insert :: "goErr option"
  ee_persist :: persistEnv

definition Enqueue :: "crypto \<Rightarrow> sqliteDriver \<Rightarrow> enqEnv \<Rightarrow> Store \<times> fs \<Rightarrow> string \<Rightarrow> queuedMessage
    \<Rightarrow> Store \<times> fs" where
  "Enqueue cr drv env w rid msg =
     (case w of (s, disk) \<Rightarrow>
      if st_stopped s \<or> ee_delete env \<noteq> None then (s, disk)
      else
        let db1 = sqlDeleteExpiredFor rid (ee_epoch env) (st_db s); s1 = s\<lparr>st_db := db1\<rparr> in
        if ee_count env \<noteq> None then (s1, disk)
        else if maxQueuePerRecipient \<le> sqlCountFor rid db1 then (s1, disk)
        else
          let msg' = msg\<lparr>qm_ExpiresAt := unix (time_add (ee_now env) (st_ttl s))\<rparr> in
          (case encrypt cr (st_key s) (ee_rand env) (marshalMessage msg') of
             Inl e \<Rightarrow> (s1, disk)
           | Inr ciphertext \<Rightarrow>
               if ee_insert env \<noteq> None then (s1, disk)
               else (case sqlInsert rid ciphertext (qm_ExpiresAt msg') db1 of
                       Inl e \<Rightarrow> (s1, disk)
                     | Inr db2 \<Rightarrow>
                         let s2 = s\<lparr>st_db := db2\<rparr> in
                         (s2, snd (store_persistLocked cr drv (ee_persist env) s2 disk)))))"

record drainEnv =
  de_begin :: "goErr option"
  de_query :: "goErr option"
  de_now :: time
  de_rows :: "nat option"
  de_scan :: "nat \<Rightarrow> bool"
  de_delete :: "goErr option"
  de_commit :: "goErr option"
  de_persist :: persistEnv

text \<open>
  The loop over the result rows.  A row that cannot be scanned (\<open>scan i\<close> says so for
  the \<open>i\<close>-th), has expired, does not decrypt or does not decode is skipped.
\<close>

fun drainRows :: "crypto \<Rightarrow> bytes \<Rightarrow> int \<Rightarrow> (nat \<Rightarrow> bool) \<Rightarrow> nat \<Rightarrow> (bytes \<times> int) list
    \<Rightarrow> queuedMessage list" where
  "drainRows cr key now scan i [] = []"
| "drainRows cr key now scan i ((ciphertext, expiresAt) # rows) =
     (if scan i then drainRows cr key now scan (Suc i) rows
      else if expiresAt < now then drainRows cr key now scan (Suc i) rows
      else (case decrypt cr key ciphertext of
              Inl e \<Rightarrow> drainRows cr key now scan (Suc i) rows
            | Inr plaintext \<Rightarrow>
                (case unmarshalQueued plaintext of
                   (True, _) \<Rightarrow> drainRows cr key now scan (Suc i) rows
                 | (False, msg) \<Rightarrow> msg # drainRows cr key now scan (Suc i) rows)))"

text \<open>
  \<open>de_rows = Some n\<close>: \<^verbatim>\<open>rows.Next()\<close> reports the end after \<open>n\<close> rows because of an error,
  which the code never asks for (\<^verbatim>\<open>rows.Err()\<close> is not called).
\<close>

definition DrainQueue :: "crypto \<Rightarrow> sqliteDriver \<Rightarrow> drainEnv \<Rightarrow> Store \<times> fs \<Rightarrow> string
    \<Rightarrow> queuedMessage list \<times> Store \<times> fs" where
  "DrainQueue cr drv env w rid =
     (case w of (s, disk) \<Rightarrow>
      if st_stopped s \<or> de_begin env \<noteq> None \<or> de_query env \<noteq> None then ([], s, disk)
      else
        let rows = sqlSelectFor rid (st_db s);
            seen = (case de_rows env of None \<Rightarrow> rows | Some n \<Rightarrow> take n rows);
            messages = drainRows cr (st_key s) (unix (de_now env)) (de_scan env) 0 seen in
        if de_delete env \<noteq> None \<or> de_commit env \<noteq> None then ([], s, disk)
        else let s' = s\<lparr>st_db := sqlDeleteFor rid (st_db s)\<rparr> in
             (messages, s', snd (store_persistLocked cr drv (de_persist env) s' disk)))"

definition QueuedMessages :: "goErr option \<Rightarrow> int \<Rightarrow> Store \<Rightarrow> int" where
  "QueuedMessages fault epoch s =
     (if st_stopped s \<or> fault \<noteq> None then 0 else sqlCountLive epoch (st_db s))"

definition Stop :: "Store \<Rightarrow> Store" where
  "Stop s = s\<lparr>st_stopped := True\<rparr>"

record purgeEnv =
  pu_delete :: "goErr option"
  pu_epoch :: int
  pu_persist :: persistEnv

definition purgeExpired :: "crypto \<Rightarrow> sqliteDriver \<Rightarrow> purgeEnv \<Rightarrow> Store \<times> fs \<Rightarrow> Store \<times> fs" where
  "purgeExpired cr drv env w =
     (case w of (s, disk) \<Rightarrow>
      if st_stopped s \<or> pu_delete env \<noteq> None then (s, disk)
      else let s' = s\<lparr>st_db := sqlDeleteExpired (pu_epoch env) (st_db s)\<rparr> in
           (s', snd (store_persistLocked cr drv (pu_persist env) s' disk)))"

text \<open>
  The purge goroutine: one purge per tick of the ticker until the stop channel is
  closed.  \<open>None\<close> is the stop event.
\<close>

fun purgeLoop :: "crypto \<Rightarrow> sqliteDriver \<Rightarrow> purgeEnv option list \<Rightarrow> Store \<times> fs \<Rightarrow> Store \<times> fs" where
  "purgeLoop cr drv [] w = w"
| "purgeLoop cr drv (None # evs) w = w"
| "purgeLoop cr drv (Some env # evs) w = purgeLoop cr drv evs (purgeExpired cr drv env w)"

section \<open>Start-up\<close>

record storeEnv =
  se_mkdir :: "goErr option"
  se_key :: keyEnv
  se_open :: "goErr option"
  se_conn :: "goErr option"
  se_read :: "goErr option"
  se_schema :: "goErr option"
  se_persist :: persistEnv

definition initSchema :: "crypto \<Rightarrow> sqliteDriver \<Rightarrow> storeEnv \<Rightarrow> Store \<Rightarrow> fs
    \<Rightarrow> (goErr + Store) \<times> fs" where
  "initSchema cr drv env s disk =
     (case se_schema env of
        Some e \<Rightarrow> (Inl e, disk)
      | None \<Rightarrow>
          let s' = s\<lparr>st_db := sqlCreate\<rparr> in
          (case store_persistLocked cr drv (se_persist env) s' disk of
             (Some e, disk') \<Rightarrow> (Inl e, disk')
           | (None, disk') \<Rightarrow> (Inr s', disk')))"

definition store_loadFromDisk :: "crypto \<Rightarrow> sqliteDriver \<Rightarrow> storeEnv \<Rightarrow> Store \<Rightarrow> fs
    \<Rightarrow> (goErr + Store) \<times> fs" where
  "store_loadFromDisk cr drv env s disk =
     (case readFile disk (se_read env) (st_queuePath s) of
        Inl e \<Rightarrow> if e = ErrNotExist then initSchema cr drv env s disk else (Inl e, disk)
      | Inr data \<Rightarrow>
          if data = [] then initSchema cr drv env s disk
          else (case newCipher (st_key s) of
             Some e \<Rightarrow> (Inl e, disk)
           | None \<Rightarrow>
               if length data < gcmNonceSize then (Inl (ErrMsg ''queue file truncated''), disk)
               else (case gcmOpen cr (st_key s) (take gcmNonceSize data) (drop gcmNonceSize data) of
                  None \<Rightarrow> (Inl (ErrMsg ''queue authentication failed''), disk)
                | Some plain \<Rightarrow>
                    (case deserializeDB drv plain of
                       Inl e \<Rightarrow> (Inl e, disk)
                     | Inr t \<Rightarrow> (Inr (s\<lparr>st_db := t\<rparr>), disk)))))"

definition NewStore :: "crypto \<Rightarrow> sqliteDriver \<Rightarrow> storeEnv \<Rightarrow> fs \<Rightarrow> string \<Rightarrow> int
    \<Rightarrow> (goErr + Store) \<times> fs" where
  "NewStore cr drv env disk queuePath ttlSeconds =
     (case se_mkdir env of
        Some e \<Rightarrow> (Inl e, disk)
      | None \<Rightarrow>
          (case loadOrCreateKey (se_key env) disk (queuePath @ keyFileSuffix) of
             (Inl e, disk1) \<Rightarrow> (Inl e, disk1)
           | (Inr key, disk1) \<Rightarrow>
               (case se_open env of
                  Some e \<Rightarrow> (Inl e, disk1)
                | None \<Rightarrow>
                    (case se_conn env of
                       Some e \<Rightarrow> (Inl e, disk1)
                     | None \<Rightarrow>
                         store_loadFromDisk cr drv env
                           \<lparr>st_clients = [], st_db = sqlCreate, st_queuePath = queuePath,
                            st_key = key, st_ttl = seconds ttlSeconds, st_stopped = False\<rparr>
                           disk1))))"

section \<open>Round trip of queued messages\<close>

definition message_wf :: "queuedMessage \<Rightarrow> bool" where
  "message_wf m \<longleftrightarrow> (\<forall>x. qm_Sealed m = Some x \<longrightarrow> sealed_wf x) \<and> (\<forall>x. qm_Open m = Some x \<longrightarrow> open_wf x)"

lemma queued_keys_utf8 [simp]:
  "valid_utf8 ''sealed''" "valid_utf8 ''open''" "valid_utf8 ''expires_at''"
  by (rule valid_utf8_key, simp add: code_def)+

lemma jsonQueued_fits: "message_wf m \<Longrightarrow> jfits (Suc (Suc n)) (jsonQueued m)"
  by (auto simp: jsonQueued_def message_wf_def formatInt_number jsonSealed_fits jsonOpen_fits
      split: option.splits)

lemma json_not_null: "jsonSealed x \<noteq> JNull" "jsonOpen y \<noteq> JNull"
  by (simp_all add: jsonSealed_def jsonOpen_def)

lemma decPtr_alloc: "v \<noteq> JNull \<Longrightarrow> decPtr dec zero v None = apsnd Some (dec v zero)"
  by (cases v) (simp_all add: decPtr_def)

lemma unmarshal_marshalMessage:
  assumes "message_wf m" "int64_ok (qm_ExpiresAt m)"
  shows "unmarshalQueued (marshalMessage m) = (False, m)"
proof -
  have "unmarshalQueued (marshalMessage m)
      = decStruct setQueued [''sealed'', ''open'', ''expires_at''] (jsonQueued m) zeroQueued"
    unfolding unmarshalQueued_def marshalMessage_def
    by (rule unmarshal_fits) (rule jsonQueued_fits [OF assms(1)])
  also have "\<dots> = (False, m)"
    using assms
    by (cases m) (auto simp: jsonQueued_def message_wf_def decode_simps setQueued_def zeroQueued_def
        decPtr_alloc json_not_null decSealed_json decOpen_json split: option.splits)
  finally show ?thesis .
qed

section \<open>Invariant\<close>

definition store_wf :: "Store \<Rightarrow> bool" where
  "store_wf s \<longleftrightarrow> table_wf (st_db s) \<and> gm_wf (st_clients s) \<and> length (st_key s) = 32
     \<and> (\<forall>rid. int (length (mailbox (st_db s) rid)) \<le> maxQueuePerRecipient)"

lemma store_wf_db:
  assumes "store_wf s" "table_wf t" "\<And>rid. length (mailbox t rid) \<le> length (mailbox (st_db s) rid)"
  shows "store_wf (s\<lparr>st_db := t\<rparr>)"
proof -
  have "int (length (mailbox t rid)) \<le> maxQueuePerRecipient" for rid
  proof -
    have "int (length (mailbox t rid)) \<le> int (length (mailbox (st_db s) rid))"
      using assms(3) by simp
    also have "\<dots> \<le> maxQueuePerRecipient" using assms(1) by (simp add: store_wf_def)
    finally show ?thesis .
  qed
  with assms show ?thesis by (simp add: store_wf_def)
qed

lemma Enqueue_wf:
  assumes "store_wf s"
  shows "store_wf (fst (Enqueue cr drv env (s, disk) rid msg))"
proof -
  let ?db1 = "sqlDeleteExpiredFor rid (ee_epoch env) (st_db s)"
  from assms have twf: "table_wf (st_db s)" by (simp add: store_wf_def)
  then have twf1: "table_wf ?db1" by (rule qt.wf_expire_for)
  have wf1: "store_wf (s\<lparr>st_db := ?db1\<rparr>)"
    using assms twf1 qt.expire_for_shrinks [OF twf] by (rule store_wf_db)
  have "store_wf (s\<lparr>st_db := db2\<rparr>)"
    if "sqlInsert rid c x ?db1 = Inr db2" "\<not> maxQueuePerRecipient \<le> sqlCountFor rid ?db1" for c x db2
    using wf1 qt.wf_insert [OF twf1 that(1)] qt.guarded_insert [OF twf1 _ _ that(1)] that(2)
    by (simp add: store_wf_def)
  with assms wf1 show ?thesis
    by (auto simp: Enqueue_def Let_def split: sum.split)
qed

lemma DrainQueue_wf:
  assumes "store_wf s"
  shows "store_wf (fst (snd (DrainQueue cr drv env (s, disk) rid)))"
proof -
  from assms have twf: "table_wf (st_db s)" by (simp add: store_wf_def)
  have "store_wf (s\<lparr>st_db := sqlDeleteFor rid (st_db s)\<rparr>)"
    using assms qt.wf_delete [OF twf] qt.delete_shrinks [OF twf] by (rule store_wf_db)
  with assms show ?thesis by (simp add: DrainQueue_def Let_def)
qed

lemma purgeExpired_wf:
  assumes "store_wf s"
  shows "store_wf (fst (purgeExpired cr drv env (s, disk)))"
proof -
  from assms have twf: "table_wf (st_db s)" by (simp add: store_wf_def)
  have "store_wf (s\<lparr>st_db := sqlDeleteExpired e (st_db s)\<rparr>)" for e
    using assms qt.wf_expire_all [OF twf] qt.expire_all_shrinks [OF twf] by (rule store_wf_db)
  with assms show ?thesis by (simp add: purgeExpired_def Let_def)
qed

lemma registry_wf:
  "store_wf s \<Longrightarrow> store_wf (snd (Register s u c))"
  "store_wf s \<Longrightarrow> store_wf (Unregister s u c)"
  "store_wf s \<Longrightarrow> store_wf (Stop s)"
  by (simp_all add: store_wf_def Register_def Unregister_def Stop_def)

text \<open>One step of the store, whatever the environment does.\<close>

inductive store_step :: "crypto \<Rightarrow> sqliteDriver \<Rightarrow> Store \<times> fs \<Rightarrow> Store \<times> fs \<Rightarrow> bool"
  for cr drv where
  enqueue: "store_step cr drv w (Enqueue cr drv env w rid msg)"
| drain: "store_step cr drv w (snd (DrainQueue cr drv env w rid))"
| purge: "store_step cr drv w (purgeExpired cr drv env w)"
| connects: "store_step cr drv (s, disk) (snd (Register s u c), disk)"
| leaves: "store_step cr drv (s, disk) (Unregister s u c, disk)"
| stops: "store_step cr drv (s, disk) (Stop s, disk)"

inductive_cases store_stepE: "store_step cr drv w w'"

lemma store_step_wf: "store_step cr drv w w' \<Longrightarrow> store_wf (fst w) \<Longrightarrow> store_wf (fst w')"
  by (cases w) (auto elim!: store_stepE simp: Enqueue_wf DrainQueue_wf purgeExpired_wf registry_wf)

lemma store_run_wf: "(store_step cr drv)\<^sup>*\<^sup>* w w' \<Longrightarrow> store_wf (fst w) \<Longrightarrow> store_wf (fst w')"
  by (induction rule: rtranclp_induct) (auto dest: store_step_wf)

section \<open>The mailbox as a queue of messages\<close>

text \<open>
  The abstract view of a recipient's queue at time \<open>now\<close> (in seconds): the live
  messages, oldest first.  Draining returns exactly this list; enqueueing appends to it.
\<close>

definition pending :: "crypto \<Rightarrow> int \<Rightarrow> Store \<Rightarrow> string \<Rightarrow> queuedMessage list" where
  "pending cr now s rid = drainRows cr (st_key s) now (\<lambda>_. False) 0 (mailbox (st_db s) rid)"

lemma drainRows_shift: "drainRows cr key now (\<lambda>_. False) i rows = drainRows cr key now (\<lambda>_. False) j rows"
  by (induction rows arbitrary: i j) (auto split: sum.split prod.split bool.split)

lemma drainRows_append:
  "drainRows cr key now (\<lambda>_. False) i (xs @ ys)
     = drainRows cr key now (\<lambda>_. False) i xs @ drainRows cr key now (\<lambda>_. False) i ys"
  by (induction xs arbitrary: i)
    (auto split: sum.split prod.split bool.split simp: drainRows_shift [of cr key now "Suc _" ys])

lemma drainRows_expired:
  "e \<le> now \<Longrightarrow> drainRows cr key now (\<lambda>_. False) i (filter (\<lambda>(p, x). e \<le> x) rows)
     = drainRows cr key now (\<lambda>_. False) i rows"
proof (induction rows arbitrary: i)
  case (Cons r rows)
  then show ?case
    by (cases r) (auto split: sum.split prod.split bool.split
        simp: drainRows_shift [of cr key now "Suc i" rows i])
qed simp

text \<open>The environments in which nothing fails.\<close>

definition enq_clean :: "enqEnv \<Rightarrow> bool" where
  "enq_clean env \<longleftrightarrow> ee_delete env = None \<and> ee_count env = None \<and> ee_insert env = None
     \<and> gcmNonceSize \<le> length (ee_rand env)"

definition drain_clean :: "drainEnv \<Rightarrow> bool" where
  "drain_clean env \<longleftrightarrow> de_begin env = None \<and> de_query env = None \<and> de_rows env = None
     \<and> de_scan env = (\<lambda>_. False) \<and> de_delete env = None \<and> de_commit env = None"

text \<open>The expiry an enqueued message is stamped with.\<close>

definition expiry :: "enqEnv \<Rightarrow> Store \<Rightarrow> int" where
  "expiry env s = unix (time_add (ee_now env) (st_ttl s))"

text \<open>There is room: fewer than the cap once the expired entries are gone, and ids left.\<close>

definition has_room :: "enqEnv \<Rightarrow> Store \<Rightarrow> string \<Rightarrow> bool" where
  "has_room env s rid \<longleftrightarrow> db_seq (st_db s) + 1 < 2 ^ 63 \<and>
     int (length (filter (\<lambda>(p, x). ee_epoch env \<le> x) (mailbox (st_db s) rid))) < maxQueuePerRecipient"

lemma Enqueue_mailbox:
  assumes "store_wf s" "\<not> st_stopped s" "enq_clean env" "has_room env s rid"
  obtains c where
    "encrypt cr (st_key s) (ee_rand env) (marshalMessage (msg\<lparr>qm_ExpiresAt := expiry env s\<rparr>)) = Inr c"
    "mailbox (st_db (fst (Enqueue cr drv env (s, disk) rid msg))) rid
       = filter (\<lambda>(p, x). ee_epoch env \<le> x) (mailbox (st_db s) rid) @ [(c, expiry env s)]"
proof -
  let ?db1 = "sqlDeleteExpiredFor rid (ee_epoch env) (st_db s)"
  let ?m = "marshalMessage (msg\<lparr>qm_ExpiresAt := expiry env s\<rparr>)"
  from assms have twf: "table_wf (st_db s)" and key: "length (st_key s) = 32"
    by (simp_all add: store_wf_def)
  note twf1 = qt.wf_expire_for [OF twf, of rid "ee_epoch env"]
  from assms(3) key obtain c where c: "encrypt cr (st_key s) (ee_rand env) ?m = Inr c"
    by (auto simp: encrypt_def newCipher_def enq_clean_def Let_def)
  have seq: "db_seq ?db1 = db_seq (st_db s)" by (simp add: sqlDeleteExpiredFor_def)
  with assms(4) obtain db2 where db2: "sqlInsert rid c (expiry env s) ?db1 = Inr db2"
    by (auto simp: sqlInsert_def has_room_def)
  from assms(4) have "\<not> maxQueuePerRecipient \<le> sqlCountFor rid ?db1"
    by (simp add: has_room_def qt.count_box qt.box_expire_for twf)
  with assms(2,3) c db2 have "st_db (fst (Enqueue cr drv env (s, disk) rid msg)) = db2"
    by (simp add: Enqueue_def enq_clean_def Let_def expiry_def)
  moreover have "mailbox db2 rid = mailbox ?db1 rid @ [(c, expiry env s)]"
    using qt.box_insert [OF twf1 db2, of rid] by simp
  ultimately show ?thesis
    using c that by (simp add: qt.box_expire_for twf)
qed

lemma Enqueue_key [frame_simps]:
  "st_key (fst (Enqueue cr drv env w rid msg)) = st_key (fst w)"
  "st_stopped (fst (Enqueue cr drv env w rid msg)) = st_stopped (fst w)"
  "st_ttl (fst (Enqueue cr drv env w rid msg)) = st_ttl (fst w)"
  "st_queuePath (fst (Enqueue cr drv env w rid msg)) = st_queuePath (fst w)"
  "st_clients (fst (Enqueue cr drv env w rid msg)) = st_clients (fst w)"
  by (auto simp: Enqueue_def Let_def split: prod.split sum.split)

lemma drainRows_fresh:
  assumes "gcm_correct cr" "encrypt cr key rnd (marshalMessage m) = Inr c"
    and "message_wf m" "int64_ok (qm_ExpiresAt m)" "now \<le> x"
  shows "drainRows cr key now (\<lambda>_. False) i [(c, x)] = [m]"
  using assms by (simp add: decrypt_encrypt unmarshal_marshalMessage)

lemma Enqueue_pending:
  assumes "gcm_correct cr" "store_wf s" "\<not> st_stopped s" "enq_clean env" "has_room env s rid"
    and "message_wf msg" "int64_ok (expiry env s)" "ee_epoch env \<le> now" "now \<le> expiry env s"
  shows "pending cr now (fst (Enqueue cr drv env (s, disk) rid msg)) rid
    = pending cr now s rid @ [msg\<lparr>qm_ExpiresAt := expiry env s\<rparr>]"
proof -
  obtain c where
    c: "encrypt cr (st_key s) (ee_rand env) (marshalMessage (msg\<lparr>qm_ExpiresAt := expiry env s\<rparr>)) = Inr c"
    and box: "mailbox (st_db (fst (Enqueue cr drv env (s, disk) rid msg))) rid
       = filter (\<lambda>(p, x). ee_epoch env \<le> x) (mailbox (st_db s) rid) @ [(c, expiry env s)]"
    using assms(2-5) by (rule Enqueue_mailbox)
  have "message_wf (msg\<lparr>qm_ExpiresAt := expiry env s\<rparr>)"
    using assms(6) by (simp add: message_wf_def)
  then show ?thesis
    using assms drainRows_fresh [OF assms(1) c]
    by (simp add: pending_def box frame_simps drainRows_append drainRows_expired
        del: drainRows.simps(2))
qed

text \<open>A full mailbox drops the message and tells nobody.\<close>

lemma Enqueue_overflow:
  assumes "store_wf s" "\<not> st_stopped s" "enq_clean env"
    and "maxQueuePerRecipient \<le>
       int (length (filter (\<lambda>(p, x). ee_epoch env \<le> x) (mailbox (st_db s) rid)))"
  shows "Enqueue cr drv env (s, disk) rid msg
    = (s\<lparr>st_db := sqlDeleteExpiredFor rid (ee_epoch env) (st_db s)\<rparr>, disk)"
  using assms
  by (simp add: Enqueue_def enq_clean_def Let_def qt.count_box qt.box_expire_for store_wf_def)

text \<open>Other recipients never notice.\<close>

lemma Enqueue_frame:
  assumes "store_wf s" "rid' \<noteq> rid"
  shows "mailbox (st_db (fst (Enqueue cr drv env (s, disk) rid msg))) rid' = mailbox (st_db s) rid'"
proof -
  let ?db1 = "sqlDeleteExpiredFor rid (ee_epoch env) (st_db s)"
  from assms have twf: "table_wf (st_db s)" by (simp add: store_wf_def)
  note twf1 = qt.wf_expire_for [OF twf, of rid "ee_epoch env"]
  from assms have 1: "mailbox ?db1 rid' = mailbox (st_db s) rid'"
    by (simp add: qt.box_expire_for twf)
  moreover have "mailbox db2 rid' = mailbox (st_db s) rid'" if "sqlInsert rid c x ?db1 = Inr db2" for c x db2
    using qt.box_insert [OF twf1 that, of rid'] assms(2) 1 by simp
  ultimately show ?thesis
    by (auto simp: Enqueue_def Let_def split: sum.split)
qed

lemma DrainQueue_clean:
  assumes "\<not> st_stopped s" "drain_clean env"
  shows "fst (DrainQueue cr drv env (s, disk) rid) = pending cr (unix (de_now env)) s rid"
    and "fst (snd (DrainQueue cr drv env (s, disk) rid)) = s\<lparr>st_db := sqlDeleteFor rid (st_db s)\<rparr>"
  using assms by (simp_all add: DrainQueue_def drain_clean_def Let_def pending_def mailbox_def)

text \<open>If the deletion or the commit fails, nothing is returned and nothing is lost.\<close>

lemma DrainQueue_rollback:
  assumes "de_delete env \<noteq> None \<or> de_commit env \<noteq> None \<or> de_begin env \<noteq> None \<or> de_query env \<noteq> None"
  shows "DrainQueue cr drv env (s, disk) rid = ([], s, disk)"
  using assms by (auto simp: DrainQueue_def Let_def)

section \<open>Persistence\<close>

definition store_image :: "crypto \<Rightarrow> sqliteDriver \<Rightarrow> Store \<Rightarrow> bytes \<Rightarrow> bool" where
  "store_image cr drv s b \<longleftrightarrow>
     (\<exists>rnd plain. serializeDB drv (st_db s) = Inr plain \<and> encrypt cr (st_key s) rnd plain = Inr b)"

interpretation sq: snapshot_file "store_persistLocked cr drv" st_queuePath "store_image cr drv"
  for cr drv
proof (unfold_locales, goal_cases)
  case (1 env s d d')
  then show ?case
    by (auto simp: store_persistLocked_def store_image_def split: if_splits sum.splits
        dest!: replaceFile_ok)
next
  case (2 env s d e d')
  then show ?case
    by (auto simp: store_persistLocked_def split: if_splits sum.splits dest: replaceFile_err)
next
  case (3 d p s env)
  then show ?case
    by (auto simp: store_persistLocked_def replaceFile_frame split: sum.splits)
qed

text \<open>An image loads as the database it was made from.\<close>

lemma load_image:
  assumes "gcm_correct cr" "driver_correct drv" "store_image cr drv s b"
    and "disk (st_queuePath s') = Some f" "fdata f = b" "st_key s' = st_key s" "se_read env = None"
  shows "store_loadFromDisk cr drv env s' disk = (Inr (s'\<lparr>st_db := st_db s\<rparr>), disk)"
proof -
  from assms(3) obtain rnd plain where ser: "serializeDB drv (st_db s) = Inr plain"
    and enc: "encrypt cr (st_key s) rnd plain = Inr b"
    by (auto simp: store_image_def)
  have len: "\<not> length b < gcmNonceSize" "b \<noteq> []"
    using encrypt_nonce [OF enc] by (auto simp: gcmNonceSize_def)
  from enc have "newCipher (st_key s) = None"
    by (auto simp: encrypt_def split: option.splits)
  moreover from decrypt_encrypt [OF assms(1) enc]
  have "gcmOpen cr (st_key s) (take gcmNonceSize b) (drop gcmNonceSize b) = Some plain"
    by (auto simp: decrypt_def split: option.splits if_splits)
  moreover from assms(2) ser have "deserializeDB drv plain = Inr (st_db s)"
    by (simp add: driver_correct_def)
  ultimately show ?thesis
    using assms(4-7) len by (simp add: store_loadFromDisk_def readFile_def)
qed

end
