(* ===== verification/Rate_Limit.thy ===== *)
theory Rate_Limit
  imports Relay_Prelude
begin

text \<open>
  The sliding-window rate limiter of \<^verbatim>\<open>server/ratelimit.go\<close> and the contract it
  shares with the two inline limiters (\<^verbatim>\<open>Router.allow\<close>, \<^verbatim>\<open>authLimiter.allow\<close>).
  The contract is the locale \<open>sliding_window\<close>; the lemmas about runs of calls are
  proved once in it and reach each limiter by interpretation.

  Every caller reads the clock before it gets the mutex of the limiter, so in the order in
  which the calls are decided their times need not be sorted.  The lemmas allow for it:
  \<open>skewed \<delta>\<close> says that no call is decided after one whose reading is more than \<open>\<delta>\<close> later
  than its own, as is the case when no goroutine waits longer than \<open>\<delta>\<close> for the mutex; then
  the budget holds for every window of a minute less \<open>\<delta>\<close>.
\<close>

section \<open>Model\<close>

text \<open>\<^verbatim>\<open>time.Minute\<close>, in nanoseconds.\<close>

definition minute :: time where
  "minute = 60 * 1000000000"

text \<open>
  The pruning loop, as written: \<^verbatim>\<open>kept := xs[:0]\<close> aliases the backing array of
  \<^verbatim>\<open>xs\<close>, and every \<^verbatim>\<open>append\<close> overwrites a slot of it while the loop is
  still reading.  \<open>arr\<close> is that array, \<open>i\<close> the read index, \<open>n\<close> the length of
  \<^verbatim>\<open>xs\<close> (evaluated once by \<^verbatim>\<open>range\<close>) and \<open>k\<close> the length of \<^verbatim>\<open>kept\<close>.
\<close>

function prune_loop :: "time \<Rightarrow> nat \<Rightarrow> nat \<Rightarrow> nat \<Rightarrow> time list \<Rightarrow> time list" where
  "prune_loop cutoff i n k arr =
     (if i < n
      then if cutoff < arr ! i
           then prune_loop cutoff (Suc i) n (Suc k) (arr[k := arr ! i])
           else prune_loop cutoff (Suc i) n k arr
      else take k arr)"
  by pat_completeness auto
termination
  by (relation "measure (\<lambda>(cutoff, i, n, k, arr). n - i)") auto

declare prune_loop.simps [simp del]

definition prune :: "time \<Rightarrow> time list \<Rightarrow> time list" where
  "prune cutoff xs = prune_loop cutoff 0 (length xs) 0 xs"

record rateLimiter =
  perMin :: int
  attempts :: "(string, time list) gomap"

definition newRateLimiter :: "int \<Rightarrow> rateLimiter" where
  "newRateLimiter n = \<lparr>perMin = n, attempts = []\<rparr>"

text \<open>Reading a missing key of a Go map of slices gives the nil slice.\<close>

definition window_of :: "(string, time list) gomap \<Rightarrow> string \<Rightarrow> time list" where
  "window_of m key = (case map_of m key of None \<Rightarrow> [] | Some xs \<Rightarrow> xs)"

text \<open>The caller reads \<open>now\<close> before it gets the mutex.\<close>

definition rateLimiter_allow :: "rateLimiter \<Rightarrow> string \<Rightarrow> time \<Rightarrow> bool \<times> rateLimiter" where
  "rateLimiter_allow l key now =
     (let cutoff = now - minute;
          xs = window_of (attempts l) key;
          kept = prune cutoff xs
      in if perMin l \<le> int (length kept)
         then (False, l\<lparr>attempts := gm_put key kept (attempts l)\<rparr>)
         else (True, l\<lparr>attempts := gm_put key (kept @ [now]) (attempts l)\<rparr>))"

section \<open>The in-place loop computes the filter\<close>

lemma prune_loop_filter:
  assumes "k \<le> i" "i \<le> n" "length arr = n"
  shows "prune_loop cutoff i n k arr
         = take k arr @ filter (\<lambda>t. cutoff < t) (drop i arr)"
  using assms
proof (induction cutoff i n k arr rule: prune_loop.induct)
  case (1 cutoff i n k arr)
  show ?case
  proof (cases "i < n")
    case True
    with 1 show ?thesis
      by (subst prune_loop.simps)
        (simp add: Cons_nth_drop_Suc [symmetric] take_Suc_conv_app_nth)
  next
    case False
    with 1 show ?thesis by (subst prune_loop.simps) simp
  qed
qed

lemma prune_eq_filter: "prune cutoff xs = filter (\<lambda>t. cutoff < t) xs"
  by (simp add: prune_def prune_loop_filter)


section \<open>The contract of a sliding-window limiter\<close>

text \<open>
  \<open>hist s k\<close> is what the limiter remembers for key \<open>k\<close>, \<open>lim s\<close> its budget per
  minute.  The laws say what one call decides and records; everything below follows
  from them.
\<close>

definition live :: "time \<Rightarrow> time list \<Rightarrow> time list" where
  "live now xs = filter (\<lambda>t. now - minute < t) xs"

locale sliding_window =
  fixes allow :: "'s \<Rightarrow> string \<Rightarrow> time \<Rightarrow> bool \<times> 's"
    and hist :: "'s \<Rightarrow> string \<Rightarrow> time list"
    and lim :: "'s \<Rightarrow> int"
  assumes decides: "fst (allow s k now) \<longleftrightarrow> int (length (live now (hist s k))) < lim s"
    and records: "hist (snd (allow s k now)) k
          = live now (hist s k) @ (if fst (allow s k now) then [now] else [])"
    and isolates: "k' \<noteq> k \<Longrightarrow> hist (snd (allow s k now)) k' = hist s k'"
    and keeps_lim: "lim (snd (allow s k now)) = lim s"

text \<open>
  A run of calls.  The result lists the verdicts in order; \<open>granted k\<close> picks the
  times at which calls for \<open>k\<close> were let through.
\<close>

fun limiter_run :: "('s \<Rightarrow> string \<Rightarrow> time \<Rightarrow> bool \<times> 's) \<Rightarrow> 's \<Rightarrow> (string \<times> time) list
    \<Rightarrow> (string \<times> time \<times> bool) list \<times> 's" where
  "limiter_run f s [] = ([], s)"
| "limiter_run f s ((k, now) # cs) =
     (let (b, s') = f s k now; (vs, s'') = limiter_run f s' cs in ((k, now, b) # vs, s''))"

definition granted :: "string \<Rightarrow> (string \<times> time \<times> bool) list \<Rightarrow> time list" where
  "granted k vs = map (\<lambda>(k', t, b). t) (filter (\<lambda>(k', t, b). k' = k \<and> b) vs)"

text \<open>The times in the window of length \<open>w\<close> that ends at \<open>T\<close>, and the order of the readings.\<close>

definition in_window :: "time \<Rightarrow> time \<Rightarrow> time list \<Rightarrow> time list" where
  "in_window w T xs = filter (\<lambda>t. T - w < t \<and> t \<le> T) xs"

definition skewed :: "time \<Rightarrow> time list \<Rightarrow> bool" where
  "skewed \<delta> ts \<longleftrightarrow> sorted_wrt (\<lambda>s t. s \<le> t + \<delta>) ts"

lemma skewed_simps [simp]:
  "skewed \<delta> []" "skewed \<delta> (t # ts) \<longleftrightarrow> (\<forall>u \<in> set ts. t \<le> u + \<delta>) \<and> skewed \<delta> ts"
  by (simp_all add: skewed_def)

lemma skewed_sorted: "skewed 0 ts \<longleftrightarrow> sorted ts"
  by (simp add: skewed_def)

lemma skewed_filter: "skewed \<delta> (map f xs) \<Longrightarrow> skewed \<delta> (map f (filter P xs))"
  by (induction xs) auto

lemma early_enough: "\<exists>prev. \<forall>t \<in> set ts. prev \<le> t + (\<delta>::time)"
proof (induction ts)
  case (Cons t ts)
  then obtain prev where "\<forall>t \<in> set ts. prev \<le> t + \<delta>" by blast
  then show ?case by (intro exI [of _ "min prev (t + \<delta>)"]) auto
qed simp

lemma granted_Nil [simp]: "granted k [] = []"
  by (simp add: granted_def)

lemma granted_Cons [simp]:
  "granted k ((k', t, b) # vs) = (if k' = k \<and> b then t # granted k vs else granted k vs)"
  by (simp add: granted_def)

lemma live_live: "now \<le> now' \<Longrightarrow> live now' (live now xs) = live now' xs"
  by (auto simp: live_def intro: filter_cong)

lemma live_append [simp]: "live now (xs @ ys) = live now xs @ live now ys"
  by (simp add: live_def)

lemma length_live_le: "length (live now xs) \<le> length xs"
  by (simp add: live_def)

text \<open>
  The history \<open>h\<close> \<^emph>\<open>tracks\<close> the past grants \<open>A\<close>, \<open>prev\<close> being the latest reading so far:
  the grants young enough to matter from \<open>prev\<close> on are exactly what is remembered.
\<close>

definition tracks :: "time list \<Rightarrow> time list \<Rightarrow> time \<Rightarrow> bool" where
  "tracks h A prev \<longleftrightarrow> (\<forall>now \<ge> prev. live now A = live now h)"

definition window_ok :: "time \<Rightarrow> int \<Rightarrow> time list \<Rightarrow> bool" where
  "window_ok w n A \<longleftrightarrow> (\<forall>T. int (length (in_window w T A)) \<le> max 0 n)"

lemma in_window_append [simp]: "in_window w T (xs @ ys) = in_window w T xs @ in_window w T ys"
  by (simp add: in_window_def)

lemma window_ok_Nil [simp]: "window_ok w n []"
  by (simp add: window_ok_def in_window_def)

lemma window_ok_drop: "window_ok w n (A @ x # B) \<Longrightarrow> window_ok w n (A @ B)"
  unfolding window_ok_def in_window_def by (fastforce split: if_splits)

lemma in_window_live: "now \<le> T \<Longrightarrow> length (in_window (minute - \<delta>) T A) \<le> length (live (now + \<delta>) A)"
  unfolding in_window_def live_def
  by (induction A) auto

lemma length_live_mono: "0 \<le> \<delta> \<Longrightarrow> length (live (now + \<delta>) A) \<le> length (live now A)"
  unfolding live_def by (induction A) auto

lemma window_ok_grant:
  assumes ok: "window_ok (minute - \<delta>) n A" and room: "int (length (live (now + \<delta>) A)) < n"
  shows "window_ok (minute - \<delta>) n (A @ [now])"
  unfolding window_ok_def
proof
  fix T
  show "int (length (in_window (minute - \<delta>) T (A @ [now]))) \<le> max 0 n"
  proof (cases "now \<le> T")
    case True
    then have "length (in_window (minute - \<delta>) T (A @ [now])) \<le> length (live (now + \<delta>) A) + 1"
      using in_window_live [OF True, of \<delta> A] by (simp add: in_window_def)
    with room show ?thesis by linarith
  next
    case False
    then have "in_window (minute - \<delta>) T (A @ [now]) = in_window (minute - \<delta>) T A"
      by (simp add: in_window_def)
    with ok show ?thesis by (simp add: window_ok_def)
  qed
qed

context sliding_window
begin

lemma remembers_at_most:
  "int (length (hist s k)) \<le> max 0 (lim s) \<Longrightarrow>
   int (length (hist (snd (allow s k' now)) k)) \<le> max 0 (lim s)"
proof (cases "k' = k")
  case True
  assume h: "int (length (hist s k)) \<le> max 0 (lim s)"
  then have "int (length (live now (hist s k))) \<le> max 0 (lim s)"
    using length_live_le [of now "hist s k"] by linarith
  with True show ?thesis
    by (auto simp: records decides)
next
  case False
  assume "int (length (hist s k)) \<le> max 0 (lim s)"
  with False show ?thesis by (simp add: isolates)
qed

lemma run_lim: "lim (snd (limiter_run allow s cs)) = lim s"
proof (induction cs arbitrary: s)
  case (Cons c cs)
  then show ?case
    by (cases c) (simp add: Let_def split_beta keeps_lim)
qed simp

lemma run_remembers_at_most:
  "int (length (hist s k)) \<le> max 0 (lim s) \<Longrightarrow>
   int (length (hist (snd (limiter_run allow s cs)) k)) \<le> max 0 (lim s)"
proof (induction cs arbitrary: s)
  case (Cons c cs)
  obtain k' now where c: "c = (k', now)" by (cases c)
  let ?s' = "snd (allow s k' now)"
  have "int (length (hist ?s' k)) \<le> max 0 (lim ?s')"
    using remembers_at_most [OF Cons.prems] by (simp add: keeps_lim)
  from Cons.IH [OF this] show ?case
    by (simp add: c Let_def split_beta keeps_lim)
qed simp

lemma tracks_allow:
  assumes "tracks (hist s k) A prev"
  shows "tracks (hist (snd (allow s k' now)) k)
     (A @ (if k' = k \<and> fst (allow s k' now) then [now] else [])) (max prev now)"
proof (cases "k' = k")
  case True
  with assms show ?thesis
    by (auto simp: tracks_def records live_live)
next
  case False
  with assms show ?thesis
    by (auto simp: tracks_def isolates)
qed

lemma window_allow:
  assumes "tracks (hist s k) A prev" "prev \<le> now + \<delta>" "0 \<le> \<delta>" "window_ok (minute - \<delta>) (lim s) A"
  shows "window_ok (minute - \<delta>) (lim s) (A @ (if k' = k \<and> fst (allow s k' now) then [now] else []))"
proof (cases "k' = k \<and> fst (allow s k' now)")
  case True
  have "live (now + \<delta>) A = live (now + \<delta>) (hist s k)"
    using assms(1,2) by (auto simp: tracks_def)
  then have "int (length (live (now + \<delta>) A)) < lim s"
    using True decides [of s k now] length_live_mono [OF assms(3), of now "hist s k"] by auto
  then show ?thesis
    using True assms(4) by (auto intro: window_ok_grant)
next
  case False
  with assms(4) show ?thesis by auto
qed

lemma run_window:
  assumes "tracks (hist s k) A prev" "window_ok (minute - \<delta>) (lim s) A" "0 \<le> \<delta>"
    and "skewed \<delta> (prev # map snd cs)"
  shows "window_ok (minute - \<delta>) (lim s) (A @ granted k (fst (limiter_run allow s cs)))"
  using assms(1,2,4)
proof (induction cs arbitrary: s A prev)
  case (Cons c cs)
  obtain k' now where c: "c = (k', now)" by (cases c)
  let ?s' = "snd (allow s k' now)"
  let ?g = "if k' = k \<and> fst (allow s k' now) then [now] else []"
  from Cons.prems(3) have ord: "prev \<le> now + \<delta>" "skewed \<delta> (max prev now # map snd cs)"
    by (auto simp: c)
  have "window_ok (minute - \<delta>) (lim ?s') ((A @ ?g) @ granted k (fst (limiter_run allow ?s' cs)))"
    using tracks_allow [OF Cons.prems(1), of k' now]
      window_allow [OF Cons.prems(1) ord(1) assms(3) Cons.prems(2), of k']
    by (intro Cons.IH [OF _ _ ord(2)]) (simp_all add: keeps_lim)
  then show ?case
    by (auto simp: c Let_def split_beta keeps_lim split: if_splits)
qed simp

text \<open>The sliding-window guarantee, from a fresh limiter.\<close>

lemma fresh_run_window:
  assumes "hist s k = []" "0 \<le> \<delta>" "skewed \<delta> (map snd cs)"
  shows "int (length (in_window (minute - \<delta>) T (granted k (fst (limiter_run allow s cs))))) \<le> max 0 (lim s)"
proof -
  obtain prev where "\<forall>t \<in> set (map snd cs). prev \<le> t + \<delta>" using early_enough by blast
  with assms(3) have "skewed \<delta> (prev # map snd cs)" by simp
  moreover have "tracks (hist s k) [] prev"
    using assms(1) by (simp add: tracks_def live_def)
  ultimately have "window_ok (minute - \<delta>) (lim s) ([] @ granted k (fst (limiter_run allow s cs)))"
    using assms(2) by (intro run_window) auto
  then show ?thesis by (simp add: window_ok_def)
qed

text \<open>Liveness: once everything remembered is a minute old, the next call passes.\<close>

lemma resets:
  assumes "0 < lim s" and "\<forall>t \<in> set (hist s k). t \<le> now - minute"
  shows "fst (allow s k now)"
proof -
  from assms(2) have "live now (hist s k) = []"
    by (auto simp: live_def filter_empty_conv)
  with assms(1) show ?thesis by (simp add: decides)
qed

end

section \<open>Services behind a limiter\<close>

text \<open>
  A service that asks a limiter: \<open>serve s c\<close> answers call \<open>c\<close> in state \<open>s\<close> of the limiter.
  \<open>effect c r\<close> says that the answer \<open>r\<close> did something for the caller.  A call carries
  whatever else it depends on, so a run threads the limiter only: between two calls the
  rest of the world may change at will.
\<close>

fun serve_each :: "('s \<Rightarrow> 'c \<Rightarrow> 'r \<times> 's) \<Rightarrow> 's \<Rightarrow> 'c list \<Rightarrow> ('c \<times> 'r) list" where
  "serve_each serve s [] = []"
| "serve_each serve s (c # cs) = (case serve s c of (r, s') \<Rightarrow> (c, r) # serve_each serve s' cs)"

locale limited_service = sliding_window +
  fixes serve :: "'a \<Rightarrow> 'c \<Rightarrow> 'r \<times> 'a"
    and key :: "'c \<Rightarrow> string"
    and time_of :: "'c \<Rightarrow> time"
    and effect :: "'c \<Rightarrow> 'r \<Rightarrow> bool"
  assumes asks: "snd (serve s c) = s \<or> snd (serve s c) = snd (allow s (key c) (time_of c))"
    and obeys: "effect c (fst (serve s c)) \<Longrightarrow>
          fst (allow s (key c) (time_of c)) \<and> snd (serve s c) = snd (allow s (key c) (time_of c))"
begin

lemma serve_window:
  assumes "tracks (hist s k) A prev" "window_ok (minute - \<delta>) (lim s) A" "0 \<le> \<delta>"
    and "skewed \<delta> (prev # map time_of cs)"
  shows "window_ok (minute - \<delta>) (lim s)
    (A @ map (\<lambda>x. time_of (fst x)) (filter (\<lambda>(c, r). effect c r \<and> key c = k) (serve_each serve s cs)))"
  using assms(1,2,4)
proof (induction cs arbitrary: s A prev)
  case (Cons c cs)
  obtain r s' where sv: "serve s c = (r, s')" by fastforce
  let ?now = "time_of c" and ?rest = "map (\<lambda>x. time_of (fst x)) (filter (\<lambda>(c, r). effect c r \<and> key c = k) (serve_each serve s' cs))"
  let ?g = "if key c = k \<and> fst (allow s (key c) ?now) then [?now] else []"
  from Cons.prems(3) have ord: "prev \<le> ?now + \<delta>" "skewed \<delta> (max prev ?now # map time_of cs)"
    "skewed \<delta> (prev # map time_of cs)" by auto
  show ?case
  proof (cases "s' = snd (allow s (key c) ?now)")
    case True
    have "window_ok (minute - \<delta>) (lim s') ((A @ ?g) @ ?rest)"
      using tracks_allow [OF Cons.prems(1), of "key c" ?now]
        window_allow [OF Cons.prems(1) ord(1) assms(3) Cons.prems(2), of "key c"]
      by (intro Cons.IH [OF _ _ ord(2)]) (simp_all add: keeps_lim True)
    then have "window_ok (minute - \<delta>) (lim s) (A @ ?g @ ?rest)" by (simp add: keeps_lim True)
    with obeys [of c s] sv show ?thesis
      using window_ok_drop [of "minute - \<delta>" "lim s" A ?now ?rest] by (auto split: if_splits)
  next
    case False
    with asks [of s c] sv have s': "s' = s" by simp
    have "\<not> effect c r" using obeys [of c s] sv False by auto
    with Cons.IH [OF Cons.prems(1,2) ord(3)] sv s' show ?thesis by simp
  qed
qed simp

text \<open>The budget at the level of the service: what it counts is what callers got.\<close>

lemma serve_budget:
  assumes "hist s k = []" "0 \<le> \<delta>" "skewed \<delta> (map time_of cs)"
  shows "int (length (filter (\<lambda>(c, r). effect c r \<and> key c = k \<and> T - (minute - \<delta>) < time_of c \<and> time_of c \<le> T)
      (serve_each serve s cs))) \<le> max 0 (lim s)"
proof -
  obtain prev where "\<forall>t \<in> set (map time_of cs). prev \<le> t + \<delta>" using early_enough by blast
  with assms(3) have "skewed \<delta> (prev # map time_of cs)" by simp
  moreover have "tracks (hist s k) [] prev"
    using assms(1) by (simp add: tracks_def live_def)
  ultimately have "window_ok (minute - \<delta>) (lim s)
      ([] @ map (\<lambda>x. time_of (fst x)) (filter (\<lambda>(c, r). effect c r \<and> key c = k) (serve_each serve s cs)))"
    using assms(2) by (intro serve_window) auto
  then show ?thesis
    by (simp add: window_ok_def in_window_def filter_map comp_def split_beta conj_assoc cong: filter_cong)
qed

end

section \<open>The limiter of the relay meets the contract\<close>

definition rateLimiter_hist :: "rateLimiter \<Rightarrow> string \<Rightarrow> time list" where
  "rateLimiter_hist l = window_of (attempts l)"

lemma window_of_put:
  "window_of (gm_put k xs m) k' = (if k' = k then xs else window_of m k')"
  by (simp add: window_of_def)

interpretation rl: sliding_window rateLimiter_allow rateLimiter_hist perMin
  by unfold_locales
    (auto simp: rateLimiter_allow_def rateLimiter_hist_def Let_def live_def
      prune_eq_filter window_of_put)

end
