(* ===== verification/Router.thy ===== *)
theory Router
  imports Store Rate_Limit
begin

text \<open>
  \<^verbatim>\<open>server/router.go\<close>: per-user rate limiting, dispatch of client payloads, local delivery
  with the offline queue as fallback, forwarding to other relays, and the flush of a
  mailbox to a freshly connected client.  What a call does to the outside (frames written
  to a connection, requests to another relay) is returned as a list of actions; whether a
  write succeeds is an input.
\<close>

section \<open>Actions\<close>

record httpRequest =
  hr_method :: string
  hr_url :: string
  hr_headers :: "(string \<times> string) list"
  hr_body :: bytes

datatype action = Sent conn bytes | WriteFailed conn bytes | Forward httpRequest | CloseConn conn nat

section \<open>The router\<close>

record Router =
  rt_maxMessageSize :: int
  rt_ratePerMin :: int
  rt_relayID :: string
  rt_rateAttempts :: "(string, time list) gomap"

definition NewRouter :: "int \<Rightarrow> int \<Rightarrow> string \<Rightarrow> Router" where
  "NewRouter maxMessageSize ratePerMin relayID =
     \<lparr>rt_maxMessageSize = maxMessageSize, rt_ratePerMin = ratePerMin, rt_relayID = relayID,
      rt_rateAttempts = []\<rparr>"

text \<open>The caller reads \<open>now\<close> before it gets the mutex.\<close>

definition Router_allow :: "Router \<Rightarrow> string \<Rightarrow> time \<Rightarrow> bool \<times> Router" where
  "Router_allow r userID now =
     (let cutoff = now - minute;
          xs = window_of (rt_rateAttempts r) userID;
          kept = prune cutoff xs
      in if rt_ratePerMin r \<le> int (length kept)
         then (False, r\<lparr>rt_rateAttempts := gm_put userID kept (rt_rateAttempts r)\<rparr>)
         else (True, r\<lparr>rt_rateAttempts := gm_put userID (kept @ [now]) (rt_rateAttempts r)\<rparr>))"

definition marshalQueued :: "queuedMessage \<Rightarrow> goErr + bytes" where
  "marshalQueued m =
     (case qm_Sealed m of
        Some x \<Rightarrow> Inr (marshalSealed x)
      | None \<Rightarrow>
          (case qm_Open m of
             Some x \<Rightarrow> Inr (marshalOpen x)
           | None \<Rightarrow> Inl (ErrMsg ''no envelope'')))"

text \<open>
  The address of a relay: host and port, or the whole string as the host if it does not
  split.
\<close>

definition relayAddr :: "string \<Rightarrow> string \<times> string" where
  "relayAddr d = (case splitHostPort d of Inl e \<Rightarrow> (d, []) | Inr hp \<Rightarrow> hp)"

definition isLocalRelay :: "string \<Rightarrow> string \<Rightarrow> bool" where
  "isLocalRelay domain relayID =
     (case relayAddr domain of (host, port) \<Rightarrow>
      case relayAddr relayID of (relayHost, relayPort) \<Rightarrow>
        if host \<noteq> relayHost then False
        else if port \<noteq> [] \<and> port \<noteq> relayPort then False
        else True)"

text \<open>\<open>ok\<close>: the URL parses, so \<^verbatim>\<open>http.NewRequest\<close> succeeds.  The answer is ignored.\<close>

definition forwardFederated :: "Router \<Rightarrow> bool \<Rightarrow> string \<Rightarrow> SealedEnvelope \<Rightarrow> action list" where
  "forwardFederated r ok domain sealed =
     (if ok
      then [Forward \<lparr>hr_method = ''POST'',
              hr_url = ''http://'' @ domain @ ''/federation/deliver'',
              hr_headers = [(''Content-Type'', ''application/json''),
                            (''X-Spectre-Relay-ID'', rt_relayID r)],
              hr_body = marshalSealed sealed\<rparr>]
      else [])"

record deliverEnv =
  dv_request :: bool
  dv_write :: bool
  dv_enq :: enqEnv

definition deliverLocal :: "crypto \<Rightarrow> sqliteDriver \<Rightarrow> deliverEnv \<Rightarrow> Store \<times> fs \<Rightarrow> string \<Rightarrow> queuedMessage
    \<Rightarrow> action list \<times> Store \<times> fs" where
  "deliverLocal cr drv env w recipientID m =
     (case LookupClient (fst w) recipientID of
        None \<Rightarrow> ([], Enqueue cr drv (dv_enq env) w recipientID m)
      | Some c \<Rightarrow>
          (case marshalQueued m of
             Inl e \<Rightarrow> ([], Enqueue cr drv (dv_enq env) w recipientID m)
           | Inr raw \<Rightarrow>
               if dv_write env then ([Sent c raw], w)
               else ([WriteFailed c raw], Enqueue cr drv (dv_enq env) w recipientID m)))"

definition deliver :: "crypto \<Rightarrow> sqliteDriver \<Rightarrow> deliverEnv \<Rightarrow> Router \<Rightarrow> Store \<times> fs \<Rightarrow> string
    \<Rightarrow> queuedMessage \<Rightarrow> action list \<times> Store \<times> fs" where
  "deliver cr drv env r w recipientID m =
     (case splitN2 CHR ''@'' recipientID of
        [user, domain] \<Rightarrow>
          if \<not> isLocalRelay domain (rt_relayID r)
          then (case qm_Sealed m of
                  None \<Rightarrow> ([], w)
                | Some sealed \<Rightarrow> (forwardFederated r (dv_request env) domain sealed, w))
          else deliverLocal cr drv env w user m
      | _ \<Rightarrow> deliverLocal cr drv env w recipientID m)"

text \<open>The classification of a payload: sealed first, then open, else nothing.\<close>

definition classify :: "bytes \<Rightarrow> (string \<times> queuedMessage) option" where
  "classify payload =
     (case unmarshalSealed payload of (err, sealed) \<Rightarrow>
      if \<not> err \<and> se_RecipientID sealed \<noteq> [] \<and> 0 < length (se_Ciphertext sealed)
      then Some (se_RecipientID sealed, \<lparr>qm_Sealed = Some sealed, qm_Open = None, qm_ExpiresAt = 0\<rparr>)
      else (case unmarshalOpen payload of (err', open_env) \<Rightarrow>
        if \<not> err' \<and> oe_RecipientID open_env \<noteq> [] \<and> 0 < length (oe_Ciphertext open_env)
        then Some (oe_RecipientID open_env, \<lparr>qm_Sealed = None, qm_Open = Some open_env, qm_ExpiresAt = 0\<rparr>)
        else None))"

definition Route :: "crypto \<Rightarrow> sqliteDriver \<Rightarrow> time \<Rightarrow> deliverEnv \<Rightarrow> Router \<Rightarrow> Store \<times> fs \<Rightarrow> string
    \<Rightarrow> bytes \<Rightarrow> action list \<times> Router \<times> Store \<times> fs" where
  "Route cr drv now env r w senderID payload =
     (if rt_maxMessageSize r < int (length payload) then ([], r, w)
      else (case Router_allow r senderID now of
              (False, r') \<Rightarrow> ([], r', w)
            | (True, r') \<Rightarrow>
                (case classify payload of
                   None \<Rightarrow> ([], r', w)
                 | Some (rid, m) \<Rightarrow>
                     (case deliver cr drv env r' w rid m of (acts, w') \<Rightarrow> (acts, r', w')))))"

section \<open>Flushing a mailbox\<close>

text \<open>The leftovers go back in order; \<open>enq j\<close> is the environment of the \<open>j\<close>-th of them.\<close>

fun reenqueue :: "crypto \<Rightarrow> sqliteDriver \<Rightarrow> (nat \<Rightarrow> enqEnv) \<Rightarrow> nat \<Rightarrow> string \<Rightarrow> queuedMessage list
    \<Rightarrow> Store \<times> fs \<Rightarrow> Store \<times> fs" where
  "reenqueue cr drv enq j userID [] w = w"
| "reenqueue cr drv enq j userID (m # ms) w =
     reenqueue cr drv enq (Suc j) userID ms (Enqueue cr drv (enq j) w userID m)"

fun flushLoop :: "crypto \<Rightarrow> sqliteDriver \<Rightarrow> (nat \<Rightarrow> bool) \<Rightarrow> (nat \<Rightarrow> enqEnv) \<Rightarrow> nat \<Rightarrow> string \<Rightarrow> conn
    \<Rightarrow> queuedMessage list \<Rightarrow> Store \<times> fs \<Rightarrow> action list \<times> Store \<times> fs" where
  "flushLoop cr drv wr enq i userID c [] w = ([], w)"
| "flushLoop cr drv wr enq i userID c (m # ms) w =
     (case marshalQueued m of
        Inl e \<Rightarrow> flushLoop cr drv wr enq (Suc i) userID c ms w
      | Inr raw \<Rightarrow>
          if wr i
          then (case flushLoop cr drv wr enq (Suc i) userID c ms w of (acts, w') \<Rightarrow> (Sent c raw # acts, w'))
          else ([WriteFailed c raw], reenqueue cr drv enq 0 userID (m # ms) w))"

record flushEnv =
  fl_drain :: drainEnv
  fl_write :: "nat \<Rightarrow> bool"
  fl_enq :: "nat \<Rightarrow> enqEnv"

definition FlushQueue :: "crypto \<Rightarrow> sqliteDriver \<Rightarrow> flushEnv \<Rightarrow> Store \<times> fs \<Rightarrow> string \<Rightarrow> conn
    \<Rightarrow> action list \<times> Store \<times> fs" where
  "FlushQueue cr drv env w userID c =
     (case DrainQueue cr drv (fl_drain env) w userID of (msgs, w') \<Rightarrow>
        flushLoop cr drv (fl_write env) (fl_enq env) 0 userID c msgs w')"

section \<open>The router's limiter meets the contract\<close>

definition router_hist :: "Router \<Rightarrow> string \<Rightarrow> time list" where
  "router_hist r = window_of (rt_rateAttempts r)"

interpretation ro: sliding_window Router_allow router_hist rt_ratePerMin
  by unfold_locales
    (auto simp: Router_allow_def router_hist_def Let_def live_def prune_eq_filter window_of_put)

lemma Router_allow_frame [frame_simps]:
  "rt_relayID (snd (Router_allow r u now)) = rt_relayID r"
  "rt_maxMessageSize (snd (Router_allow r u now)) = rt_maxMessageSize r"
  by (simp_all add: Router_allow_def Let_def)

text \<open>
  \<open>Route\<close> as a service behind the limiter.  Each call brings the store and the disk it finds,
  so other goroutines may do anything to them between two calls.
\<close>

record routeCall =
  rc_now :: time
  rc_env :: deliverEnv
  rc_world :: "Store \<times> fs"
  rc_sender :: string
  rc_payload :: bytes

definition route_call :: "crypto \<Rightarrow> sqliteDriver \<Rightarrow> Router \<Rightarrow> routeCall \<Rightarrow> (action list \<times> Store \<times> fs) \<times> Router" where
  "route_call cr drv r c =
     (case Route cr drv (rc_now c) (rc_env c) r (rc_world c) (rc_sender c) (rc_payload c) of
        (acts, r', w') \<Rightarrow> ((acts, w'), r'))"

interpretation rs: limited_service Router_allow router_hist rt_ratePerMin "route_call cr drv"
  rc_sender rc_now "\<lambda>c r. fst r \<noteq> [] \<or> snd r \<noteq> rc_world c" for cr drv
  by unfold_locales
    (auto simp: route_call_def Route_def split: prod.splits bool.splits option.splits if_splits)

section \<open>Delivery keeps the store's invariant\<close>

lemma Enqueue_wf_pair: "store_wf (fst w) \<Longrightarrow> store_wf (fst (Enqueue cr drv env w rid m))"
  by (cases w) (simp add: Enqueue_wf)

lemma reenqueue_wf: "store_wf (fst w) \<Longrightarrow> store_wf (fst (reenqueue cr drv enq j u ms w))"
  by (induction ms arbitrary: j w) (simp_all add: Enqueue_wf_pair)

lemma flushLoop_wf: "store_wf (fst w) \<Longrightarrow> store_wf (fst (snd (flushLoop cr drv wr enq i u c ms w)))"
  by (induction ms arbitrary: i) (simp_all add: reenqueue_wf Enqueue_wf_pair split_beta split: sum.split)

lemma deliverLocal_wf: "store_wf (fst w) \<Longrightarrow> store_wf (fst (snd (deliverLocal cr drv env w rid m)))"
  by (simp add: deliverLocal_def Enqueue_wf_pair split: option.split sum.split)

lemma deliver_cases:
  obtains (remote) user domain where "splitN2 CHR ''@'' rid = [user, domain]" "\<not> isLocalRelay domain (rt_relayID r)"
      "deliver cr drv env r w rid m = (case qm_Sealed m of None \<Rightarrow> []
         | Some sealed \<Rightarrow> forwardFederated r (dv_request env) domain sealed, w)"
  | (home) user domain where "splitN2 CHR ''@'' rid = [user, domain]" "isLocalRelay domain (rt_relayID r)"
      "deliver cr drv env r w rid m = deliverLocal cr drv env w user m"
  | (plain) "CHR ''@'' \<notin> set rid" "deliver cr drv env r w rid m = deliverLocal cr drv env w rid m"
proof (cases rule: splitN2_cases [of "CHR ''@''" rid])
  case one
  then show ?thesis by (intro plain) (simp_all add: deliver_def)
next
  case (two user domain)
  then show ?thesis
    by (cases "isLocalRelay domain (rt_relayID r)")
      (auto simp: deliver_def intro: home remote split: option.split)
qed

lemma deliver_wf: "store_wf (fst w) \<Longrightarrow> store_wf (fst (snd (deliver cr drv env r w rid m)))"
  by (cases rule: deliver_cases [of rid r cr drv env w m]) (simp_all add: deliverLocal_wf)

lemma Route_wf: "store_wf (fst w) \<Longrightarrow> store_wf (fst (snd (snd (Route cr drv now env r w u p))))"
  using deliver_wf [of w cr drv env]
  by (auto simp: Route_def split: prod.split bool.split option.split) (metis fst_conv snd_conv)+

end
