(* ===== verification/Auth.thy ===== *)
theory Auth
  imports Disk Envelope Rate_Limit
begin

text \<open>
  \<^verbatim>\<open>server/auth.go\<close>: the per-IP limiter and the challenge/response handshake.  The
  WebSocket is an input (which writes succeed, what the client sends); the result lists
  the messages the client was sent.  Every failure of the source returns the one error
  \<^verbatim>\<open>ErrAuthFailed\<close>: here \<open>None\<close>.
\<close>

section \<open>The limiter\<close>

record authLimiter =
  al_attempts :: "(string, time list) gomap"

definition newAuthLimiter :: authLimiter where
  "newAuthLimiter = \<lparr>al_attempts = []\<rparr>"

definition authMax :: int where
  "authMax = 5"

text \<open>The caller reads \<open>now\<close> before it gets the mutex.\<close>

definition authLimiter_allow :: "authLimiter \<Rightarrow> string \<Rightarrow> time \<Rightarrow> bool \<times> authLimiter" where
  "authLimiter_allow l ip now =
     (let cutoff = now - minute;
          xs = window_of (al_attempts l) ip;
          kept = prune cutoff xs
      in if authMax \<le> int (length kept)
         then (False, l\<lparr>al_attempts := gm_put ip kept (al_attempts l)\<rparr>)
         else (True, l\<lparr>al_attempts := gm_put ip (kept @ [now]) (al_attempts l)\<rparr>))"

definition auth_hist :: "authLimiter \<Rightarrow> string \<Rightarrow> time list" where
  "auth_hist l = window_of (al_attempts l)"

interpretation al: sliding_window authLimiter_allow auth_hist "\<lambda>_. authMax"
  by unfold_locales
    (auto simp: authLimiter_allow_def auth_hist_def Let_def live_def prune_eq_filter window_of_put)

section \<open>The handshake\<close>

definition publicKeySize :: nat where "publicKeySize = 32"

definition signatureSize :: nat where "signatureSize = 64"

record authEnv =
  au_now :: time
  au_rand :: bytes
  au_challenge :: bool
  au_reply :: "bytes option"
  au_result :: bool

definition checkRequest :: "crypto \<Rightarrow> bytes \<Rightarrow> AuthRequest \<Rightarrow> bool" where
  "checkRequest cr nonce req =
     (let pub = fst (b64_decode (ar_IdentityPublicKey req));
          sig = fst (b64_decode (ar_Signature req))
      in if length pub \<noteq> publicKeySize then False
         else if length sig \<noteq> signatureSize then False
         else if \<not> edVerify cr pub nonce sig then False
         else if ar_UserID req = [] then False
         else True)"

definition Authenticate :: "crypto \<Rightarrow> authEnv \<Rightarrow> authLimiter \<Rightarrow> string
    \<Rightarrow> string option \<times> bytes list \<times> authLimiter" where
  "Authenticate cr env l remoteIP =
     (case authLimiter_allow l remoteIP (au_now env) of
        (False, l') \<Rightarrow> (None, [], l')
      | (True, l') \<Rightarrow>
          if length (au_rand env) < 32 then (None, [], l')
          else
            let nonce = take 32 (au_rand env) in
            if \<not> au_challenge env then (None, [], l')
            else (case au_reply env of
               None \<Rightarrow> (None, [marshalChallenge nonce], l')
             | Some data \<Rightarrow>
                 (case unmarshalAuthRequest data of
                    (True, _) \<Rightarrow> (None, [marshalChallenge nonce], l')
                  | (False, req) \<Rightarrow>
                      if \<not> checkRequest cr nonce req then (None, [marshalChallenge nonce], l')
                      else if \<not> au_result env then (None, [marshalChallenge nonce], l')
                      else (Some (ar_UserID req),
                            [marshalChallenge nonce, marshalAuthResponse True []], l'))))"

definition ExtractIP :: "string \<Rightarrow> string" where
  "ExtractIP remoteAddr =
     (case splitHostPort remoteAddr of Inl e \<Rightarrow> remoteAddr | Inr (host, port) \<Rightarrow> host)"

text \<open>
  The handshake as a service behind the limiter.  A call is the remote address of a
  connection and its environment.
\<close>

definition handshake_from :: "crypto \<Rightarrow> authLimiter \<Rightarrow> string \<times> authEnv \<Rightarrow> (string option \<times> bytes list) \<times> authLimiter" where
  "handshake_from cr l call =
     (case Authenticate cr (snd call) l (ExtractIP (fst call)) of (result, sent, l') \<Rightarrow> ((result, sent), l'))"

interpretation as: limited_service authLimiter_allow auth_hist "\<lambda>_. authMax" "handshake_from cr"
  "\<lambda>c. ExtractIP (fst c)" "\<lambda>c. au_now (snd c)" "\<lambda>c r. fst r \<noteq> None \<or> snd r \<noteq> []" for cr
  by unfold_locales
    (auto simp: handshake_from_def Authenticate_def Let_def split: prod.splits bool.splits option.splits if_splits)

section \<open>Round trip of the request\<close>

definition request_wf :: "AuthRequest \<Rightarrow> bool" where
  "request_wf q \<longleftrightarrow> valid_utf8 (ar_UserID q) \<and> valid_utf8 (ar_IdentityPublicKey q) \<and> valid_utf8 (ar_Signature q)"

lemma unmarshal_marshalAuthRequest:
  assumes "request_wf q"
  shows "unmarshalAuthRequest (marshalAuthRequest q) = (False, q)"
proof -
  let ?v = "JObj [(''user_id'', JStr (ar_UserID q)),
      (''identity_public_key'', JStr (ar_IdentityPublicKey q)), (''signature'', JStr (ar_Signature q))]"
  have "jfits (Suc n) ?v" for n using assms by (simp add: request_wf_def)
  then have "unmarshalAuthRequest (marshalAuthRequest q)
      = decStruct setAuthRequest [''user_id'', ''identity_public_key'', ''signature''] ?v zeroAuthRequest"
    unfolding unmarshalAuthRequest_def marshalAuthRequest_def by (intro unmarshal_fits) simp
  then show ?thesis by (simp add: decode_simps setAuthRequest_def zeroAuthRequest_def)
qed

text \<open>The request of a client that holds a private key \<open>seed @ edPublic cr seed\<close>.\<close>

definition honest_request :: "crypto \<Rightarrow> bytes \<Rightarrow> string \<Rightarrow> bytes \<Rightarrow> AuthRequest" where
  "honest_request cr seed uid nonce =
     \<lparr>ar_UserID = uid, ar_IdentityPublicKey = b64_encode (edPublic cr seed),
      ar_Signature = b64_encode (edSign cr (seed @ edPublic cr seed) nonce)\<rparr>"

lemma checkRequest_honest:
  assumes "ed25519_correct cr" "length seed = 32" "uid \<noteq> []"
  shows "checkRequest cr nonce (honest_request cr seed uid nonce)"
  using assms by (simp add: checkRequest_def honest_request_def b64_decode_encode publicKeySize_def
      signatureSize_def ed25519_correct_def Let_def)

lemma Authenticate_reply:
  assumes "fst (authLimiter_allow l ip (au_now env))" "32 \<le> length (au_rand env)" "au_challenge env" "au_result env"
    and "au_reply env = Some (marshalAuthRequest q)" "request_wf q"
    and "checkRequest cr (take 32 (au_rand env)) q"
  shows "fst (Authenticate cr env l ip) = Some (ar_UserID q)"
  using assms
  by (cases "authLimiter_allow l ip (au_now env)")
    (auto simp: Authenticate_def unmarshal_marshalAuthRequest Let_def)

section \<open>Properties\<close>

text \<open>
  C13: Soundness of the handshake.  If a user id comes out, then the address was within
  its budget, the client sent a request with that non-empty user id whose decoded key and
  signature have the right lengths, and the signature verifies under that key over the
  fresh 32-byte nonce; the client got the challenge and the success message and nothing else.
\<close>

theorem handshake_sound:
  assumes "Authenticate cr env l ip = (Some uid, sent, l')"
  shows "\<exists>data req. au_reply env = Some data \<and> unmarshalAuthRequest data = (False, req)
    \<and> uid = ar_UserID req \<and> uid \<noteq> []
    \<and> length (fst (b64_decode (ar_IdentityPublicKey req))) = 32
    \<and> length (fst (b64_decode (ar_Signature req))) = 64
    \<and> edVerify cr (fst (b64_decode (ar_IdentityPublicKey req))) (take 32 (au_rand env))
        (fst (b64_decode (ar_Signature req)))
    \<and> fst (authLimiter_allow l ip (au_now env))
    \<and> sent = [marshalChallenge (take 32 (au_rand env)), marshalAuthResponse True []]"
proof -
  from assms obtain data req where 1: "fst (authLimiter_allow l ip (au_now env))" "au_reply env = Some data"
    "unmarshalAuthRequest data = (False, req)" "checkRequest cr (take 32 (au_rand env)) req"
    "uid = ar_UserID req" "sent = [marshalChallenge (take 32 (au_rand env)), marshalAuthResponse True []]"
    by (auto simp: Authenticate_def Let_def split: prod.splits bool.splits if_splits option.splits)
  from 1(4) have "ar_UserID req \<noteq> []" "length (fst (b64_decode (ar_IdentityPublicKey req))) = 32"
    "length (fst (b64_decode (ar_Signature req))) = 64"
    "edVerify cr (fst (b64_decode (ar_IdentityPublicKey req))) (take 32 (au_rand env))
       (fst (b64_decode (ar_Signature req)))"
    by (simp_all add: checkRequest_def publicKeySize_def signatureSize_def Let_def split: if_splits)
  with 1 show ?thesis by blast
qed

text \<open>
  C30: Completeness of the handshake.  A client that holds a private key, signs the nonce
  it was sent and is within the budget of its address is authenticated under its user id.
\<close>

theorem handshake_complete:
  assumes "ed25519_correct cr" "length seed = 32" "uid \<noteq> []" "valid_utf8 uid"
    and "fst (authLimiter_allow l ip (au_now env))" "32 \<le> length (au_rand env)" "au_challenge env" "au_result env"
    and "au_reply env = Some (marshalAuthRequest (honest_request cr seed uid (take 32 (au_rand env))))"
  shows "fst (Authenticate cr env l ip) = Some uid"
proof -
  have "request_wf (honest_request cr seed uid (take 32 (au_rand env)))"
    using assms(4) by (simp add: request_wf_def honest_request_def)
  from Authenticate_reply [OF assms(5-9) this checkRequest_honest [OF assms(1-3)]]
  show ?thesis by (simp add: honest_request_def)
qed

text \<open>
  Failures are uniform.  A client whose handshake fails has been sent at most the
  challenge, whichever of the checks failed; and the challenge does not depend on what it sent.
\<close>

theorem failures_look_alike:
  assumes "Authenticate cr env l ip = (None, sent, l')"
  shows "sent = [] \<or> sent = [marshalChallenge (take 32 (au_rand env))]"
  using assms by (auto simp: Authenticate_def Let_def split: prod.splits bool.splits if_splits option.splits)

text \<open>
  C35: Brute force is bounded: in any window of a minute less \<open>\<delta>\<close>, at most 5 connections from
  one address, whatever their ports, are sent a challenge at all, let alone authenticated,
  other addresses notwithstanding.  The calls are in the order in which the limiter decides
  them; none is decided after one that read the clock more than \<open>\<delta>\<close> later.
\<close>

theorem challenges_bounded:
  assumes "0 \<le> \<delta>" "skewed \<delta> (map (\<lambda>c. au_now (snd c)) calls)"
  shows "length (filter (\<lambda>(c, result, sent). (result \<noteq> None \<or> sent \<noteq> []) \<and> ExtractIP (fst c) = ip
      \<and> T - (minute - \<delta>) < au_now (snd c) \<and> au_now (snd c) \<le> T)
    (serve_each (handshake_from cr) newAuthLimiter calls)) \<le> 5"
proof -
  have "auth_hist newAuthLimiter ip = []" by (simp add: auth_hist_def newAuthLimiter_def window_of_def)
  from as.serve_budget [OF this assms, of T cr] show ?thesis
    by (simp add: authMax_def case_prod_unfold)
qed

text \<open>
  Malformed base64 does not always fail closed: a key and a signature followed by
  garbage are not valid base64, yet the handshake succeeds, because decoding errors are
  ignored and the bytes before the garbage have the right length.
\<close>

theorem garbage_after_key_accepted:
  assumes "ed25519_correct cr" "length seed = 32" "uid \<noteq> []" "valid_utf8 uid"
    and "fst (authLimiter_allow l ip (au_now env))" "32 \<le> length (au_rand env)" "au_challenge env" "au_result env"
    and "req = honest_request cr seed uid (take 32 (au_rand env))"
    and "au_reply env = Some (marshalAuthRequest (req\<lparr>ar_IdentityPublicKey := ar_IdentityPublicKey req @ ''!'',
           ar_Signature := ar_Signature req @ ''!''\<rparr>))"
  shows "snd (b64_decode (ar_IdentityPublicKey req @ ''!'')) \<and> fst (Authenticate cr env l ip) = Some uid"
proof -
  let ?q = "req\<lparr>ar_IdentityPublicKey := ar_IdentityPublicKey req @ ''!'', ar_Signature := ar_Signature req @ ''!''\<rparr>"
  let ?n = "take 32 (au_rand env)"
  from assms(1,2) have ed: "length (edPublic cr seed) = 32"
    "length (edSign cr (seed @ edPublic cr seed) m) = 64" for m
    by (simp_all add: ed25519_correct_def)
  have g: "\<not> is_nl CHR ''!''" by (simp add: is_nl_def code_def)
  have dec: "b64_decode (b64_encode (edPublic cr seed) @ ''!'') = (edPublic cr seed, True)"
    "b64_decode (b64_encode (edSign cr (seed @ edPublic cr seed) ?n) @ ''!'') = (edSign cr (seed @ edPublic cr seed) ?n, True)"
    using b64_decode_garbage [OF _ g, of _ "[]"] ed by simp_all
  have "checkRequest cr ?n ?q"
    using checkRequest_honest [OF assms(1-3), of ?n] assms(9)
    by (auto simp: checkRequest_def honest_request_def dec b64_decode_encode Let_def split: if_splits)
  moreover have "valid_utf8 (b64_encode b @ ''!'')" for b
  proof (rule valid_utf8_ascii)
    show "\<forall>c \<in> set (b64_encode b @ ''!''). code c < 128"
      using b64_encode_plain [of b] plain_ascii by (auto simp: code_def)
  qed
  then have "request_wf ?q" using assms(4,9) by (simp add: request_wf_def honest_request_def)
  ultimately show ?thesis
    using Authenticate_reply [OF assms(5-8,10)] assms(9) dec by (simp add: honest_request_def)
qed

text \<open>
  The address handed to the limiter is the host part: for a host and a port without
  colons and brackets the port is cut off, so reconnecting from another port does not
  give a fresh budget.
\<close>

theorem limiter_key_is_host:
  assumes "plain_part h" "plain_part p"
  shows "ExtractIP (h @ CHR '':'' # p) = h"
  using assms by (simp add: ExtractIP_def splitHostPort_plain)

section \<open>A concrete handshake\<close>

definition demo_seed :: bytes where
  "demo_seed = replicate 32 CHR ''s''"

definition demo_nonce :: bytes where
  "demo_nonce = replicate 32 CHR ''n''"

definition demo_auth :: "AuthRequest \<Rightarrow> authEnv" where
  "demo_auth q = \<lparr>au_now = 0, au_rand = demo_nonce, au_challenge = True,
     au_reply = Some (marshalAuthRequest q), au_result = True\<rparr>"

lemma demo_auth_simps [simp]:
  "au_now (demo_auth q) = 0" "take 32 (au_rand (demo_auth q)) = demo_nonce" "length (au_rand (demo_auth q)) = 32"
  "au_challenge (demo_auth q)" "au_reply (demo_auth q) = Some (marshalAuthRequest q)" "au_result (demo_auth q)"
  "length demo_seed = 32"
  by (simp_all add: demo_auth_def demo_nonce_def demo_seed_def)

lemma demo_auth_allowed: "fst (authLimiter_allow newAuthLimiter ip t)"
  by (rule al.resets) (simp_all add: authMax_def auth_hist_def newAuthLimiter_def window_of_def)

lemma alice_utf8: "valid_utf8 ''alice''"
  by (rule valid_utf8_key) (simp add: code_def)

theorem handshake_complete_witness:
  "fst (Authenticate plainCrypto (demo_auth (honest_request plainCrypto demo_seed ''alice'' demo_nonce)) newAuthLimiter ''ip'')
     = Some ''alice''"
  by (rule handshake_complete [OF plainCrypto_ed, where seed = demo_seed]) (simp_all add: alice_utf8 demo_auth_allowed)

theorem handshake_sound_witness:
  "\<exists>data req. au_reply (demo_auth (honest_request plainCrypto demo_seed ''alice'' demo_nonce)) = Some data
    \<and> unmarshalAuthRequest data = (False, req) \<and> ''alice'' = ar_UserID req \<and> ''alice'' \<noteq> []
    \<and> edVerify plainCrypto (fst (b64_decode (ar_IdentityPublicKey req))) demo_nonce
        (fst (b64_decode (ar_Signature req)))"
proof -
  let ?q = "honest_request plainCrypto demo_seed ''alice'' demo_nonce"
  let ?r = "Authenticate plainCrypto (demo_auth ?q) newAuthLimiter ''ip''"
  have "request_wf ?q" using alice_utf8 by (simp add: request_wf_def honest_request_def)
  moreover have "checkRequest plainCrypto demo_nonce ?q"
    by (rule checkRequest_honest [OF plainCrypto_ed]) simp_all
  ultimately have "fst ?r = Some (ar_UserID ?q)" by (intro Authenticate_reply) (simp_all add: demo_auth_allowed)
  then have "?r = (Some ''alice'', fst (snd ?r), snd (snd ?r))" by (simp add: honest_request_def prod_eq_iff)
  from handshake_sound [OF this] show ?thesis by auto
qed

theorem failures_look_alike_witness:
  "let r = Authenticate plainCrypto (demo_auth zeroAuthRequest) newAuthLimiter ''ip'' in
   fst (snd r) = [] \<or> fst (snd r) = [marshalChallenge demo_nonce]"
proof -
  let ?r = "Authenticate plainCrypto (demo_auth zeroAuthRequest) newAuthLimiter ''ip''"
  have "request_wf zeroAuthRequest" by (simp add: request_wf_def zeroAuthRequest_def)
  then have "fst ?r = None"
    using demo_auth_allowed [of "''ip''" 0]
    by (cases "authLimiter_allow newAuthLimiter ''ip'' 0")
      (simp add: Authenticate_def unmarshal_marshalAuthRequest checkRequest_def zeroAuthRequest_def publicKeySize_def Let_def)
  then have "?r = (None, fst (snd ?r), snd (snd ?r))" by (simp add: prod_eq_iff)
  from failures_look_alike [OF this] show ?thesis by (simp add: Let_def)
qed

theorem challenges_bounded_witness:
  "length (filter (\<lambda>(c, result, sent). (result \<noteq> None \<or> sent \<noteq> []) \<and> ExtractIP (fst c) = ''10.0.0.1''
      \<and> 9 - (minute - 2) < au_now (snd c) \<and> au_now (snd c) \<le> 9)
    (serve_each (handshake_from plainCrypto) newAuthLimiter
      (map (\<lambda>t. (''10.0.0.1:80'', (demo_auth zeroAuthRequest)\<lparr>au_now := t\<rparr>)) [3, 1, 2, 4, 6, 5, 7]))) \<le> 5"
  by (rule challenges_bounded) simp_all

theorem garbage_after_key_accepted_witness:
  "let req = honest_request plainCrypto demo_seed ''alice'' demo_nonce;
       env = demo_auth (req\<lparr>ar_IdentityPublicKey := ar_IdentityPublicKey req @ ''!'', ar_Signature := ar_Signature req @ ''!''\<rparr>)
   in snd (b64_decode (ar_IdentityPublicKey req @ ''!'')) \<and> fst (Authenticate plainCrypto env newAuthLimiter ''ip'') = Some ''alice''"
  unfolding Let_def
  by (rule garbage_after_key_accepted [OF plainCrypto_ed, where seed = demo_seed])
    (simp_all add: alice_utf8 demo_auth_allowed)

theorem limiter_key_is_host_witness: "ExtractIP (''10.0.0.1'' @ CHR '':'' # ''5000'') = ''10.0.0.1''"
  by (rule limiter_key_is_host) (simp_all add: plain_part_def)

end
