(* ===== verification/Config.thy ===== *)
theory Config
  imports Go_Std
begin

text \<open>
  \<^verbatim>\<open>config/config.go\<close>: the configuration read from environment variables.  \<open>env k\<close> is
  \<^verbatim>\<open>os.Getenv(k)\<close>, the empty string for an unset variable; \<^verbatim>\<open>int\<close> is 64 bits wide.
\<close>

record Config =
  ListenAddr :: string
  TLSCertFile :: string
  TLSKeyFile :: string
  MaxClients :: int
  MessageTTLSeconds :: int
  MaxMessageSize :: int
  RateLimitPerMin :: int
  OfflineQueuePath :: string
  PrekeyStorePath :: string
  SealedCAPath :: string
  DevMode :: bool
  RelayID :: string
  FederationAddr :: string

definition getEnv :: "(string \<Rightarrow> string) \<Rightarrow> string \<Rightarrow> string \<Rightarrow> string" where
  "getEnv env k def = (let v = env k in if v \<noteq> [] then v else def)"

definition getEnvInt :: "(string \<Rightarrow> string) \<Rightarrow> string \<Rightarrow> int \<Rightarrow> int" where
  "getEnvInt env k def =
     (let v = env k in
      if v = [] then def
      else (case parseInt v of None \<Rightarrow> def | Some n \<Rightarrow> n))"

datatype configErr = TLSRequired | NotPositive

definition Load :: "(string \<Rightarrow> string) \<Rightarrow> configErr + Config" where
  "Load env =
     (let cfg = \<lparr>
        ListenAddr = getEnv env ''SPECTRE_LISTEN_ADDR'' '':443'',
        TLSCertFile = env ''SPECTRE_TLS_CERT'',
        TLSKeyFile = env ''SPECTRE_TLS_KEY'',
        MaxClients = getEnvInt env ''SPECTRE_MAX_CLIENTS'' 10000,
        MessageTTLSeconds = getEnvInt env ''SPECTRE_MESSAGE_TTL'' 604800,
        MaxMessageSize = getEnvInt env ''SPECTRE_MAX_MESSAGE_SIZE'' 65536,
        RateLimitPerMin = getEnvInt env ''SPECTRE_RATE_LIMIT_PER_MIN'' 60,
        OfflineQueuePath = getEnv env ''SPECTRE_QUEUE_PATH'' ''/data/offline_queue.enc'',
        PrekeyStorePath = getEnv env ''SPECTRE_PREKEY_PATH'' ''/data/prekeys.enc'',
        SealedCAPath = getEnv env ''SPECTRE_SEALED_CA_PATH'' ''/data/sealed_ca.key'',
        DevMode = (env ''SPECTRE_DEV'' = ''true''),
        RelayID = getEnv env ''RELAY_ID'' [],
        FederationAddr = getEnv env ''FEDERATION_ADDR'' []\<rparr>
      in if \<not> DevMode cfg \<and> (TLSCertFile cfg = [] \<or> TLSKeyFile cfg = []) then Inl TLSRequired
         else if MaxClients cfg \<le> 0 \<or> MaxMessageSize cfg \<le> 0 \<or> RateLimitPerMin cfg \<le> 0
                 \<or> MessageTTLSeconds cfg \<le> 0
         then Inl NotPositive
         else Inr cfg)"

definition formatBool :: "bool \<Rightarrow> string" where
  "formatBool b = (if b then ''true'' else ''false'')"

definition SafeSummary :: "Config \<Rightarrow> string" where
  "SafeSummary c =
     ''listen='' @ ListenAddr c @ '' max_clients='' @ formatInt (MaxClients c) @
     '' msg_ttl_s='' @ formatInt (MessageTTLSeconds c) @
     '' max_msg_size='' @ formatInt (MaxMessageSize c) @
     '' rate_limit_per_min='' @ formatInt (RateLimitPerMin c) @
     '' dev='' @ formatBool (DevMode c) @ '' relay_id='' @ RelayID c @
     '' fed_addr='' @ FederationAddr c"

section \<open>Properties\<close>

text \<open>
  Fail closed.  If loading the configuration succeeds, then either development mode
  was asked for explicitly or both TLS files are named; and all four limits are positive.
\<close>

theorem load_fails_closed:
  assumes "Load env = Inr cfg"
  shows "(env ''SPECTRE_DEV'' = ''true'' \<or> TLSCertFile cfg \<noteq> [] \<and> TLSKeyFile cfg \<noteq> [])
    \<and> 0 < MaxClients cfg \<and> 0 < MaxMessageSize cfg \<and> 0 < RateLimitPerMin cfg \<and> 0 < MessageTTLSeconds cfg"
  using assms unfolding Load_def Let_def by (auto split: if_splits)

text \<open>
  A numeric setting that is set to the decimal form of a 64-bit integer is taken as
  such, one that is unset or unreadable takes its default.
\<close>

theorem numeric_setting:
  assumes "int64_ok n" "parseInt v = None"
  shows "getEnvInt (env(k := formatInt n)) k def = n \<and> getEnvInt (env(k := [])) k def = def
    \<and> getEnvInt (env(k := v)) k def = def"
proof -
  have "formatInt n \<noteq> []" using nat_digits_props by (simp add: formatInt_def)
  with assms show ?thesis by (simp add: getEnvInt_def parseInt_formatInt Let_def)
qed

text \<open>
  The start-up summary depends on no path: two configurations that differ only in
  the TLS files and the three storage paths print the same line.
\<close>

theorem summary_hides_paths:
  "SafeSummary (c\<lparr>TLSCertFile := a, TLSKeyFile := b, OfflineQueuePath := q, PrekeyStorePath := p,
     SealedCAPath := s\<rparr>) = SafeSummary c"
  by (simp add: SafeSummary_def)

definition demo_env :: "string \<Rightarrow> string" where
  "demo_env = (\<lambda>_. [])(''SPECTRE_TLS_CERT'' := ''c.pem'', ''SPECTRE_TLS_KEY'' := ''k.pem'')"

theorem load_fails_closed_witness:
  "\<exists>cfg. Load demo_env = Inr cfg
    \<and> (demo_env ''SPECTRE_DEV'' = ''true'' \<or> TLSCertFile cfg \<noteq> [] \<and> TLSKeyFile cfg \<noteq> [])
    \<and> 0 < MaxClients cfg \<and> 0 < MaxMessageSize cfg \<and> 0 < RateLimitPerMin cfg \<and> 0 < MessageTTLSeconds cfg"
proof -
  obtain cfg where "Load demo_env = Inr cfg"
    by (simp add: Load_def demo_env_def getEnv_def getEnvInt_def Let_def)
  with load_fails_closed [OF this] show ?thesis by blast
qed

theorem numeric_setting_witness:
  "getEnvInt (demo_env(''N'' := formatInt 42)) ''N'' 7 = 42 \<and> getEnvInt (demo_env(''N'' := [])) ''N'' 7 = 7
    \<and> getEnvInt (demo_env(''N'' := ''many'')) ''N'' 7 = 7"
proof -
  have "parseInt ''many'' = None" by (simp add: parseInt_def is_digit_def code_def Let_def)
  then show ?thesis by (intro numeric_setting) (simp_all add: int64_ok_def)
qed

end
