(* ===== verification/Sealed_CA.thy ===== *)
theory Sealed_CA
  imports Disk Envelope
begin

text \<open>
  \<^verbatim>\<open>server/sealed_ca.go\<close>: the signing authority for sealed-sender certificates, its key
  file, the rotation proof and the certificates themselves.  Ed25519 is the parameter
  \<open>crypto\<close> of theory \<open>Disk\<close>; \<^verbatim>\<open>ed25519.GenerateKey\<close> reads a 32-byte seed and
  returns the seed followed by its public key.
\<close>

section \<open>The authority\<close>

record SealedCA =
  ca_priv :: bytes
  ca_pub :: bytes
  ca_prevPub :: "bytes option"
  ca_rotationSig :: bytes

definition privateKeySize :: nat where
  "privateKeySize = 64"

text \<open>\<^verbatim>\<open>PrivateKey.Public()\<close>: the upper half of the private key.\<close>

definition keyPublic :: "bytes \<Rightarrow> bytes" where
  "keyPublic priv = drop 32 priv"

record caEnv =
  ce_read :: "goErr option"
  ce_seed :: bytes
  ce_mkdir :: "goErr option"
  ce_write :: writeOutcome
  ce_prev :: "goErr option"

definition readPrevKey :: "goErr option \<Rightarrow> fs \<Rightarrow> string \<Rightarrow> bytes option" where
  "readPrevKey fault disk path =
     (case readFile disk fault (path @ ''.prev'') of
        Inl e \<Rightarrow> None
      | Inr data \<Rightarrow> if length data \<noteq> privateKeySize then None else Some data)"

text \<open>The block both branches of \<^verbatim>\<open>NewSealedCA\<close> end with.\<close>

definition withRotation :: "crypto \<Rightarrow> bytes option \<Rightarrow> SealedCA \<Rightarrow> SealedCA" where
  "withRotation cr prev ca =
     (case prev of
        None \<Rightarrow> ca
      | Some prevPriv \<Rightarrow>
          ca\<lparr>ca_prevPub := Some (keyPublic prevPriv),
             ca_rotationSig := edSign cr prevPriv (ca_pub ca)\<rparr>)"

definition generateKey :: "crypto \<Rightarrow> bytes \<Rightarrow> goErr + (bytes \<times> bytes)" where
  "generateKey cr rnd =
     (if length rnd < 32 then Inl ErrIO
      else let seed = take 32 rnd; pub = edPublic cr seed in Inr (pub, seed @ pub))"

definition NewSealedCA :: "crypto \<Rightarrow> caEnv \<Rightarrow> fs \<Rightarrow> string \<Rightarrow> (goErr + SealedCA) \<times> fs" where
  "NewSealedCA cr env disk path =
     (case readFile disk (ce_read env) path of
        Inr data \<Rightarrow>
          if length data \<noteq> privateKeySize
          then (Inl (ErrMsg ''invalid sealed-ca key length''), disk)
          else (Inr (withRotation cr (readPrevKey (ce_prev env) disk path)
                  \<lparr>ca_priv = data, ca_pub = keyPublic data, ca_prevPub = None, ca_rotationSig = []\<rparr>),
                disk)
      | Inl e \<Rightarrow>
          if e \<noteq> ErrNotExist then (Inl e, disk)
          else (case generateKey cr (ce_seed env) of
             Inl e' \<Rightarrow> (Inl e', disk)
           | Inr (pub, priv) \<Rightarrow>
               (case ce_mkdir env of
                  Some e' \<Rightarrow> (Inl e', disk)
                | None \<Rightarrow>
                    (case writeFile disk (ce_write env) path priv mode0600 of
                       (Some e', disk') \<Rightarrow> (Inl e', disk')
                     | (None, disk') \<Rightarrow>
                         (Inr (withRotation cr (readPrevKey (ce_prev env) disk' path)
                            \<lparr>ca_priv = priv, ca_pub = pub, ca_prevPub = None, ca_rotationSig = []\<rparr>),
                          disk')))))"

definition PublicKeyB64 :: "SealedCA \<Rightarrow> string" where
  "PublicKeyB64 ca = b64_encode (ca_pub ca)"

definition RotationProofB64 :: "SealedCA \<Rightarrow> string \<times> string" where
  "RotationProofB64 ca =
     (case ca_prevPub ca of
        None \<Rightarrow> ([], [])
      | Some prev \<Rightarrow>
          if ca_rotationSig ca = [] then ([], [])
          else (b64_encode prev, b64_encode (ca_rotationSig ca)))"

section \<open>Certificates\<close>

record senderCert =
  sc_Iss :: string
  sc_UID :: string
  sc_IK :: string
  sc_Exp :: int

definition jsonCert :: "senderCert \<Rightarrow> json" where
  "jsonCert c = JObj
     [(''iss'', JStr (sc_Iss c)), (''uid'', JStr (sc_UID c)), (''ik'', JStr (sc_IK c)),
      (''exp'', JNum (formatInt (sc_Exp c)))]"

definition marshalCert :: "senderCert \<Rightarrow> bytes" where
  "marshalCert c = jprint (jsonCert c)"

definition defaultCertTTL :: duration where
  "defaultCertTTL = 24 * 3600 * 1000000000"

definition IssueCert :: "crypto \<Rightarrow> SealedCA \<Rightarrow> string \<Rightarrow> string \<Rightarrow> string \<Rightarrow> time \<Rightarrow> bytes \<times> bytes" where
  "IssueCert cr ca uid identityKeyB64 issuer now =
     (let cert = marshalCert \<lparr>sc_Iss = issuer, sc_UID = uid, sc_IK = identityKeyB64,
                   sc_Exp = unixMilli (time_add now defaultCertTTL)\<rparr>
      in (cert, edSign cr (ca_priv ca) cert))"

section \<open>Reading a certificate\<close>

text \<open>The decoder a client applies to the signed bytes: the struct read back.\<close>

definition zeroCert :: senderCert where
  "zeroCert = \<lparr>sc_Iss = [], sc_UID = [], sc_IK = [], sc_Exp = 0\<rparr>"

definition setCert :: "string \<Rightarrow> json \<Rightarrow> senderCert \<Rightarrow> bool \<times> senderCert" where
  "setCert f v x =
     (if f = ''iss'' then apsnd (\<lambda>s. x\<lparr>sc_Iss := s\<rparr>) (decString v (sc_Iss x))
      else if f = ''uid'' then apsnd (\<lambda>s. x\<lparr>sc_UID := s\<rparr>) (decString v (sc_UID x))
      else if f = ''ik'' then apsnd (\<lambda>s. x\<lparr>sc_IK := s\<rparr>) (decString v (sc_IK x))
      else if f = ''exp'' then apsnd (\<lambda>n. x\<lparr>sc_Exp := n\<rparr>) (decInt64 v (sc_Exp x))
      else (False, x))"

definition unmarshalCert :: "bytes \<Rightarrow> bool \<times> senderCert" where
  "unmarshalCert = unmarshal (decStruct setCert [''iss'', ''uid'', ''ik'', ''exp'']) zeroCert"

definition cert_wf :: "senderCert \<Rightarrow> bool" where
  "cert_wf c \<longleftrightarrow> valid_utf8 (sc_Iss c) \<and> valid_utf8 (sc_UID c) \<and> valid_utf8 (sc_IK c)
     \<and> int64_ok (sc_Exp c)"

lemma cert_keys_utf8 [simp]:
  "valid_utf8 ''iss''" "valid_utf8 ''uid''" "valid_utf8 ''ik''" "valid_utf8 ''exp''"
  by (rule valid_utf8_key, simp add: code_def)+

lemma unmarshal_marshalCert:
  assumes "cert_wf c"
  shows "unmarshalCert (marshalCert c) = (False, c)"
proof -
  have "jfits (Suc n) (jsonCert c)" for n
    using assms by (simp add: jsonCert_def cert_wf_def formatInt_number)
  then have "unmarshalCert (marshalCert c)
      = decStruct setCert [''iss'', ''uid'', ''ik'', ''exp''] (jsonCert c) zeroCert"
    unfolding unmarshalCert_def marshalCert_def by (intro unmarshal_fits) simp
  with assms show ?thesis
    by (simp add: jsonCert_def cert_wf_def decode_simps setCert_def zeroCert_def)
qed

lemma sint_certTTL: "sint defaultCertTTL = 86400 * 1000000000"
  by (simp add: defaultCertTTL_def)

lemma cert_lifetime: "unixMilli (time_add now defaultCertTTL) = unixMilli now + 86400000"
  by (simp add: unixMilli_def time_add_def sint_certTTL)

section \<open>Well-formed keys\<close>

text \<open>A private key as \<^verbatim>\<open>GenerateKey\<close> makes them.\<close>

definition genuine :: "crypto \<Rightarrow> bytes \<Rightarrow> bool" where
  "genuine cr priv \<longleftrightarrow> length priv = 64 \<and> drop 32 priv = edPublic cr (take 32 priv)"

lemma genuine_split: "genuine cr priv \<Longrightarrow> priv = take 32 priv @ edPublic cr (take 32 priv)"
  by (metis append_take_drop_id genuine_def)

lemma genuine_signs:
  assumes "ed25519_correct cr" "genuine cr priv"
  shows "edVerify cr (keyPublic priv) m (edSign cr priv m)" "edSign cr priv m \<noteq> []"
proof -
  let ?seed = "take 32 priv"
  have "length ?seed = 32" "keyPublic priv = edPublic cr ?seed"
    using assms(2) by (simp_all add: genuine_def keyPublic_def)
  with assms genuine_split [OF assms(2)]
  have "edVerify cr (keyPublic priv) m (edSign cr priv m) \<and> length (edSign cr priv m) = 64"
    unfolding ed25519_correct_def by metis
  then show "edVerify cr (keyPublic priv) m (edSign cr priv m)" "edSign cr priv m \<noteq> []"
    by auto
qed

lemma generateKey_genuine:
  assumes "ed25519_correct cr" "generateKey cr rnd = Inr (pub, priv)"
  shows "genuine cr priv" "pub = keyPublic priv"
  using assms by (auto simp: generateKey_def genuine_def keyPublic_def ed25519_correct_def Let_def
      split: if_splits)

definition key_file_ok :: "crypto \<Rightarrow> fs \<Rightarrow> string \<Rightarrow> bool" where
  "key_file_ok cr disk path \<longleftrightarrow> (\<forall>f. disk path = Some f \<longrightarrow> genuine cr (fdata f))"

lemma withRotation_key [simp]:
  "ca_priv (withRotation cr prev ca) = ca_priv ca" "ca_pub (withRotation cr prev ca) = ca_pub ca"
  by (simp_all add: withRotation_def split: option.split)

text \<open>The cases in which start-up succeeds.\<close>

lemma NewSealedCA_cases:
  assumes "NewSealedCA cr env disk path = (Inr ca, disk')"
  obtains
    (loaded) data where "readFile disk (ce_read env) path = Inr data" "length data = 64" "disk' = disk"
      "ca = withRotation cr (readPrevKey (ce_prev env) disk path)
              \<lparr>ca_priv = data, ca_pub = keyPublic data, ca_prevPub = None, ca_rotationSig = []\<rparr>"
  | (minted) pub priv where "readFile disk (ce_read env) path = Inl ErrNotExist"
      "generateKey cr (ce_seed env) = Inr (pub, priv)"
      "writeFile disk (ce_write env) path priv mode0600 = (None, disk')"
      "ca = withRotation cr (readPrevKey (ce_prev env) disk' path)
              \<lparr>ca_priv = priv, ca_pub = pub, ca_prevPub = None, ca_rotationSig = []\<rparr>"
  using assms
  by (auto simp: NewSealedCA_def privateKeySize_def split: sum.splits if_splits option.splits prod.splits)

lemma NewSealedCA_genuine:
  assumes "NewSealedCA cr env disk path = (Inr ca, disk')" "ed25519_correct cr"
    and "key_file_ok cr disk path"
  shows "genuine cr (ca_priv ca) \<and> ca_pub ca = keyPublic (ca_priv ca)"
  using assms(1)
proof (cases rule: NewSealedCA_cases)
  case (loaded data)
  with assms(3) show ?thesis
    by (auto simp: readFile_def key_file_ok_def split: option.splits)
next
  case (minted pub priv)
  with generateKey_genuine [OF assms(2)] show ?thesis by auto
qed

text \<open>After start-up the key file holds the key.\<close>

lemma NewSealedCA_file:
  assumes "NewSealedCA cr env disk path = (Inr ca, disk')"
  shows "\<exists>f. disk' path = Some f \<and> fdata f = ca_priv ca"
  using assms
  by (cases rule: NewSealedCA_cases)
    (auto simp: readFile_def writeFile_def Let_def split: option.splits writeOutcome.splits)

section \<open>Properties\<close>

text \<open>
  A certificate issued by the authority verifies under the public key it serves, and
  the signed bytes decode to exactly the issuer, user, identity key it was asked to bind
  and an expiry 24 hours after the instant of issue.
\<close>

theorem cert_binds:
  assumes "ed25519_correct cr" "key_file_ok cr disk path"
    and "NewSealedCA cr env disk path = (Inr ca, disk')"
    and "IssueCert cr ca uid ik issuer now = (cert, sig)"
    and "valid_utf8 uid" "valid_utf8 ik" "valid_utf8 issuer" "int64_ok (unixMilli now + 86400000)"
  shows "edVerify cr (ca_pub ca) cert sig \<and>
    unmarshalCert cert = (False, \<lparr>sc_Iss = issuer, sc_UID = uid, sc_IK = ik,
                                  sc_Exp = unixMilli now + 86400000\<rparr>)"
proof -
  from NewSealedCA_genuine [OF assms(3,1,2)] genuine_signs(1) [OF assms(1)]
  have "edVerify cr (ca_pub ca) m (edSign cr (ca_priv ca) m)" for m by auto
  with assms(4-8) show ?thesis
    by (auto simp: IssueCert_def Let_def cert_lifetime unmarshal_marshalCert cert_wf_def)
qed

text \<open>
  Rotation.  When the key file is gone and the previous key is kept beside it, the
  authority mints a new key and serves a proof that verifies, under the previous public
  key, over the new public key; so a client that pinned the old key can follow.
\<close>

theorem rotation_proof_verifies:
  assumes "ed25519_correct cr" "disk path = None" "disk (path @ ''.prev'') = Some f"
    and "genuine cr (fdata f)" "ce_prev env = None"
    and "NewSealedCA cr env disk path = (Inr ca, disk')"
  shows "\<exists>sig. RotationProofB64 ca = (b64_encode (keyPublic (fdata f)), b64_encode sig)
    \<and> edVerify cr (keyPublic (fdata f)) (ca_pub ca) sig"
proof -
  from assms(3,4,5) have prev: "readPrevKey (ce_prev env) d path = Some (fdata f)"
    if "d (path @ ''.prev'') = Some f" for d
    using that by (simp add: readPrevKey_def readFile_def privateKeySize_def genuine_def)
  have "disk' (path @ ''.prev'') = Some f"
    using assms(6,3)
    by (cases rule: NewSealedCA_cases)
      (auto simp: writeFile_def Let_def split: writeOutcome.splits option.splits)
  with assms(6) prev assms(3) obtain ca0 where "ca = withRotation cr (Some (fdata f)) ca0"
    by (cases rule: NewSealedCA_cases) auto
  with genuine_signs [OF assms(1,4)] show ?thesis
    by (auto simp: RotationProofB64_def withRotation_def)
qed

text \<open>
  The authority survives a restart: started again on the disk it left, it comes up
  with the same key pair and the same rotation proof, and writes nothing.
\<close>

theorem ca_restart_stable:
  assumes "ed25519_correct cr" "ce_prev env = ce_prev env'" "ce_read env' = None"
    and "NewSealedCA cr env disk path = (Inr ca, disk')"
  shows "NewSealedCA cr env' disk' path = (Inr ca, disk')"
proof -
  obtain f where f: "disk' path = Some f" "fdata f = ca_priv ca"
    using NewSealedCA_file [OF assms(4)] by blast
  have "length (ca_priv ca) = 64 \<and> ca = withRotation cr (readPrevKey (ce_prev env) disk' path)
      \<lparr>ca_priv = ca_priv ca, ca_pub = keyPublic (ca_priv ca), ca_prevPub = None, ca_rotationSig = []\<rparr>"
    using assms(4)
  proof (cases rule: NewSealedCA_cases)
    case (minted pub priv)
    with generateKey_genuine [OF assms(1) minted(2)] show ?thesis by (simp add: genuine_def)
  qed simp
  with f assms(2,3) show ?thesis
    by (simp add: NewSealedCA_def readFile_def privateKeySize_def)
qed

section \<open>A concrete authority\<close>

definition demo_ca_env :: caEnv where
  "demo_ca_env = \<lparr>ce_read = None, ce_seed = replicate 32 CHR ''s'', ce_mkdir = None,
     ce_write = WriteOk, ce_prev = None\<rparr>"

definition demo_old_key :: fileRec where
  "demo_old_key = \<lparr>fdata = replicate 64 CHR ''o'', fmode = mode0600\<rparr>"

definition demo_ca_disk :: fs where
  "demo_ca_disk = [''ca.prev'' \<mapsto> demo_old_key]"

definition demo_ca :: SealedCA where
  "demo_ca = \<lparr>ca_priv = replicate 64 CHR ''s'', ca_pub = replicate 32 CHR ''s'',
     ca_prevPub = Some (replicate 32 CHR ''o''),
     ca_rotationSig = replicate 32 CHR ''o'' @ replicate 32 CHR ''s''\<rparr>"

lemma demo_ca_start:
  "NewSealedCA plainCrypto demo_ca_env demo_ca_disk ''ca''
     = (Inr demo_ca, demo_ca_disk(''ca'' \<mapsto> \<lparr>fdata = replicate 64 CHR ''s'', fmode = mode0600\<rparr>))"
  by (simp add: NewSealedCA_def readFile_def demo_ca_disk_def demo_ca_env_def generateKey_def
      plainCrypto_def writeFile_def readPrevKey_def demo_old_key_def privateKeySize_def
      withRotation_def demo_ca_def keyPublic_def take_replicate drop_replicate replicate_add [symmetric])

lemma demo_old_genuine: "genuine plainCrypto (fdata demo_old_key)"
  by (simp add: genuine_def demo_old_key_def plainCrypto_def)

text \<open>Witnesses on that authority.\<close>

theorem cert_binds_witness:
  "edVerify plainCrypto (ca_pub demo_ca)
     (fst (IssueCert plainCrypto demo_ca ''alice'' ''key'' ''relay'' 0))
     (snd (IssueCert plainCrypto demo_ca ''alice'' ''key'' ''relay'' 0)) \<and>
   unmarshalCert (fst (IssueCert plainCrypto demo_ca ''alice'' ''key'' ''relay'' 0))
     = (False, \<lparr>sc_Iss = ''relay'', sc_UID = ''alice'', sc_IK = ''key'', sc_Exp = 86400000\<rparr>)"
proof -
  have "key_file_ok plainCrypto demo_ca_disk ''ca''"
    by (simp add: key_file_ok_def demo_ca_disk_def)
  moreover have "valid_utf8 ''alice''" "valid_utf8 ''key''" "valid_utf8 ''relay''"
    by (rule valid_utf8_key, simp add: code_def)+
  ultimately show ?thesis
    using cert_binds [OF plainCrypto_ed _ demo_ca_start, of "''alice''" "''key''" "''relay''" 0
        "fst (IssueCert plainCrypto demo_ca ''alice'' ''key'' ''relay'' 0)"
        "snd (IssueCert plainCrypto demo_ca ''alice'' ''key'' ''relay'' 0)"]
    by (simp add: unixMilli_def int64_ok_def)
qed

theorem rotation_proof_verifies_witness:
  "\<exists>sig. RotationProofB64 demo_ca = (b64_encode (keyPublic (fdata demo_old_key)), b64_encode sig)
    \<and> edVerify plainCrypto (keyPublic (fdata demo_old_key)) (ca_pub demo_ca) sig"
  by (rule rotation_proof_verifies [OF plainCrypto_ed _ _ demo_old_genuine _ demo_ca_start])
    (simp_all add: demo_ca_disk_def demo_ca_env_def)

theorem ca_restart_stable_witness:
  "NewSealedCA plainCrypto demo_ca_env
     (demo_ca_disk(''ca'' \<mapsto> \<lparr>fdata = replicate 64 CHR ''s'', fmode = mode0600\<rparr>)) ''ca''
   = (Inr demo_ca, demo_ca_disk(''ca'' \<mapsto> \<lparr>fdata = replicate 64 CHR ''s'', fmode = mode0600\<rparr>))"
  by (rule ca_restart_stable [OF plainCrypto_ed _ _ demo_ca_start])
    (simp_all add: demo_ca_env_def)

end
