(* ===== verification/Prekey_Store.thy ===== *)
theory Prekey_Store
  imports Disk Json_Decode "HOL-Library.List_Lexorder" "HOL-Library.Char_ord"
begin

text \<open>
  \<^verbatim>\<open>server/prekey_store.go\<close>: per-user prekey bundles, their structural validation, the
  atomic consumption of one-time prekeys, and the encrypted snapshot file.  Every method
  runs under \<^verbatim>\<open>ps.mu\<close>, so each is one state transition.  A nil slice of one-time prekeys
  prints as \<^verbatim>\<open>null\<close> and an empty one as \<^verbatim>\<open>[]\<close>, so a bundle records which of them it has.
\<close>

section \<open>Bundles\<close>

definition prekeyPubKeyLen :: nat where "prekeyPubKeyLen = 32"

definition prekeySigLen :: nat where "prekeySigLen = 64"

definition maxOneTimePrekeys :: nat where "maxOneTimePrekeys = 100"

record OneTimePrekey =
  otpk_ID :: "32 word"
  otpk_Key :: string

record PrekeyBundle =
  pb_IdentityKey :: string
  pb_SignedPrekey :: string
  pb_SignedPrekeySig :: string
  pb_SignedPrekeyID :: "32 word"
  pb_OneTimePrekeys :: "OneTimePrekey list"
  pb_OTPKsNil :: bool

record PrekeyResponse =
  pr_IdentityKey :: string
  pr_SignedPrekey :: string
  pr_SignedPrekeySig :: string
  pr_SignedPrekeyID :: "32 word"
  pr_OneTimePrekey :: "OneTimePrekey option"

subsection \<open>Codecs\<close>

definition zeroOTPK :: OneTimePrekey where
  "zeroOTPK = \<lparr>otpk_ID = 0, otpk_Key = []\<rparr>"

definition setOTPK :: "string \<Rightarrow> json \<Rightarrow> OneTimePrekey \<Rightarrow> bool \<times> OneTimePrekey" where
  "setOTPK f v x =
     (if f = ''id'' then apsnd (\<lambda>n. x\<lparr>otpk_ID := n\<rparr>) (decUint32 v (otpk_ID x))
      else if f = ''key'' then apsnd (\<lambda>s. x\<lparr>otpk_Key := s\<rparr>) (decString v (otpk_Key x))
      else (False, x))"

definition decOTPK :: "json \<Rightarrow> OneTimePrekey \<Rightarrow> bool \<times> OneTimePrekey" where
  "decOTPK = decStruct setOTPK [''id'', ''key'']"

text \<open>The slice and whether it is nil: an array, empty or not, gives one that is not.\<close>

definition decOTPKs :: "json \<Rightarrow> OneTimePrekey list \<times> bool \<Rightarrow> bool \<times> OneTimePrekey list \<times> bool" where
  "decOTPKs v cur =
     (case v of
        JArr vs \<Rightarrow> apsnd (\<lambda>ks. (ks, False)) (decList decOTPK zeroOTPK vs (fst cur))
      | JNull \<Rightarrow> (False, [], True)
      | _ \<Rightarrow> (True, cur))"

definition zeroBundle :: PrekeyBundle where
  "zeroBundle = \<lparr>pb_IdentityKey = [], pb_SignedPrekey = [], pb_SignedPrekeySig = [],
     pb_SignedPrekeyID = 0, pb_OneTimePrekeys = [], pb_OTPKsNil = True\<rparr>"

definition bundleFields :: "string list" where
  "bundleFields = [''identity_key'', ''signed_prekey'', ''signed_prekey_sig'', ''signed_prekey_id'',
     ''one_time_prekeys'']"

definition setBundle :: "string \<Rightarrow> json \<Rightarrow> PrekeyBundle \<Rightarrow> bool \<times> PrekeyBundle" where
  "setBundle f v x =
     (if f = ''identity_key''
      then apsnd (\<lambda>s. x\<lparr>pb_IdentityKey := s\<rparr>) (decString v (pb_IdentityKey x))
      else if f = ''signed_prekey''
      then apsnd (\<lambda>s. x\<lparr>pb_SignedPrekey := s\<rparr>) (decString v (pb_SignedPrekey x))
      else if f = ''signed_prekey_sig''
      then apsnd (\<lambda>s. x\<lparr>pb_SignedPrekeySig := s\<rparr>) (decString v (pb_SignedPrekeySig x))
      else if f = ''signed_prekey_id''
      then apsnd (\<lambda>n. x\<lparr>pb_SignedPrekeyID := n\<rparr>) (decUint32 v (pb_SignedPrekeyID x))
      else if f = ''one_time_prekeys''
      then apsnd (\<lambda>(ks, n). x\<lparr>pb_OneTimePrekeys := ks, pb_OTPKsNil := n\<rparr>)
             (decOTPKs v (pb_OneTimePrekeys x, pb_OTPKsNil x))
      else (False, x))"

definition decBundle :: "json \<Rightarrow> PrekeyBundle \<Rightarrow> bool \<times> PrekeyBundle" where
  "decBundle = decStruct setBundle bundleFields"

definition jsonOTPK :: "OneTimePrekey \<Rightarrow> json" where
  "jsonOTPK k = JObj [(''id'', JNum (nat_digits (unat (otpk_ID k)))), (''key'', JStr (otpk_Key k))]"

definition jsonBundle :: "PrekeyBundle \<Rightarrow> json" where
  "jsonBundle b = JObj
     [(''identity_key'', JStr (pb_IdentityKey b)),
      (''signed_prekey'', JStr (pb_SignedPrekey b)),
      (''signed_prekey_sig'', JStr (pb_SignedPrekeySig b)),
      (''signed_prekey_id'', JNum (nat_digits (unat (pb_SignedPrekeyID b)))),
      (''one_time_prekeys'',
         if pb_OneTimePrekeys b = [] \<and> pb_OTPKsNil b then JNull
         else JArr (map jsonOTPK (pb_OneTimePrekeys b)))]"

definition jsonResponse :: "PrekeyResponse \<Rightarrow> json" where
  "jsonResponse r = JObj
     ([(''identity_key'', JStr (pr_IdentityKey r)),
       (''signed_prekey'', JStr (pr_SignedPrekey r)),
       (''signed_prekey_sig'', JStr (pr_SignedPrekeySig r)),
       (''signed_prekey_id'', JNum (nat_digits (unat (pr_SignedPrekeyID r))))] @
      (case pr_OneTimePrekey r of None \<Rightarrow> [] | Some k \<Rightarrow> [(''one_time_prekey'', jsonOTPK k)]))"

text \<open>\<^verbatim>\<open>json.Marshal\<close> of a map prints its keys in increasing order.\<close>

definition jsonBundles :: "(string, PrekeyBundle) gomap \<Rightarrow> json" where
  "jsonBundles m = JObj (map (\<lambda>(k, b). (k, jsonBundle b)) (sort_key fst m))"

fun decMap :: "(json \<Rightarrow> 'a \<Rightarrow> bool \<times> 'a) \<Rightarrow> 'a \<Rightarrow> (string \<times> json) list \<Rightarrow> (string, 'a option) gomap
    \<Rightarrow> bool \<times> (string, 'a option) gomap" where
  "decMap dec zero [] m = (False, m)"
| "decMap dec zero ((k, v) # kvs) m =
     (case decPtr dec zero v None of (e, x) \<Rightarrow>
        case decMap dec zero kvs (gm_put k x m) of (e', m') \<Rightarrow> (e \<or> e', m'))"

definition decBundles :: "json \<Rightarrow> (string, PrekeyBundle option) gomap
    \<Rightarrow> bool \<times> (string, PrekeyBundle option) gomap" where
  "decBundles v m =
     (case v of
        JObj kvs \<Rightarrow> decMap decBundle zeroBundle kvs m
      | JNull \<Rightarrow> (False, [])
      | _ \<Rightarrow> (True, m))"

section \<open>Validation\<close>

definition checkBase64Len :: "string \<Rightarrow> nat \<Rightarrow> goErr option" where
  "checkBase64Len s want =
     (case b64_decode s of (decoded, err) \<Rightarrow>
        if err then Some (ErrMsg ''illegal base64 data'')
        else if length decoded \<noteq> want then Some (ErrMsg ''bad length'')
        else None)"

fun checkOTPKs :: "32 word list \<Rightarrow> OneTimePrekey list \<Rightarrow> goErr option" where
  "checkOTPKs seen [] = None"
| "checkOTPKs seen (otpk # rest) =
     (if checkBase64Len (otpk_Key otpk) prekeyPubKeyLen \<noteq> None
      then Some (ErrMsg ''invalid one_time_prekey key'')
      else if otpk_ID otpk \<in> set seen then Some (ErrMsg ''duplicate one_time_prekey id'')
      else checkOTPKs (otpk_ID otpk # seen) rest)"

definition validatePrekeyBundle :: "PrekeyBundle \<Rightarrow> goErr option" where
  "validatePrekeyBundle b =
     (if checkBase64Len (pb_IdentityKey b) prekeyPubKeyLen \<noteq> None
      then Some (ErrMsg ''invalid identity_key'')
      else if checkBase64Len (pb_SignedPrekey b) prekeyPubKeyLen \<noteq> None
      then Some (ErrMsg ''invalid signed_prekey'')
      else if checkBase64Len (pb_SignedPrekeySig b) prekeySigLen \<noteq> None
      then Some (ErrMsg ''invalid signed_prekey_sig'')
      else if pb_SignedPrekeyID b = 0 then Some (ErrMsg ''invalid signed_prekey_id'')
      else if maxOneTimePrekeys < length (pb_OneTimePrekeys b)
      then Some (ErrMsg ''too many one_time_prekeys'')
      else checkOTPKs [] (pb_OneTimePrekeys b))"

section \<open>The store\<close>

record PrekeyStore =
  ps_bundles :: "(string, PrekeyBundle) gomap"
  ps_storePath :: string
  ps_key :: bytes

definition prekey_persistLocked :: "crypto \<Rightarrow> persistEnv \<Rightarrow> PrekeyStore \<Rightarrow> fs \<Rightarrow> goErr option \<times> fs" where
  "prekey_persistLocked cr env ps disk =
     (case encrypt cr (ps_key ps) (pe_rand env) (jprint (jsonBundles (ps_bundles ps))) of
        Inl e \<Rightarrow> (Some e, disk)
      | Inr sealed \<Rightarrow> replaceFile env disk (ps_storePath ps) ''prekeys-'' sealed)"

text \<open>\<^verbatim>\<open>append([]OneTimePrekey(nil), xs...)\<close> is nil if \<open>xs\<close> has no elements.\<close>

definition copyBundle :: "PrekeyBundle \<Rightarrow> PrekeyBundle" where
  "copyBundle bundle = bundle\<lparr>pb_OTPKsNil := (pb_OneTimePrekeys bundle = [])\<rparr>"

definition registerBundle :: "crypto \<Rightarrow> persistEnv \<Rightarrow> PrekeyStore \<times> fs \<Rightarrow> string \<Rightarrow> PrekeyBundle
    \<Rightarrow> goErr option \<times> PrekeyStore \<times> fs" where
  "registerBundle cr env w userID bundle =
     (case w of (ps, disk) \<Rightarrow>
      if userID = [] then (Some (ErrMsg ''empty user id''), ps, disk)
      else (case validatePrekeyBundle bundle of
              Some e \<Rightarrow> (Some e, ps, disk)
            | None \<Rightarrow>
                let ps' = ps\<lparr>ps_bundles := gm_put userID (copyBundle bundle) (ps_bundles ps)\<rparr> in
                (case prekey_persistLocked cr env ps' disk of (r, disk') \<Rightarrow> (r, ps', disk'))))"

definition staticResponse :: "PrekeyBundle \<Rightarrow> PrekeyResponse" where
  "staticResponse b = \<lparr>pr_IdentityKey = pb_IdentityKey b, pr_SignedPrekey = pb_SignedPrekey b,
     pr_SignedPrekeySig = pb_SignedPrekeySig b, pr_SignedPrekeyID = pb_SignedPrekeyID b,
     pr_OneTimePrekey = None\<rparr>"

definition getBundleWithOTPK :: "crypto \<Rightarrow> persistEnv \<Rightarrow> PrekeyStore \<times> fs \<Rightarrow> string \<Rightarrow> bool
    \<Rightarrow> PrekeyResponse option \<times> PrekeyStore \<times> fs" where
  "getBundleWithOTPK cr env w userID consumeOTPK =
     (case w of (ps, disk) \<Rightarrow>
      case map_of (ps_bundles ps) userID of
        None \<Rightarrow> (None, ps, disk)
      | Some b \<Rightarrow>
          let resp = staticResponse b in
          (case (consumeOTPK, pb_OneTimePrekeys b) of
             (True, consumed # rest) \<Rightarrow>
               let ps' = ps\<lparr>ps_bundles :=
                           gm_put userID (b\<lparr>pb_OneTimePrekeys := rest\<rparr>) (ps_bundles ps)\<rparr> in
               (Some (resp\<lparr>pr_OneTimePrekey := Some consumed\<rparr>), ps',
                snd (prekey_persistLocked cr env ps' disk))
           | _ \<Rightarrow> (Some resp, ps, disk)))"

definition getBundle :: "crypto \<Rightarrow> persistEnv \<Rightarrow> PrekeyStore \<times> fs \<Rightarrow> string
    \<Rightarrow> PrekeyResponse option \<times> PrekeyStore \<times> fs" where
  "getBundle cr env w userID = getBundleWithOTPK cr env w userID True"

definition identityKeyOf :: "PrekeyStore \<Rightarrow> string \<Rightarrow> string option" where
  "identityKeyOf ps userID = map_option pb_IdentityKey (map_of (ps_bundles ps) userID)"

definition consumeOneTimePrekey :: "crypto \<Rightarrow> persistEnv \<Rightarrow> PrekeyStore \<times> fs \<Rightarrow> string
    \<Rightarrow> OneTimePrekey option \<times> PrekeyStore \<times> fs" where
  "consumeOneTimePrekey cr env w userID =
     (case w of (ps, disk) \<Rightarrow>
      case map_of (ps_bundles ps) userID of
        None \<Rightarrow> (None, ps, disk)
      | Some b \<Rightarrow>
          (case pb_OneTimePrekeys b of
             [] \<Rightarrow> (None, ps, disk)
           | consumed # rest \<Rightarrow>
               let ps' = ps\<lparr>ps_bundles :=
                           gm_put userID (b\<lparr>pb_OneTimePrekeys := rest\<rparr>) (ps_bundles ps)\<rparr> in
               (Some consumed, ps', snd (prekey_persistLocked cr env ps' disk))))"

section \<open>Start-up\<close>

record prekeyEnv =
  ke_mkdirs :: "goErr option"
  ke_key :: keyEnv
  ke_load :: "goErr option"

definition keepBundle :: "string \<times> PrekeyBundle option \<Rightarrow> (string, PrekeyBundle) gomap
    \<Rightarrow> (string, PrekeyBundle) gomap" where
  "keepBundle e m = (case e of (uid, None) \<Rightarrow> m | (uid, Some b) \<Rightarrow> gm_put uid b m)"

definition prekey_loadFromDisk :: "crypto \<Rightarrow> prekeyEnv \<Rightarrow> PrekeyStore \<Rightarrow> fs \<Rightarrow> goErr + PrekeyStore" where
  "prekey_loadFromDisk cr env ps disk =
     (case readFile disk (ke_load env) (ps_storePath ps) of
        Inl e \<Rightarrow> if e = ErrNotExist then Inr ps else Inl e
      | Inr data \<Rightarrow>
          if data = [] then Inr ps
          else (case newCipher (ps_key ps) of
             Some e \<Rightarrow> Inl e
           | None \<Rightarrow>
               if length data < gcmNonceSize then Inl (ErrMsg ''prekey file truncated'')
               else (case gcmOpen cr (ps_key ps) (take gcmNonceSize data) (drop gcmNonceSize data) of
                  None \<Rightarrow> Inl (ErrMsg ''prekey authentication failed'')
                | Some plain \<Rightarrow>
                    (case unmarshal decBundles [] plain of
                       (True, _) \<Rightarrow> Inl (ErrMsg ''json'')
                     | (False, loaded) \<Rightarrow>
                         Inr (ps\<lparr>ps_bundles := fold keepBundle loaded (ps_bundles ps)\<rparr>)))))"

definition NewPrekeyStore :: "crypto \<Rightarrow> prekeyEnv \<Rightarrow> fs \<Rightarrow> string \<Rightarrow> (goErr + PrekeyStore) \<times> fs" where
  "NewPrekeyStore cr env disk storePath =
     (case ke_mkdirs env of
        Some e \<Rightarrow> (Inl e, disk)
      | None \<Rightarrow>
          (case loadOrCreateKey (ke_key env) disk (storePath @ keyFileSuffix) of
             (Inl e, disk1) \<Rightarrow> (Inl e, disk1)
           | (Inr key, disk1) \<Rightarrow>
               (prekey_loadFromDisk cr env
                  \<lparr>ps_bundles = [], ps_storePath = storePath, ps_key = key\<rparr> disk1, disk1)))"

end
