(* ===== verification/Server.thy ===== *)
theory Server
  imports Router Auth Config Sealed_CA Prekey_Store
begin

text \<open>
  \<^verbatim>\<open>server/server.go\<close> and \<^verbatim>\<open>main.go\<close>: the server that wires the other components
  together, its HTTP handlers, the life of a WebSocket connection and the dispatch of
  authenticated frames.  A connection is opened, served frame by frame and closed; the
  three parts are separate operations because other connections run in between, and
  \<open>serveConn\<close> composes them as the source does.  The routing of requests is in theory
  \<open>Http_Mux\<close>, the log in theory \<open>Logging\<close>, the read loop as an unbounded loop in theory
  \<open>Loops\<close>; panic recovery and the TLS machinery are not modelled.
\<close>

section \<open>The server\<close>

record Server =
  sv_cfg :: Config
  sv_store :: Store
  sv_prekeys :: PrekeyStore
  sv_router :: Router
  sv_auth :: authLimiter
  sv_sealedCA :: SealedCA
  sv_certLimiter :: rateLimiter
  sv_prekeyLimiter :: rateLimiter

definition certRequestsPerMin :: int where "certRequestsPerMin = 6"

definition prekeyFetchesPerMinPerTarget :: int where "prekeyFetchesPerMinPerTarget = 10"

definition New :: "crypto \<Rightarrow> sqliteDriver \<Rightarrow> storeEnv \<Rightarrow> prekeyEnv \<Rightarrow> caEnv \<Rightarrow> fs \<Rightarrow> Config
    \<Rightarrow> (goErr + Server) \<times> fs" where
  "New cr drv senv penv cenv disk cfg =
     (case NewStore cr drv senv disk (OfflineQueuePath cfg) (MessageTTLSeconds cfg) of
        (Inl e, disk1) \<Rightarrow> (Inl e, disk1)
      | (Inr store, disk1) \<Rightarrow>
          (case NewPrekeyStore cr penv disk1 (PrekeyStorePath cfg) of
             (Inl e, disk2) \<Rightarrow> (Inl e, disk2)
           | (Inr prekeys, disk2) \<Rightarrow>
               (case NewSealedCA cr cenv disk2 (SealedCAPath cfg) of
                  (Inl e, disk3) \<Rightarrow> (Inl e, disk3)
                | (Inr ca, disk3) \<Rightarrow>
                    (Inr \<lparr>sv_cfg = cfg, sv_store = store, sv_prekeys = prekeys,
                          sv_router = NewRouter (MaxMessageSize cfg) (RateLimitPerMin cfg) (RelayID cfg),
                          sv_auth = newAuthLimiter, sv_sealedCA = ca,
                          sv_certLimiter = newRateLimiter certRequestsPerMin,
                          sv_prekeyLimiter = newRateLimiter prekeyFetchesPerMinPerTarget\<rparr>, disk3))))"

definition server_ConnectedClients :: "Server \<Rightarrow> int" where
  "server_ConnectedClients sv = ConnectedClients (sv_store sv)"

definition server_QueuedMessages :: "goErr option \<Rightarrow> int \<Rightarrow> Server \<Rightarrow> int" where
  "server_QueuedMessages fault epoch sv = QueuedMessages fault epoch (sv_store sv)"

section \<open>HTTP handlers\<close>

record request =
  rq_method :: string
  rq_path :: string
  rq_relayID :: string
  rq_body :: bytes

record response =
  rs_status :: nat
  rs_headers :: "(string \<times> string) list"
  rs_body :: bytes

definition reply :: "nat \<Rightarrow> response" where
  "reply status = \<lparr>rs_status = status, rs_headers = [], rs_body = []\<rparr>"

definition methodNotAllowed :: "string \<Rightarrow> response" where
  "methodNotAllowed allow = \<lparr>rs_status = 405, rs_headers = [(''Allow'', allow)], rs_body = []\<rparr>"

text \<open>\<^verbatim>\<open>json.NewEncoder(w).Encode\<close> ends the text with a newline.\<close>

definition jsonReply :: "json \<Rightarrow> response" where
  "jsonReply v = \<lparr>rs_status = 200,
     rs_headers = [(''Content-Type'', ''application/json''), (''Cache-Control'', ''no-store'')],
     rs_body = jprint v @ [byte 10]\<rparr>"

definition handleHealth :: "request \<Rightarrow> response" where
  "handleHealth r = \<lparr>rs_status = 200, rs_headers = [], rs_body = ''.''\<rparr>"

definition handleSealedCA :: "Server \<Rightarrow> request \<Rightarrow> response" where
  "handleSealedCA sv r =
     (if rq_method r \<noteq> ''GET'' then methodNotAllowed ''GET''
      else (case RotationProofB64 (sv_sealedCA sv) of (prevPub, rotSig) \<Rightarrow>
        jsonReply (JObj
          ([(''public_key'', JStr (PublicKeyB64 (sv_sealedCA sv)))] @
           (if prevPub = [] then [] else [(''prev_public_key'', JStr prevPub)]) @
           (if rotSig = [] then [] else [(''rotation_sig'', JStr rotSig)])))))"

text \<open>
  The limiter and the prekey store have a mutex each, so that other requests may come in
  between; theory \<open>Prekey_Gets\<close> has the two critical sections apart.
\<close>

definition handlePrekeysGet :: "crypto \<Rightarrow> time \<Rightarrow> persistEnv \<Rightarrow> Server \<times> fs \<Rightarrow> request
    \<Rightarrow> response \<times> Server \<times> fs" where
  "handlePrekeysGet cr now env w r =
     (case w of (sv, disk) \<Rightarrow>
      if rq_method r \<noteq> ''GET'' then (methodNotAllowed ''GET'', sv, disk)
      else
        let userID = trimPrefix (rq_path r) ''/prekeys/'' in
        if userID = [] \<or> containsAny userID ''/?#'' then (reply 404, sv, disk)
        else (case rateLimiter_allow (sv_prekeyLimiter sv) userID now of (consumeOTPK, lim) \<Rightarrow>
          case getBundleWithOTPK cr env (sv_prekeys sv, disk) userID consumeOTPK of (resp, ps, disk') \<Rightarrow>
            let sv' = sv\<lparr>sv_prekeyLimiter := lim, sv_prekeys := ps\<rparr> in
            (case resp of
               None \<Rightarrow> (reply 404, sv', disk')
             | Some b \<Rightarrow> (jsonReply (jsonResponse b), sv', disk'))))"

definition handleFederationDeliver :: "crypto \<Rightarrow> sqliteDriver \<Rightarrow> deliverEnv \<Rightarrow> Server \<times> fs \<Rightarrow> request
    \<Rightarrow> response \<times> action list \<times> Server \<times> fs" where
  "handleFederationDeliver cr drv env w r =
     (case w of (sv, disk) \<Rightarrow>
      if rq_method r \<noteq> ''POST'' then (methodNotAllowed ''POST'', [], sv, disk)
      else if rq_relayID r = [] then (reply 204, [], sv, disk)
      else (case decodeFirst decSealed zeroSealed (rq_body r) of (err, sealed) \<Rightarrow>
        if err then (reply 204, [], sv, disk)
        else if se_RecipientID sealed = [] \<or> length (se_Ciphertext sealed) = 0 then (reply 204, [], sv, disk)
        else
          let parts = splitN2 CHR ''@'' (se_RecipientID sealed) in
          if length parts = 2 \<and> \<not> isLocalRelay (parts ! 1) (RelayID (sv_cfg sv))
          then (reply 204, [], sv, disk)
          else
            let sealed' = sealed\<lparr>se_FederationSenderRelay := rq_relayID r\<rparr> in
            (case deliver cr drv env (sv_router sv) (sv_store sv, disk) (parts ! 0)
                \<lparr>qm_Sealed = Some sealed', qm_Open = None, qm_ExpiresAt = 0\<rparr> of (acts, st, disk') \<Rightarrow>
              (reply 204, acts, sv\<lparr>sv_store := st\<rparr>, disk'))))"

section \<open>Certificates\<close>

definition buildSenderCert :: "crypto \<Rightarrow> Server \<Rightarrow> string \<Rightarrow> time \<Rightarrow> (bytes \<times> bytes) option" where
  "buildSenderCert cr sv userID now =
     (case identityKeyOf (sv_prekeys sv) userID of
        None \<Rightarrow> None
      | Some ik \<Rightarrow> Some (IssueCert cr (sv_sealedCA sv) userID ik (RelayID (sv_cfg sv)) now))"

definition jsonCertReply :: "bytes \<Rightarrow> bytes \<Rightarrow> json" where
  "jsonCertReply cert sig = JObj
     [(''type'', JStr ''sender_cert''), (''cert'', JStr (b64_encode cert)),
      (''signature'', JStr (b64_encode sig))]"

text \<open>The two clock readings and the outcome of the write are inputs.\<close>

record certEnv =
  ct_limit :: time
  ct_issue :: time
  ct_write :: bool

definition issueSenderCert :: "crypto \<Rightarrow> certEnv \<Rightarrow> Server \<Rightarrow> string \<Rightarrow> conn \<Rightarrow> action list \<times> Server" where
  "issueSenderCert cr env sv userID c =
     (case rateLimiter_allow (sv_certLimiter sv) userID (ct_limit env) of
        (False, lim) \<Rightarrow> ([], sv\<lparr>sv_certLimiter := lim\<rparr>)
      | (True, lim) \<Rightarrow>
          let sv' = sv\<lparr>sv_certLimiter := lim\<rparr> in
          (case buildSenderCert cr sv' userID (ct_issue env) of
             None \<Rightarrow> ([], sv')
           | Some (cert, sig) \<Rightarrow>
               let resp = jprint (jsonCertReply cert sig) in
               ([if ct_write env then Sent c resp else WriteFailed c resp], sv')))"

section \<open>Authenticated frames\<close>

definition setHeader :: "string \<Rightarrow> json \<Rightarrow> string \<Rightarrow> bool \<times> string" where
  "setHeader f v x = (if f = ''type'' then decString v x else (False, x))"

definition unmarshalHeader :: "bytes \<Rightarrow> bool \<times> string" where
  "unmarshalHeader = unmarshal (decStruct setHeader [''type'']) []"

definition setBundleMsg :: "string \<Rightarrow> json \<Rightarrow> PrekeyBundle \<Rightarrow> bool \<times> PrekeyBundle" where
  "setBundleMsg f v x = (if f = ''bundle'' then decBundle v x else (False, x))"

definition unmarshalBundleMsg :: "bytes \<Rightarrow> bool \<times> PrekeyBundle" where
  "unmarshalBundleMsg = unmarshal (decStruct setBundleMsg [''bundle'']) zeroBundle"

record frameEnv =
  fr_cert :: certEnv
  fr_persist :: persistEnv
  fr_now :: time
  fr_deliver :: deliverEnv

definition handleAuthedFrame :: "crypto \<Rightarrow> sqliteDriver \<Rightarrow> frameEnv \<Rightarrow> Server \<times> fs \<Rightarrow> string \<Rightarrow> conn
    \<Rightarrow> bytes \<Rightarrow> action list \<times> Server \<times> fs" where
  "handleAuthedFrame cr drv env w userID c data =
     (case w of (sv, disk) \<Rightarrow>
      case unmarshalHeader data of (err, typ) \<Rightarrow>
        if \<not> err \<and> typ = ''request_sender_cert''
        then (case issueSenderCert cr (fr_cert env) sv userID c of (acts, sv') \<Rightarrow> (acts, sv', disk))
        else if typ = ''register_prekeys''
        then (case unmarshalBundleMsg data of
                (True, _) \<Rightarrow> ([], sv, disk)
              | (False, bundle) \<Rightarrow>
                  (case registerBundle cr (fr_persist env) (sv_prekeys sv, disk) userID bundle of
                     (e, ps, disk') \<Rightarrow> ([], sv\<lparr>sv_prekeys := ps\<rparr>, disk')))
        else (case Route cr drv (fr_now env) (fr_deliver env) (sv_router sv) (sv_store sv, disk) userID data of
                (acts, r, st, disk') \<Rightarrow> (acts, sv\<lparr>sv_router := r, sv_store := st\<rparr>, disk')))"

section \<open>Connections\<close>

datatype frameType = MessageText | MessageBinary | MessageOther

text \<open>A local user name is stripped of the relay's own domain.\<close>

definition normalizeUser :: "string \<Rightarrow> string \<Rightarrow> string" where
  "normalizeUser relayID userID =
     (case splitN2 CHR ''@'' userID of
        [user, domain] \<Rightarrow> if isLocalRelay domain relayID then user else userID
      | _ \<Rightarrow> userID)"

text \<open>WebSocket close codes: 1000 normal closure, 1008 policy violation.\<close>

definition openConn :: "crypto \<Rightarrow> sqliteDriver \<Rightarrow> authEnv \<Rightarrow> flushEnv \<Rightarrow> Server \<times> fs \<Rightarrow> conn \<Rightarrow> string
    \<Rightarrow> string option \<times> action list \<times> Server \<times> fs" where
  "openConn cr drv aenv fenv w c remoteAddr =
     (case w of (sv, disk) \<Rightarrow>
      case Authenticate cr aenv (sv_auth sv) (ExtractIP remoteAddr) of (result, msgs, l) \<Rightarrow>
        let sv1 = sv\<lparr>sv_auth := l\<rparr> in
        (case result of
           None \<Rightarrow> (None, map (Sent c) msgs @ [CloseConn c 1008], sv1, disk)
         | Some uid \<Rightarrow>
             let userID = normalizeUser (RelayID (sv_cfg sv)) uid in
             (case Register (sv_store sv) userID c of (prev, st) \<Rightarrow>
              case FlushQueue cr drv fenv (st, disk) userID c of (acts, st', disk') \<Rightarrow>
                (Some userID,
                 map (Sent c) msgs @ (case prev of None \<Rightarrow> [] | Some p \<Rightarrow> [CloseConn p 1000]) @ acts,
                 sv1\<lparr>sv_store := st'\<rparr>, disk'))))"

fun readLoop :: "crypto \<Rightarrow> sqliteDriver \<Rightarrow> (frameType \<times> bytes \<times> frameEnv) list \<Rightarrow> string \<Rightarrow> conn
    \<Rightarrow> Server \<times> fs \<Rightarrow> action list \<times> Server \<times> fs" where
  "readLoop cr drv [] userID c w = ([], w)"
| "readLoop cr drv ((typ, data, env) # frames) userID c w =
     (if typ \<noteq> MessageText \<and> typ \<noteq> MessageBinary then readLoop cr drv frames userID c w
      else (case handleAuthedFrame cr drv env w userID c data of (acts, w') \<Rightarrow>
            case readLoop cr drv frames userID c w' of (acts', w'') \<Rightarrow> (acts @ acts', w'')))"

definition closeConn :: "Server \<times> fs \<Rightarrow> string \<Rightarrow> conn \<Rightarrow> Server \<times> fs" where
  "closeConn w userID c = (case w of (sv, disk) \<Rightarrow> (sv\<lparr>sv_store := Unregister (sv_store sv) userID c\<rparr>, disk))"

definition serveConn :: "crypto \<Rightarrow> sqliteDriver \<Rightarrow> authEnv \<Rightarrow> flushEnv
    \<Rightarrow> (frameType \<times> bytes \<times> frameEnv) list \<Rightarrow> Server \<times> fs \<Rightarrow> conn \<Rightarrow> string \<Rightarrow> action list \<times> Server \<times> fs" where
  "serveConn cr drv aenv fenv frames w c remoteAddr =
     (case openConn cr drv aenv fenv w c remoteAddr of
        (None, acts, w') \<Rightarrow> (acts, w')
      | (Some userID, acts, w') \<Rightarrow>
          (case readLoop cr drv frames userID c w' of (acts', w'') \<Rightarrow>
             (acts @ acts', closeConn w'' userID c)))"

section \<open>Running\<close>

definition VersionTLS13 :: nat where
  "VersionTLS13 = 772"

record tlsConfig =
  MinVersion :: nat
  MaxVersion :: nat

record httpServer =
  hs_Addr :: string
  hs_TLSConfig :: tlsConfig
  hs_ReadHeaderTimeout :: duration

definition newHTTPServer :: "Config \<Rightarrow> httpServer" where
  "newHTTPServer cfg = \<lparr>hs_Addr = ListenAddr cfg,
     hs_TLSConfig = \<lparr>MinVersion = VersionTLS13, MaxVersion = VersionTLS13\<rparr>,
     hs_ReadHeaderTimeout = seconds 15\<rparr>"

datatype listenCall = ListenAndServe | ListenAndServeTLS string string

definition listenMode :: "Config \<Rightarrow> listenCall" where
  "listenMode cfg =
     (if DevMode cfg \<and> (TLSCertFile cfg = [] \<or> TLSKeyFile cfg = []) then ListenAndServe
      else ListenAndServeTLS (TLSCertFile cfg) (TLSKeyFile cfg))"

text \<open>The protocol versions a listener offers; \<open>None\<close> is no TLS at all.\<close>

definition offers :: "httpServer \<Rightarrow> listenCall \<Rightarrow> nat option set" where
  "offers hs call =
     (case call of
        ListenAndServe \<Rightarrow> {None}
      | ListenAndServeTLS cert key \<Rightarrow>
          Some ` {MinVersion (hs_TLSConfig hs)..MaxVersion (hs_TLSConfig hs)})"

text \<open>
  \<^verbatim>\<open>Run\<close> ends when its context is cancelled, with the result of the shutdown, or when the
  listener fails; \<^verbatim>\<open>http.ErrServerClosed\<close> counts as a clean end.
\<close>

datatype runEnd = Cancelled "goErr option" | ListenerClosed | ListenerFailed goErr

definition Run :: "runEnd \<Rightarrow> Server \<Rightarrow> goErr option \<times> Server" where
  "Run ending sv =
     (let sv' = sv\<lparr>sv_store := Stop (sv_store sv)\<rparr> in
      case ending of
        Cancelled shutdownErr \<Rightarrow> (shutdownErr, sv')
      | ListenerClosed \<Rightarrow> (None, sv')
      | ListenerFailed e \<Rightarrow> (Some e, sv'))"

text \<open>The exit status of the program.\<close>

definition main :: "crypto \<Rightarrow> sqliteDriver \<Rightarrow> storeEnv \<Rightarrow> prekeyEnv \<Rightarrow> caEnv \<Rightarrow> fs \<Rightarrow> (string \<Rightarrow> string)
    \<Rightarrow> runEnd \<Rightarrow> int" where
  "main cr drv senv penv cenv disk env ending =
     (case Load env of
        Inl e \<Rightarrow> 1
      | Inr cfg \<Rightarrow>
          (case fst (New cr drv senv penv cenv disk cfg) of
             Inl e \<Rightarrow> 1
           | Inr sv \<Rightarrow> (case fst (Run ending sv) of Some e \<Rightarrow> 1 | None \<Rightarrow> 0)))"

datatype wsErr = ErrCtxCanceled | ErrCtxDeadline | ErrNet | ErrOther

definition classifyWSErr :: "wsErr option \<Rightarrow> string" where
  "classifyWSErr err =
     (case err of
        None \<Rightarrow> ''none''
      | Some ErrCtxCanceled \<Rightarrow> ''ctx''
      | Some ErrCtxDeadline \<Rightarrow> ''ctx''
      | Some ErrNet \<Rightarrow> ''net''
      | Some ErrOther \<Rightarrow> ''ws'')"

end
