(* ===== verification/Store_Props.thy ===== *)
theory Store_Props
  imports Store
begin

text \<open>
  What the offline queue of theory \<open>Store\<close> promises: order, isolation, the cap, expiry,
  rollback of failed drains, and durability over crashes and restarts.
\<close>

section \<open>Sequences of enqueues\<close>

fun enqueueAll :: "crypto \<Rightarrow> sqliteDriver \<Rightarrow> string \<Rightarrow> (enqEnv \<times> queuedMessage) list
    \<Rightarrow> Store \<times> fs \<Rightarrow> Store \<times> fs" where
  "enqueueAll cr drv rid [] w = w"
| "enqueueAll cr drv rid ((env, m) # es) w = enqueueAll cr drv rid es (Enqueue cr drv env w rid m)"

lemma Enqueue_growth:
  assumes "store_wf s"
  shows "length (mailbox (st_db (fst (Enqueue cr drv env (s, disk) rid m))) rid)
           \<le> Suc (length (mailbox (st_db s) rid))" (is ?box)
    and "db_seq (st_db (fst (Enqueue cr drv env (s, disk) rid m))) \<le> db_seq (st_db s) + 1" (is ?seq)
proof -
  let ?db1 = "sqlDeleteExpiredFor rid (ee_epoch env) (st_db s)"
  from assms have twf: "table_wf (st_db s)" by (simp add: store_wf_def)
  note twf1 = qt.wf_expire_for [OF twf, of rid "ee_epoch env"]
  have 1: "length (mailbox ?db1 rid) \<le> length (mailbox (st_db s) rid)"
    by (rule qt.expire_for_shrinks [OF twf])
  have "length (mailbox db2 rid) \<le> Suc (length (mailbox (st_db s) rid))"
    "db_seq db2 \<le> db_seq (st_db s) + 1"
    if "sqlInsert rid c x ?db1 = Inr db2" for c x db2
    using qt.box_insert [OF twf1 that, of rid] 1 that
    by (auto simp: sqlInsert_def sqlDeleteExpiredFor_def split: if_splits)
  with 1 show ?box ?seq
    by (auto simp: Enqueue_def Let_def le_SucI sqlDeleteExpiredFor_def split: sum.split)
qed

text \<open>An enqueue that can succeed: nothing fails, and the message outlives \<open>now\<close>.\<close>

definition enq_ok :: "int \<Rightarrow> Store \<Rightarrow> enqEnv \<times> queuedMessage \<Rightarrow> bool" where
  "enq_ok now s e \<longleftrightarrow> (case e of (env, m) \<Rightarrow> enq_clean env \<and> message_wf m
     \<and> int64_ok (expiry env s) \<and> ee_epoch env \<le> now \<and> now \<le> expiry env s)"

definition stamped :: "Store \<Rightarrow> enqEnv \<times> queuedMessage \<Rightarrow> queuedMessage" where
  "stamped s e = (case e of (env, m) \<Rightarrow> m\<lparr>qm_ExpiresAt := expiry env s\<rparr>)"

lemma room_if_short:
  assumes "int (length (mailbox (st_db s) rid)) < maxQueuePerRecipient" "db_seq (st_db s) + 1 < 2 ^ 63"
  shows "has_room env s rid"
proof -
  have "length (filter (\<lambda>(p, x). ee_epoch env \<le> x) (mailbox (st_db s) rid))
      \<le> length (mailbox (st_db s) rid)" by simp
  with assms show ?thesis unfolding has_room_def by linarith
qed

lemma enqueueAll_pending:
  assumes "gcm_correct cr" "store_wf s" "\<not> st_stopped s" "\<forall>e \<in> set es. enq_ok now s e"
    and "int (length (mailbox (st_db s) rid) + length es) \<le> maxQueuePerRecipient"
    and "db_seq (st_db s) + int (length es) < 2 ^ 63"
  shows "pending cr now (fst (enqueueAll cr drv rid es (s, disk))) rid
           = pending cr now s rid @ map (stamped s) es
    \<and> store_wf (fst (enqueueAll cr drv rid es (s, disk)))
    \<and> \<not> st_stopped (fst (enqueueAll cr drv rid es (s, disk)))"
  using assms(2-6)
proof (induction es arbitrary: s disk)
  case (Cons e es)
  obtain env m where e: "e = (env, m)" by (cases e)
  let ?w = "Enqueue cr drv env (s, disk) rid m"
  have room: "has_room env s rid" using Cons.prems(4,5) by (intro room_if_short) auto
  have exp: "expiry env' (fst ?w) = expiry env' s" for env'
    by (simp add: expiry_def frame_simps)
  have p: "pending cr now (fst ?w) rid = pending cr now s rid @ [stamped s e]"
    using assms(1) Cons.prems(1-3) room
    by (auto simp: e stamped_def enq_ok_def intro!: Enqueue_pending)
  have "pending cr now (fst (enqueueAll cr drv rid es (fst ?w, snd ?w))) rid
           = pending cr now (fst ?w) rid @ map (stamped (fst ?w)) es
    \<and> store_wf (fst (enqueueAll cr drv rid es (fst ?w, snd ?w)))
    \<and> \<not> st_stopped (fst (enqueueAll cr drv rid es (fst ?w, snd ?w)))"
    using Cons.prems Enqueue_growth [OF Cons.prems(1), of cr drv env disk rid m]
    by (intro Cons.IH) (auto simp: Enqueue_wf frame_simps enq_ok_def exp)
  moreover have "stamped (fst ?w) = stamped s" by (auto simp: stamped_def exp)
  ultimately show ?case by (simp add: e p)
qed simp

section \<open>Lives of a store\<close>

text \<open>
  A store starts on an empty disk, serves operations under any faults, and is restarted
  any number of times.  A crash may leave temporary files behind; what a restart relies
  on is the queue file and its key file.  A read never reports a missing file that is
  there.
\<close>

definition honest :: "storeEnv \<Rightarrow> bool" where
  "honest env \<longleftrightarrow> ke_read (se_key env) \<noteq> Some ErrNotExist \<and> se_read env \<noteq> Some ErrNotExist"

inductive store_life :: "crypto \<Rightarrow> sqliteDriver \<Rightarrow> string \<Rightarrow> Store \<times> fs \<Rightarrow> bool"
  for cr drv path where
  first: "NewStore cr drv env Map.empty path ttl = (Inr s, d) \<Longrightarrow> store_life cr drv path (s, d)"
| serves: "store_life cr drv path w \<Longrightarrow> store_step cr drv w w' \<Longrightarrow> store_life cr drv path w'"
| again: "store_life cr drv path (s, d) \<Longrightarrow> d' path = d path \<Longrightarrow>
     d' (path @ keyFileSuffix) = d (path @ keyFileSuffix) \<Longrightarrow> honest env \<Longrightarrow>
     NewStore cr drv env d' path ttl = (Inr s', d'') \<Longrightarrow> store_life cr drv path (s', d'')"

definition saved :: "crypto \<Rightarrow> sqliteDriver \<Rightarrow> string \<Rightarrow> bytes \<Rightarrow> fs \<Rightarrow> bool" where
  "saved cr drv path key d \<longleftrightarrow>
     (\<exists>f. d (path @ keyFileSuffix) = Some f \<and> fdata f = key) \<and>
     (\<exists>f s0. d path = Some f \<and> store_wf s0 \<and> st_key s0 = key \<and> store_image cr drv s0 (fdata f))"

definition life_inv :: "crypto \<Rightarrow> sqliteDriver \<Rightarrow> string \<Rightarrow> Store \<times> fs \<Rightarrow> bool" where
  "life_inv cr drv path w \<longleftrightarrow> store_wf (fst w) \<and> st_queuePath (fst w) = path
     \<and> saved cr drv path (st_key (fst w)) (snd w)"

lemma key_path_other: "path @ keyFileSuffix \<noteq> path"
  by (simp add: keyFileSuffix_def)

lemma suffix_nonempty [simp]: "keyFileSuffix \<noteq> []"
  by (simp add: keyFileSuffix_def)

lemma persist_saved:
  assumes "saved cr drv path (st_key s) d" "store_wf s" "st_queuePath s = path"
  shows "saved cr drv path (st_key s) (snd (store_persistLocked cr drv env s d))"
proof -
  from assms obtain f g s0 where k: "d (path @ keyFileSuffix) = Some f" "fdata f = st_key s"
    and q: "d path = Some g" "store_wf s0" "st_key s0 = st_key s" "store_image cr drv s0 (fdata g)"
    by (auto simp: saved_def)
  have "snd (store_persistLocked cr drv env s d) (path @ keyFileSuffix) = Some f"
    using sq.persist_frame [of d "path @ keyFileSuffix" s cr drv env] k(1) assms(3) key_path_other
    by simp
  moreover have
 "\<exists>f s1. snd (store_persistLocked cr drv env s d) path = Some f \<and> store_wf s1
      \<and> st_key s1 = st_key s \<and> store_image cr drv s1 (fdata f)"
    using sq.persist_old_or_new [of d s cr drv env] q assms(2,3)
    by (metis fileRec.select_convs(1) option.distinct(1))
  ultimately show ?thesis using k(2) by (auto simp: saved_def)
qed

text \<open>Every operation leaves the disk alone or saves the state it produced.\<close>

lemma store_step_disk:
  assumes "store_step cr drv w w'"
  shows "st_key (fst w') = st_key (fst w) \<and> st_queuePath (fst w') = st_queuePath (fst w)
    \<and> (snd w' = snd w \<or> (\<exists>env. snd w' = snd (store_persistLocked cr drv env (fst w') (snd w))))"
  using assms
  by (induction rule: store_step.induct)
    (auto simp: Enqueue_def DrainQueue_def purgeExpired_def Register_def Unregister_def Stop_def Let_def
      split: prod.splits sum.splits)

lemma store_step_life:
  assumes "store_step cr drv w w'" "life_inv cr drv path w"
  shows "life_inv cr drv path w'"
  using store_step_disk [OF assms(1)] store_step_wf [OF assms(1)] assms(2)
    persist_saved [of cr drv path "fst w'" "snd w"]
  by (auto simp: life_inv_def)

lemma initSchema_life:
  assumes "initSchema cr drv env s d = (Inr s', d')" "length (st_key s) = 32" "st_clients s = []"
    and "d (st_queuePath s @ keyFileSuffix) = Some f" "fdata f = st_key s"
  shows "life_inv cr drv (st_queuePath s) (s', d')"
proof -
  have s': "s' = s\<lparr>st_db := sqlCreate\<rparr>"
    and p: "store_persistLocked cr drv (se_persist env) s' d = (None, d')"
    using assms(1) by (auto simp: initSchema_def Let_def split: option.splits prod.splits)
  have wf: "store_wf s'"
    using assms(2,3) by (simp add: s' store_wf_def qt.wf_create qt.box_create maxQueuePerRecipient_def)
  have "d' (st_queuePath s @ keyFileSuffix) = Some f"
    using sq.persist_frame [of d "st_queuePath s @ keyFileSuffix" s' cr drv "se_persist env"] p assms(4)
    by (simp add: s' key_path_other)
  moreover from sq.persist_ok [OF p] obtain b where "store_image cr drv s' b"
    "d' (st_queuePath s) = Some \<lparr>fdata = b, fmode = mode0600\<rparr>" by (auto simp: s')
  ultimately show ?thesis
    using wf assms(5) by (auto simp: life_inv_def saved_def s')
qed

lemma NewStore_cases:
  assumes "NewStore cr drv env d path ttl = (Inr s, d')"
  obtains key d1 where "loadOrCreateKey (se_key env) d (path @ keyFileSuffix) = (Inr key, d1)"
    "store_loadFromDisk cr drv env \<lparr>st_clients = [], st_db = sqlCreate, st_queuePath = path,
       st_key = key, st_ttl = seconds ttl, st_stopped = False\<rparr> d1 = (Inr s, d')"
  using assms by (auto simp: NewStore_def split: option.splits prod.splits sum.splits)

lemma NewStore_first:
  assumes "NewStore cr drv env Map.empty path ttl = (Inr s, d)"
  shows "life_inv cr drv path (s, d)"
  using assms
proof (cases rule: NewStore_cases)
  case (1 key d1)
  let ?s0 = "\<lparr>st_clients = [], st_db = sqlCreate, st_queuePath = path,
       st_key = key, st_ttl = seconds ttl, st_stopped = False\<rparr>"
  from 1(1) obtain f where f: "d1 (path @ keyFileSuffix) = Some f" "fdata f = key"
    by (auto simp: loadOrCreateKey_def readFile_def Let_def writeFile_def
        split: option.splits if_splits prod.splits writeOutcome.splits)
  have "d1 path = None"
    using loadOrCreateKey_frame [of path "path @ keyFileSuffix" "se_key env" Map.empty] 1(1)
      key_path_other [of path] by simp
  with 1(2) have "initSchema cr drv env ?s0 d1 = (Inr s, d)"
    by (auto simp: store_loadFromDisk_def readFile_def split: option.splits if_splits)
  from initSchema_life [OF this] f loadOrCreateKey_length [OF 1(1)] show ?thesis by simp
qed

lemma NewStore_again:
  assumes "gcm_correct cr" "driver_correct drv" "honest env"
    and "saved cr drv path key d" "NewStore cr drv env d path ttl = (Inr s, d')"
  shows "life_inv cr drv path (s, d')"
  using assms(5)
proof (cases rule: NewStore_cases)
  case (1 key' d1)
  let ?s0 = "\<lparr>st_clients = [], st_db = sqlCreate, st_queuePath = path,
       st_key = key', st_ttl = seconds ttl, st_stopped = False\<rparr>"
  from assms(4) obtain f g s0 where k: "d (path @ keyFileSuffix) = Some f" "fdata f = key"
    and q: "d path = Some g" "store_wf s0" "st_key s0 = key" "store_image cr drv s0 (fdata g)"
    by (auto simp: saved_def)
  from 1(1) k assms(3) have key: "key' = key" "d1 = d"
    by (auto simp: loadOrCreateKey_def readFile_def honest_def split: option.splits if_splits)
  from 1(2) q(1) assms(3) have r: "se_read env = None"
    by (auto simp: store_loadFromDisk_def readFile_def honest_def key split: option.splits if_splits)
  have "store_loadFromDisk cr drv env ?s0 d = (Inr (?s0\<lparr>st_db := st_db s0\<rparr>), d)"
    using q by (intro load_image [OF assms(1,2) q(4) _ refl]) (simp_all add: key r)
  with 1(2) key have "s = ?s0\<lparr>st_db := st_db s0\<rparr>" "d' = d" by auto
  with q assms(4) key show ?thesis by (simp add: life_inv_def store_wf_def)
qed

text \<open>A start without faults on the two files of a store opens the saved database.\<close>

definition start_clean :: "storeEnv \<Rightarrow> bool" where
  "start_clean env \<longleftrightarrow> se_mkdir env = None \<and> ke_read (se_key env) = None \<and> se_open env = None
     \<and> se_conn env = None \<and> se_read env = None"

lemma reopen_image:
  assumes "gcm_correct cr" "driver_correct drv" "start_clean env"
    and "d (path @ keyFileSuffix) = Some g" "fdata g = st_key s0" "length (st_key s0) = 32"
    and "store_image cr drv s0 b" "d path = Some \<lparr>fdata = b, fmode = m\<rparr>"
  shows "NewStore cr drv env d path ttl = (Inr \<lparr>st_clients = [], st_db = st_db s0, st_queuePath = path,
     st_key = st_key s0, st_ttl = seconds ttl, st_stopped = False\<rparr>, d)"
proof -
  let ?s0 = "\<lparr>st_clients = [], st_db = sqlCreate, st_queuePath = path, st_key = st_key s0,
     st_ttl = seconds ttl, st_stopped = False\<rparr>"
  have "loadOrCreateKey (se_key env) d (path @ keyFileSuffix) = (Inr (st_key s0), d)"
    using assms by (simp add: loadOrCreateKey_def readFile_def start_clean_def)
  moreover have "store_loadFromDisk cr drv env ?s0 d = (Inr (?s0\<lparr>st_db := st_db s0\<rparr>), d)"
    using assms by (intro load_image [OF assms(1,2,7), where f = "\<lparr>fdata = b, fmode = m\<rparr>"]) (simp_all add: start_clean_def)
  ultimately show ?thesis using assms(3) by (simp add: NewStore_def start_clean_def)
qed

lemma store_life_inv:
  assumes "gcm_correct cr" "driver_correct drv" "store_life cr drv path w"
  shows "life_inv cr drv path w"
  using assms(3)
proof (induction rule: store_life.induct)
  case (first env ttl s d)
  then show ?case by (rule NewStore_first)
next
  case (serves w w')
  then show ?case using store_step_life by blast
next
  case (again s d d' env ttl s' d'')
  then have "saved cr drv path (st_key s) d'"
    by (simp add: life_inv_def saved_def)
  then show ?case using NewStore_again [OF assms(1,2) again(4) _ again(5)] by blast
qed

section \<open>Properties\<close>

text \<open>
  C8: The offline queue is first-in first-out and complete: messages enqueued for a
  recipient, in any number up to the cap, come back from the next drain in order, each
  with its expiry stamp and otherwise unchanged, after the live messages that were
  already there; and the drain empties the mailbox.
\<close>

theorem drain_delivers_in_order:
  assumes "gcm_correct cr" "store_wf s" "\<not> st_stopped s" "drain_clean denv"
    and "\<forall>e \<in> set es. enq_ok (unix (de_now denv)) s e"
    and "int (length (mailbox (st_db s) rid) + length es) \<le> maxQueuePerRecipient"
    and "db_seq (st_db s) + int (length es) < 2 ^ 63"
    and "DrainQueue cr drv denv (enqueueAll cr drv rid es (s, disk)) rid = (msgs, s', disk')"
  shows "msgs = pending cr (unix (de_now denv)) s rid @ map (stamped s) es
    \<and> mailbox (st_db s') rid = []"
proof -
  let ?w = "enqueueAll cr drv rid es (s, disk)"
  note ep = enqueueAll_pending [OF assms(1-3,5-7), of drv disk]
  then have "\<not> st_stopped (fst ?w)" "table_wf (st_db (fst ?w))" by (simp_all add: store_wf_def)
  with assms(4,8) DrainQueue_clean [of "fst ?w" denv cr drv "snd ?w" rid] ep show ?thesis
    by (auto simp: qt.box_delete)
qed

text \<open>
  Over the whole life of a store (operations under arbitrary faults, crashes and
  restarts in any order) no recipient ever has more than 500 messages queued, and no
  user has two registered connections.
\<close>

theorem mailbox_capped:
  assumes "gcm_correct cr" "driver_correct drv" "store_life cr drv path (s, d)"
  shows "length (mailbox (st_db s) rid) \<le> 500 \<and> distinct (map fst (st_clients s))"
proof -
  have "int (length (mailbox (st_db s) rid)) \<le> 500 \<and> gm_wf (st_clients s)"
    using store_life_inv [OF assms] by (simp add: life_inv_def store_wf_def maxQueuePerRecipient_def)
  then show ?thesis by (simp add: gm_wf_def)
qed

text \<open>
  C20: Durability.  Once a state has been persisted, a restart on the resulting disk
  succeeds, writes nothing, and every recipient's pending messages are what they were.
\<close>

theorem restart_restores:
  assumes "gcm_correct cr" "driver_correct drv" "store_life cr drv path (s, d)"
    and "store_persistLocked cr drv env s d = (None, d')"
    and "se_mkdir env' = None" "ke_read (se_key env') = None" "se_open env' = None"
      "se_conn env' = None" "se_read env' = None"
  shows "\<exists>s'. NewStore cr drv env' d' path ttl = (Inr s', d') \<and> st_clients s' = []
    \<and> (\<forall>now rid. pending cr now s' rid = pending cr now s rid)"
proof -
  have inv: "store_wf s" "st_queuePath s = path" "saved cr drv path (st_key s) d"
    using store_life_inv [OF assms(1-3)] by (simp_all add: life_inv_def)
  from persist_saved [OF inv(3,1,2), of env] assms(4) obtain f where
    k: "d' (path @ keyFileSuffix) = Some f" "fdata f = st_key s" by (auto simp: saved_def)
  from sq.persist_ok [OF assms(4)] obtain b where
    b: "store_image cr drv s b" "d' path = Some \<lparr>fdata = b, fmode = mode0600\<rparr>"
    by (auto simp: inv(2))
  have len: "length (st_key s) = 32" using inv(1) by (simp add: store_wf_def)
  have "start_clean env'" using assms(5-9) by (simp add: start_clean_def)
  from reopen_image [OF assms(1,2) this k len b] show ?thesis by (simp add: pending_def)
qed

text \<open>
  C32: Crash safety of a save.  In whatever state an interrupted replacement of the queue
  file leaves the disk, the queue file holds its old contents or the complete new ones,
  and every other existing file is untouched.
\<close>

theorem save_is_atomic:
  assumes "createTemp disk (filepathDir path) pre (pe_names env) = Some tmp"
    and "crash_state disk path tmp sealed d" "disk path = Some f"
  shows "(d path = Some f \<or> d path = Some \<lparr>fdata = sealed, fmode = mode0600\<rparr>)
    \<and> (\<forall>p g. p \<noteq> path \<longrightarrow> disk p = Some g \<longrightarrow> d p = Some g)
    \<and> crash_state disk path tmp sealed (snd (replaceFile env disk path pre sealed))"
proof -
  have fresh: "disk tmp = None" using createTemp_fresh [OF assms(1)] .
  then have "tmp \<noteq> path" using assms(3) by auto
  with crash_state_target [OF assms(2) fresh] crash_state_frame [OF assms(2)] fresh assms(3)
    replaceFile_crash_state [OF assms(1)]
  show ?thesis by fastforce
qed

text \<open>
  A drain that fails (beginning the transaction, querying, deleting or committing)
  returns nothing and leaves the store and the disk exactly as they were.
\<close>

theorem failed_drain_rolls_back:
  assumes "de_begin env \<noteq> None \<or> de_query env \<noteq> None \<or> de_delete env \<noteq> None \<or> de_commit env \<noteq> None"
  shows "DrainQueue cr drv env (s, disk) rid = ([], s, disk)"
  using assms by (auto intro: DrainQueue_rollback)

text \<open>
  A mailbox with 500 live messages silently drops a further one: nothing but the
  removal of that recipient's expired entries happens, and what a drain would return
  stays the same.
\<close>

theorem full_mailbox_drops:
  assumes "store_wf s" "\<not> st_stopped s" "enq_clean env"
    and "500 \<le> length (filter (\<lambda>(p, x). ee_epoch env \<le> x) (mailbox (st_db s) rid))"
    and "ee_epoch env \<le> now" "Enqueue cr drv env (s, disk) rid m = (s', disk')"
  shows "disk' = disk \<and> st_db s' = sqlDeleteExpiredFor rid (ee_epoch env) (st_db s)
    \<and> pending cr now s' rid = pending cr now s rid"
proof -
  have "maxQueuePerRecipient
      \<le> int (length (filter (\<lambda>(p, x). ee_epoch env \<le> x) (mailbox (st_db s) rid)))"
    using assms(4) by (simp add: maxQueuePerRecipient_def)
  from Enqueue_overflow [OF assms(1-3) this, of cr drv disk m] assms(1,5,6) show ?thesis
    by (auto simp: pending_def qt.box_expire_for store_wf_def drainRows_expired)
qed

text \<open>
  Mailboxes are isolated: enqueueing for one recipient, or draining one recipient,
  under any faults, leaves what every other recipient has pending unchanged.
\<close>

theorem mailboxes_isolated:
  assumes "store_wf s" "rid' \<noteq> rid"
  shows "pending cr now (fst (Enqueue cr drv env (s, disk) rid m)) rid' = pending cr now s rid'
    \<and> pending cr now (fst (snd (DrainQueue cr drv denv (s, disk) rid))) rid' = pending cr now s rid'"
proof -
  have "mailbox (sqlDeleteFor rid (st_db s)) rid' = mailbox (st_db s) rid'"
    using assms by (simp add: qt.box_delete store_wf_def)
  then show ?thesis
    using Enqueue_frame [OF assms]
    by (simp add: pending_def frame_simps DrainQueue_def Let_def)
qed

text \<open>
  The background purge loses no live message: after any number of purges whose
  clocks are not ahead of \<open>now\<close>, every recipient's pending messages at \<open>now\<close> are unchanged.
\<close>

theorem purge_keeps_live:
  assumes "store_wf (fst w)" "\<forall>env. Some env \<in> set evs \<longrightarrow> pu_epoch env \<le> now"
  shows "pending cr now (fst (purgeLoop cr drv evs w)) rid = pending cr now (fst w) rid"
  using assms
proof (induction cr drv evs w rule: purgeLoop.induct)
  case (3 cr drv env evs w)
  obtain s disk where w: "w = (s, disk)" by (cases w)
  have "pending cr now (fst (purgeExpired cr drv env w)) rid = pending cr now s rid"
    using 3(2,3) by (simp add: w purgeExpired_def Let_def pending_def qt.box_expire_all store_wf_def
        drainRows_expired)
  moreover have "store_wf (fst (purgeExpired cr drv env w))"
    using 3(2) by (simp add: w purgeExpired_wf)
  ultimately show ?case using 3 by (simp add: w)
qed simp_all

text \<open>
  C37: A queue file that does not authenticate under the key in the key file is refused:
  whatever else goes wrong, start-up returns an error and leaves the whole disk as it was, so
  that neither the file nor the key is replaced; and if nothing else goes wrong, the error is
  the failed authentication.
\<close>

theorem tampered_queue_refused:
  assumes "disk path = Some f" "disk (path @ keyFileSuffix) = Some k" "gcmNonceSize \<le> length (fdata f)"
    and "gcmOpen cr (fdata k) (take gcmNonceSize (fdata f)) (drop gcmNonceSize (fdata f)) = None"
    and "honest env" "NewStore cr drv env disk path ttl = (r, disk')"
  shows "(\<exists>e. r = Inl e) \<and> disk' = disk
    \<and> (start_clean env \<and> length (fdata k) = 32 \<longrightarrow> r = Inl (ErrMsg ''queue authentication failed''))"
proof -
  let ?s0 = "\<lparr>st_clients = [], st_db = sqlCreate, st_queuePath = path, st_key = fdata k, st_ttl = seconds ttl, st_stopped = False\<rparr>"
  have "fdata f \<noteq> []" using assms(3) by (auto simp: gcmNonceSize_def)
  then have refused: "isl (fst (store_loadFromDisk cr drv env ?s0 disk))" "snd (store_loadFromDisk cr drv env ?s0 disk) = disk"
      "se_read env = None \<Longrightarrow> length (fdata k) = 32 \<Longrightarrow>
        store_loadFromDisk cr drv env ?s0 disk = (Inl (ErrMsg ''queue authentication failed''), disk)"
    using assms(1,3-5)
    by (auto simp: store_loadFromDisk_def readFile_def honest_def newCipher_def split: option.split)
  have key: "loadOrCreateKey (se_key env) disk (path @ keyFileSuffix) =
      (case ke_read (se_key env) of Some e \<Rightarrow> Inl e
       | None \<Rightarrow> if length (fdata k) \<noteq> 32 then Inl (ErrMsg ''invalid key file length'') else Inr (fdata k), disk)"
    using assms(2,5) by (auto simp: loadOrCreateKey_def readFile_def honest_def split: option.split)
  have "isl (fst (NewStore cr drv env disk path ttl)) \<and> snd (NewStore cr drv env disk path ttl) = disk
    \<and> (start_clean env \<and> length (fdata k) = 32 \<longrightarrow>
         fst (NewStore cr drv env disk path ttl) = Inl (ErrMsg ''queue authentication failed''))"
    using refused by (simp add: NewStore_def key start_clean_def split: option.split sum.split)
  with assms(6) show ?thesis by (simp add: isl_def)
qed

text \<open>
  A message queued by a store opened with a positive TTL below 2^63 nanoseconds
  expires exactly that many seconds after it was queued.
\<close>

theorem expiry_is_now_plus_ttl:
  assumes "0 < ttl" "ttl * 1000000000 < 2 ^ 63"
    and "NewStore cr drv senv disk path ttl = (Inr s, disk')"
  shows "expiry env s = unix (ee_now env) + ttl"
proof -
  from assms(3) have "st_ttl s = seconds ttl"
    by (cases rule: NewStore_cases)
      (auto simp: store_loadFromDisk_def initSchema_def Let_def
        split: sum.splits if_splits option.splits prod.splits)
  moreover have "sint (seconds ttl) = ttl * 1000000000"
    using assms(1,2) by (intro sint_seconds) auto
  ultimately show ?thesis by (simp add: expiry_def time_add_def unix_def)
qed

text \<open>
  A TTL the configuration accepts can overflow the 64-bit nanosecond count: with
  9223372037 seconds (292 years) a message is stamped as expired centuries ago, so it is
  dropped by the next drain instead of being kept for long.
\<close>

theorem huge_ttl_expires_at_once:
  assumes "st_ttl s = seconds 9223372037"
  shows "expiry env s < unix (ee_now env) - 9000000000"
proof -
  have "sint (seconds 9223372037) = - 9223372036709551616" by (simp add: seconds_def)
  with assms show ?thesis by (simp add: expiry_def time_add_def unix_def)
qed

text \<open>
  The registry keeps one connection per user, the last one registered: the cleanup
  of a displaced connection does not remove its successor, and registration reports the
  connection it displaces.
\<close>

theorem stale_unregister_keeps_new:
  assumes "c1 \<noteq> c2"
  shows "fst (Register (snd (Register s u c1)) u c2) = Some c1
    \<and> LookupClient (Unregister (snd (Register (snd (Register s u c1)) u c2)) u c1) u = Some c2
    \<and> LookupClient (Unregister (snd (Register s u c1)) u c1) u = None"
  using assms by (simp add: Register_def Unregister_def LookupClient_def)

text \<open>
  A drain never asks whether reading the rows ended because of an error.  If it did,
  the rows not yet read are neither returned nor kept.
\<close>

theorem unread_rows_are_lost:
  assumes "store_wf s" "\<not> st_stopped s" "de_begin env = None" "de_query env = None"
    and "de_delete env = None" "de_commit env = None" "de_rows env = Some 0"
    and "DrainQueue cr drv env (s, disk) rid = (msgs, s', disk')"
  shows "msgs = [] \<and> mailbox (st_db s') rid = []"
  using assms by (auto simp: DrainQueue_def Let_def qt.box_delete store_wf_def)

text \<open>
  A key file cut short blocks every later start.  The key is not written through a
  temporary file like the queue, so a write that stops half-way during the first start
  leaves a truncated key file, and every further start fails on it and changes nothing,
  although no message was ever encrypted with that key.
\<close>

theorem torn_key_blocks_start:
  assumes "ke_write (se_key env) = WriteStops n e" "n < 32"
    and "se_mkdir env = None" "ke_read (se_key env) = None" "ke_mkdir (se_key env) = None" "32 \<le> length (ke_rand (se_key env))"
    and "NewStore cr drv env Map.empty path ttl = (res, d)"
    and "se_mkdir env' = None" "ke_read (se_key env') = None"
  shows "res = Inl e \<and> NewStore cr drv env' d path ttl' = (Inl (ErrMsg ''invalid key file length''), d)"
  using assms by (auto simp: NewStore_def loadOrCreateKey_def readFile_def writeFile_def Let_def)

section \<open>A concrete store\<close>

text \<open>
  A driver that can serialise the databases it is given, as their position in the list.
\<close>

definition tableDriver :: "sqlDB list \<Rightarrow> sqliteDriver" where
  "tableDriver ts = \<lparr>
     drv_Serialize = Method (\<lambda>t. let i = length (takeWhile (\<lambda>x. x \<noteq> t) ts) in
       if i < length ts then Inr (replicate i CHR ''x'') else Inl ErrIO),
     drv_Deserialize = Method (\<lambda>b. if length b < length ts then Inr (ts ! length b) else Inl ErrIO)\<rparr>"

lemma tableDriver_correct: "driver_correct (tableDriver ts)"
  by (auto simp: driver_correct_def serializeDB_def deserializeDB_def tableDriver_def Let_def
      dest: nth_length_takeWhile split: if_splits)

definition demo_persist :: persistEnv where
  "demo_persist = \<lparr>pe_rand = replicate 12 CHR ''n'', pe_names = [''1'', ''2''], pe_create = ErrIO, pe_write = None,
     pe_chmod = None, pe_close = None, pe_rename = None, pe_remove = True\<rparr>"

definition demo_start :: storeEnv where
  "demo_start = \<lparr>se_mkdir = None,
     se_key = \<lparr>ke_read = None, ke_rand = replicate 32 CHR ''k'', ke_mkdir = None, ke_write = WriteOk\<rparr>,
     se_open = None, se_conn = None, se_read = None, se_schema = None, se_persist = demo_persist\<rparr>"

definition demo_store :: Store where
  "demo_store = \<lparr>st_clients = [], st_db = sqlCreate, st_queuePath = ''q'',
     st_key = replicate 32 CHR ''k'', st_ttl = seconds 604800, st_stopped = False\<rparr>"

definition demo_enq :: enqEnv where
  "demo_enq = \<lparr>ee_delete = None, ee_epoch = 0, ee_count = None, ee_now = 0,
     ee_rand = replicate 12 CHR ''n'', ee_insert = None, ee_persist = demo_persist\<rparr>"

definition demo_drain :: drainEnv where
  "demo_drain = \<lparr>de_begin = None, de_query = None, de_now = 0, de_rows = None, de_scan = (\<lambda>_. False),
     de_delete = None, de_commit = None, de_persist = demo_persist\<rparr>"

definition demo_msg :: queuedMessage where
  "demo_msg = \<lparr>qm_Sealed = Some \<lparr>se_RecipientID = ''bob'', se_Ciphertext = ''c'', se_TimestampMS = 1,
     se_ID = ''i'', se_FederationSenderRelay = []\<rparr>, qm_Open = None, qm_ExpiresAt = 0\<rparr>"

definition demo_db :: sqlDB where
  "demo_db = st_db (fst (Enqueue plainCrypto (tableDriver []) demo_enq (demo_store, Map.empty) ''bob'' demo_msg))"

definition demo_drv :: sqliteDriver where
  "demo_drv = tableDriver [sqlCreate, demo_db]"

text \<open>The first start, and the state after one message for bob.\<close>

definition demo_first :: "Store \<times> fs" where
  "demo_first = (demo_store, snd (NewStore plainCrypto demo_drv demo_start Map.empty ''q'' 604800))"

definition demo_next :: "Store \<times> fs" where
  "demo_next = Enqueue plainCrypto demo_drv demo_enq demo_first ''bob'' demo_msg"

lemma demo_wf: "store_wf demo_store" "\<not> st_stopped demo_store" "enq_clean demo_enq"
  "drain_clean demo_drain" "unix (de_now demo_drain) = 0"
  by (simp_all add: demo_store_def store_wf_def qt.wf_create qt.box_create maxQueuePerRecipient_def
      enq_clean_def demo_enq_def gcmNonceSize_def drain_clean_def demo_drain_def unix_def)

lemma demo_box: "mailbox (st_db demo_store) rid = []" "db_seq (st_db demo_store) = 0"
  by (simp_all add: demo_store_def qt.box_create) (simp add: sqlCreate_def)

lemma demo_empty: "pending cr now demo_store rid = []"
  by (simp add: pending_def demo_box)

lemma demo_expiry: "expiry demo_enq demo_store = 604800"
  by (simp add: expiry_def demo_store_def demo_enq_def time_add_def sint_seconds unix_def)

lemma demo_enq_ok: "enq_ok 0 demo_store (demo_enq, demo_msg)"
proof -
  have "valid_utf8 ''bob''" "valid_utf8 ''i''"
    by (rule valid_utf8_key, simp add: code_def)+
  then show ?thesis
    using demo_wf demo_expiry
    by (simp add: enq_ok_def demo_msg_def message_wf_def sealed_wf_def int64_ok_def) (simp add: demo_enq_def)
qed

lemma demo_serialize: "serializeDB demo_drv sqlCreate = Inr []" "\<exists>b. serializeDB demo_drv demo_db = Inr b"
  by (simp_all add: demo_drv_def serializeDB_def tableDriver_def)

text \<open>On a disk that holds only the two files of the store, a save succeeds.\<close>

lemma demo_save:
  assumes "\<exists>b. serializeDB demo_drv (st_db s) = Inr b" "length (st_key s) = 32" "st_queuePath s = ''q''"
    and "\<not> st_stopped s" "d ''./queue-1.tmp'' = None"
  shows "\<exists>d'. store_persistLocked plainCrypto demo_drv demo_persist s d = (None, d')
    \<and> d' ''./queue-1.tmp'' = None"
proof -
  have "filepathDir ''q'' = ''.''" "tempName ''.'' ''queue-'' ''1'' = ''./queue-1.tmp''" by code_simp+
  with assms show ?thesis
    by (auto simp: store_persistLocked_def encrypt_def newCipher_def demo_persist_def gcmNonceSize_def
        replaceFile_def createTemp_def renameFile_def Let_def)
qed

lemma demo_first_start:
  "NewStore plainCrypto demo_drv demo_start Map.empty ''q'' 604800 = (Inr demo_store, snd demo_first)"
  "snd demo_first ''./queue-1.tmp'' = None"
proof -
  let ?d = "[''q.key'' \<mapsto> \<lparr>fdata = replicate 32 CHR ''k'', fmode = mode0600\<rparr>]"
  obtain d' where "store_persistLocked plainCrypto demo_drv demo_persist demo_store ?d = (None, d')"
    "d' ''./queue-1.tmp'' = None"
    using demo_save [of demo_store ?d] demo_serialize(1) by (auto simp: demo_store_def)
  then have "NewStore plainCrypto demo_drv demo_start Map.empty ''q'' 604800 = (Inr demo_store, d')"
    "d' ''./queue-1.tmp'' = None"
    by (simp_all add: NewStore_def demo_start_def loadOrCreateKey_def readFile_def writeFile_def
        keyFileSuffix_def store_loadFromDisk_def initSchema_def demo_store_def Let_def)
  then show "NewStore plainCrypto demo_drv demo_start Map.empty ''q'' 604800 = (Inr demo_store, snd demo_first)"
    "snd demo_first ''./queue-1.tmp'' = None"
    by (simp_all add: demo_first_def)
qed

definition demo_cipher :: bytes where
  "demo_cipher = replicate 12 CHR ''n'' @ marshalMessage (demo_msg\<lparr>qm_ExpiresAt := 604800\<rparr>)"

lemma demo_insert:
  "encrypt plainCrypto (st_key demo_store) (ee_rand demo_enq) (marshalMessage (demo_msg\<lparr>qm_ExpiresAt := 604800\<rparr>))
     = Inr demo_cipher"
  "sqlInsert ''bob'' demo_cipher 604800 (sqlDeleteExpiredFor ''bob'' 0 sqlCreate) = Inr demo_db"
  "\<not> maxQueuePerRecipient \<le> sqlCountFor ''bob'' (sqlDeleteExpiredFor ''bob'' 0 sqlCreate)"
proof -
  show enc: "encrypt plainCrypto (st_key demo_store) (ee_rand demo_enq) (marshalMessage (demo_msg\<lparr>qm_ExpiresAt := 604800\<rparr>))
     = Inr demo_cipher"
    by (simp add: encrypt_def newCipher_def demo_store_def demo_enq_def gcmNonceSize_def plainCrypto_def demo_cipher_def)
  show room: "\<not> maxQueuePerRecipient \<le> sqlCountFor ''bob'' (sqlDeleteExpiredFor ''bob'' 0 sqlCreate)"
    by (simp add: sqlCountFor_def sqlDeleteExpiredFor_def sqlCreate_def maxQueuePerRecipient_def)
  obtain db2 where db2: "sqlInsert ''bob'' demo_cipher 604800 (sqlDeleteExpiredFor ''bob'' 0 sqlCreate) = Inr db2"
    by (simp add: sqlInsert_def sqlDeleteExpiredFor_def sqlCreate_def)
  have "demo_db = db2"
    using enc room db2 demo_expiry
    by (simp add: demo_db_def Enqueue_def Let_def expiry_def) (simp add: demo_enq_def demo_store_def Let_def)
  with db2 show "sqlInsert ''bob'' demo_cipher 604800 (sqlDeleteExpiredFor ''bob'' 0 sqlCreate) = Inr demo_db" by simp
qed

lemma demo_enqueue:
  "Enqueue plainCrypto drv demo_enq (demo_store, d) ''bob'' demo_msg
     = (demo_store\<lparr>st_db := demo_db\<rparr>,
        snd (store_persistLocked plainCrypto drv demo_persist (demo_store\<lparr>st_db := demo_db\<rparr>) d))"
  using demo_insert demo_expiry
  by (simp add: Enqueue_def Let_def expiry_def) (simp add: demo_enq_def demo_store_def Let_def)

lemma demo_next_save:
  "\<exists>d'. store_persistLocked plainCrypto demo_drv demo_persist (fst demo_next) (snd demo_next) = (None, d')"
proof -
  obtain d1 where d1: "store_persistLocked plainCrypto demo_drv demo_persist
      (demo_store\<lparr>st_db := demo_db\<rparr>) (snd demo_first) = (None, d1)" "d1 ''./queue-1.tmp'' = None"
    using demo_save [of "demo_store\<lparr>st_db := demo_db\<rparr>" "snd demo_first"] demo_serialize(2)
      demo_first_start(2) by (auto simp: demo_store_def)
  then have nx: "demo_next = (demo_store\<lparr>st_db := demo_db\<rparr>, d1)"
    by (simp add: demo_next_def demo_first_def demo_enqueue)
  have "\<exists>d'. store_persistLocked plainCrypto demo_drv demo_persist (demo_store\<lparr>st_db := demo_db\<rparr>) d1 = (None, d')"
    using demo_save [of "demo_store\<lparr>st_db := demo_db\<rparr>" d1] demo_serialize(2) d1(2)
    by (auto simp: demo_store_def)
  then show ?thesis by (simp add: nx)
qed

lemma demo_life: "store_life plainCrypto demo_drv ''q'' demo_first"
  "store_life plainCrypto demo_drv ''q'' demo_next"
proof -
  show 1: "store_life plainCrypto demo_drv ''q'' demo_first"
    using store_life.first [OF demo_first_start(1)] by (simp add: demo_first_def)
  show "store_life plainCrypto demo_drv ''q'' demo_next"
    unfolding demo_next_def by (rule store_life.serves [OF 1 store_step.enqueue])
qed

lemma demo_drv_correct: "driver_correct demo_drv"
  by (simp add: demo_drv_def tableDriver_correct)

text \<open>A store whose recipient bob has 500 live messages.\<close>

definition full_store :: Store where
  "full_store = demo_store\<lparr>st_db := \<lparr>db_rows = map (\<lambda>i. \<lparr>row_id = int i, row_recipient = ''bob'',
     row_payload = [], row_expires = 10\<rparr>) [0..<500], db_seq = 500\<rparr>\<rparr>"

lemma full_table: "table_wf (st_db full_store)"
  by (simp add: table_wf_def full_store_def sorted_wrt_map comp_def)

lemma full_box: "mailbox (st_db full_store) rid = (if rid = ''bob'' then replicate 500 ([], 10) else [])"
  using full_table
  by (simp add: mailbox_def select_plain) (simp add: full_store_def filter_map comp_def map_replicate_const)

lemma full_wf: "store_wf full_store"
  using full_table full_box by (simp add: store_wf_def) (simp add: full_store_def demo_store_def maxQueuePerRecipient_def)

subsection \<open>Witnesses\<close>

theorem drain_delivers_in_order_witness:
  "fst (DrainQueue plainCrypto demo_drv demo_drain
     (enqueueAll plainCrypto demo_drv ''bob'' [(demo_enq, demo_msg), (demo_enq, demo_msg)]
        (demo_store, Map.empty)) ''bob'')
   = [demo_msg\<lparr>qm_ExpiresAt := 604800\<rparr>, demo_msg\<lparr>qm_ExpiresAt := 604800\<rparr>]"
proof -
  let ?es = "[(demo_enq, demo_msg), (demo_enq, demo_msg)]"
  let ?r = "DrainQueue plainCrypto demo_drv demo_drain
     (enqueueAll plainCrypto demo_drv ''bob'' ?es (demo_store, Map.empty)) ''bob''"
  have box: "mailbox (st_db demo_store) ''bob'' = []" by (simp add: demo_store_def qt.box_create)
  have "fst ?r = pending plainCrypto (unix (de_now demo_drain)) demo_store ''bob'' @ map (stamped demo_store) ?es
      \<and> mailbox (st_db (fst (snd ?r))) ''bob'' = []"
    by (rule drain_delivers_in_order [where disk = Map.empty and drv = demo_drv and disk' = "snd (snd ?r)"])
      (simp_all add: plainCrypto_gcm demo_wf demo_enq_ok box maxQueuePerRecipient_def,
        simp add: demo_store_def sqlCreate_def)
  then show ?thesis by (simp add: pending_def box stamped_def demo_expiry)
qed

theorem mailbox_capped_witness:
  "length (mailbox (st_db (fst demo_next)) ''bob'') \<le> 500 \<and> distinct (map fst (st_clients (fst demo_next)))"
  by (rule mailbox_capped [OF plainCrypto_gcm demo_drv_correct, of "''q''" _ "snd demo_next"])
    (simp add: demo_life)

theorem restart_restores_witness:
  "\<exists>d' s'. NewStore plainCrypto demo_drv demo_start d' ''q'' 604800 = (Inr s', d') \<and> st_clients s' = []
    \<and> (\<forall>now rid. pending plainCrypto now s' rid = pending plainCrypto now (fst demo_next) rid)"
proof -
  obtain d' where d': "store_persistLocked plainCrypto demo_drv demo_persist (fst demo_next) (snd demo_next)
      = (None, d')" using demo_next_save by blast
  have "\<exists>s'. NewStore plainCrypto demo_drv demo_start d' ''q'' 604800 = (Inr s', d') \<and> st_clients s' = []
    \<and> (\<forall>now rid. pending plainCrypto now s' rid = pending plainCrypto now (fst demo_next) rid)"
    by (rule restart_restores [OF plainCrypto_gcm demo_drv_correct _ d'])
      (simp_all add: demo_life, simp_all add: demo_start_def)
  then show ?thesis by blast
qed

theorem save_is_atomic_witness:
  "let disk = [''q'' \<mapsto> \<lparr>fdata = ''old'', fmode = mode0600\<rparr>];
       d = disk(''./queue-1.tmp'' \<mapsto> \<lparr>fdata = take 1 ''new'', fmode = mode0600\<rparr>) in
   (d ''q'' = Some \<lparr>fdata = ''old'', fmode = mode0600\<rparr> \<or> d ''q'' = Some \<lparr>fdata = ''new'', fmode = mode0600\<rparr>)
    \<and> (\<forall>p g. p \<noteq> ''q'' \<longrightarrow> disk p = Some g \<longrightarrow> d p = Some g)
    \<and> crash_state disk ''q'' ''./queue-1.tmp'' ''new'' (snd (replaceFile demo_persist disk ''q'' ''queue-'' ''new''))"
proof -
  have "filepathDir ''q'' = ''.''" "tempName ''.'' ''queue-'' ''1'' = ''./queue-1.tmp''" by code_simp+
  then have "createTemp [''q'' \<mapsto> \<lparr>fdata = ''old'', fmode = mode0600\<rparr>] (filepathDir ''q'') ''queue-''
      (pe_names demo_persist) = Some ''./queue-1.tmp''"
    by (simp add: createTemp_def demo_persist_def)
  from save_is_atomic [OF this crash_state.writing [where n = 1]] show ?thesis
    unfolding Let_def by simp
qed

theorem failed_drain_rolls_back_witness:
  "DrainQueue plainCrypto demo_drv (demo_drain\<lparr>de_commit := Some ErrIO\<rparr>) (full_store, Map.empty) ''bob''
     = ([], full_store, Map.empty)"
  by (rule failed_drain_rolls_back) simp

theorem full_mailbox_drops_witness:
  "snd (Enqueue plainCrypto demo_drv demo_enq (full_store, Map.empty) ''bob'' demo_msg) = Map.empty
   \<and> st_db (fst (Enqueue plainCrypto demo_drv demo_enq (full_store, Map.empty) ''bob'' demo_msg))
       = sqlDeleteExpiredFor ''bob'' (ee_epoch demo_enq) (st_db full_store)
   \<and> pending plainCrypto 0 (fst (Enqueue plainCrypto demo_drv demo_enq (full_store, Map.empty) ''bob'' demo_msg)) ''bob''
       = pending plainCrypto 0 full_store ''bob''"
  by (rule full_mailbox_drops [OF full_wf _ demo_wf(3)])
    (simp_all add: full_box, simp_all add: full_store_def demo_store_def demo_enq_def)

theorem mailboxes_isolated_witness:
  "pending plainCrypto 0 (fst (Enqueue plainCrypto demo_drv demo_enq (full_store, Map.empty) ''eve'' demo_msg)) ''bob''
     = pending plainCrypto 0 full_store ''bob''
   \<and> pending plainCrypto 0 (fst (snd (DrainQueue plainCrypto demo_drv demo_drain (full_store, Map.empty) ''eve''))) ''bob''
     = pending plainCrypto 0 full_store ''bob''"
  by (rule mailboxes_isolated [OF full_wf]) simp

theorem purge_keeps_live_witness:
  "pending plainCrypto 5 (fst (purgeLoop plainCrypto demo_drv
      [Some \<lparr>pu_delete = None, pu_epoch = 5, pu_persist = demo_persist\<rparr>, None] (full_store, Map.empty))) ''bob''
     = pending plainCrypto 5 (fst (full_store, Map.empty :: fs)) ''bob''"
  by (rule purge_keeps_live) (simp_all add: full_wf)

text \<open>A cipher whose texts carry their key: what was sealed under another key does not open.\<close>

definition keyedCrypto :: crypto where
  "keyedCrypto = plainCrypto\<lparr>gcmSeal := \<lambda>key nonce p. key @ p,
     gcmOpen := \<lambda>key nonce c. if take (length key) c = key then Some (drop (length key) c) else None\<rparr>"

lemma keyedCrypto_gcm: "gcm_correct keyedCrypto"
  by (simp add: gcm_correct_def keyedCrypto_def)

theorem tampered_queue_refused_witness:
  "gcm_correct keyedCrypto \<and>
   (let disk = [''q'' \<mapsto> \<lparr>fdata = replicate 12 CHR ''n'' @ gcmSeal keyedCrypto (replicate 32 CHR ''x'') (replicate 12 CHR ''n'') [],
                  fmode = mode0600\<rparr>,
                ''q.key'' \<mapsto> \<lparr>fdata = replicate 32 CHR ''k'', fmode = mode0600\<rparr>]
    in NewStore keyedCrypto demo_drv demo_start disk ''q'' 604800 = (Inl (ErrMsg ''queue authentication failed''), disk))"
proof -
  let ?f = "\<lparr>fdata = replicate 12 CHR ''n'' @ gcmSeal keyedCrypto (replicate 32 CHR ''x'') (replicate 12 CHR ''n'') [], fmode = mode0600\<rparr>"
  let ?k = "\<lparr>fdata = replicate 32 CHR ''k'', fmode = mode0600\<rparr>"
  let ?d = "[''q'' \<mapsto> ?f, ''q.key'' \<mapsto> ?k]"
  obtain r d' where n: "NewStore keyedCrypto demo_drv demo_start ?d ''q'' 604800 = (r, d')" by fastforce
  have files: "?d ''q'' = Some ?f" "?d (''q'' @ keyFileSuffix) = Some ?k" by (simp_all add: keyFileSuffix_def)
  have "gcmOpen keyedCrypto (fdata ?k) (take gcmNonceSize (fdata ?f)) (drop gcmNonceSize (fdata ?f)) = None"
    by (simp add: keyedCrypto_def gcmNonceSize_def numeral_eq_Suc)
  moreover have "gcmNonceSize \<le> length (fdata ?f)" by (simp add: gcmNonceSize_def)
  moreover have "honest demo_start" "start_clean demo_start" by (simp_all add: honest_def start_clean_def demo_start_def)
  ultimately show ?thesis
    using tampered_queue_refused [OF files _ _ _ n] n keyedCrypto_gcm by (simp add: Let_def)
qed

theorem expiry_is_now_plus_ttl_witness: "expiry demo_enq demo_store = unix (ee_now demo_enq) + 604800"
  by (rule expiry_is_now_plus_ttl [OF _ _ demo_first_start(1)]) simp_all

theorem huge_ttl_expires_at_once_witness:
  "expiry demo_enq (demo_store\<lparr>st_ttl := seconds 9223372037\<rparr>) < unix (ee_now demo_enq) - 9000000000"
  by (rule huge_ttl_expires_at_once) simp

theorem stale_unregister_keeps_new_witness:
  "fst (Register (snd (Register demo_store ''bob'' 1)) ''bob'' 2) = Some 1
    \<and> LookupClient (Unregister (snd (Register (snd (Register demo_store ''bob'' 1)) ''bob'' 2)) ''bob'' 1) ''bob'' = Some 2
    \<and> LookupClient (Unregister (snd (Register demo_store ''bob'' 1)) ''bob'' 1) ''bob'' = None"
  by (rule stale_unregister_keeps_new) simp

theorem unread_rows_are_lost_witness:
  "fst (DrainQueue plainCrypto demo_drv (demo_drain\<lparr>de_rows := Some 0\<rparr>) (full_store, Map.empty) ''bob'') = []
   \<and> mailbox (st_db (fst (snd (DrainQueue plainCrypto demo_drv (demo_drain\<lparr>de_rows := Some 0\<rparr>)
        (full_store, Map.empty) ''bob'')))) ''bob'' = []"
  by (rule unread_rows_are_lost [OF full_wf, where disk' = "snd (snd (DrainQueue plainCrypto demo_drv
        (demo_drain\<lparr>de_rows := Some 0\<rparr>) (full_store, Map.empty) ''bob''))"])
    (simp_all add: demo_drain_def, simp add: full_store_def demo_store_def)

theorem torn_key_blocks_start_witness:
  "\<exists>d. fst (NewStore plainCrypto demo_drv (demo_start\<lparr>se_key := (se_key demo_start)\<lparr>ke_write := WriteStops 5 ErrIO\<rparr>\<rparr>) Map.empty ''q'' 604800)
      = Inl ErrIO
    \<and> NewStore plainCrypto demo_drv demo_start d ''q'' 604800 = (Inl (ErrMsg ''invalid key file length''), d)"
proof -
  let ?env = "demo_start\<lparr>se_key := (se_key demo_start)\<lparr>ke_write := WriteStops 5 ErrIO\<rparr>\<rparr>"
  obtain res d where n: "NewStore plainCrypto demo_drv ?env Map.empty ''q'' 604800 = (res, d)"
    by (cases "NewStore plainCrypto demo_drv ?env Map.empty ''q'' 604800")
  from torn_key_blocks_start [OF _ _ _ _ _ _ n, of 5 ErrIO demo_start 604800] n show ?thesis
    by (auto simp: demo_start_def)
qed

end
