(* ===== verification/Router_Props.thy ===== *)
theory Router_Props
  imports Router Store_Props
begin

text \<open>
  What the router of theory \<open>Router\<close> promises: what each kind of payload leads to, that a
  sender learns nothing, that a flush loses nothing, and which recipients are local.
\<close>

section \<open>Classification of payloads\<close>

lemma classify_sealed:
  assumes "sealed_wf x" "se_RecipientID x \<noteq> []" "se_Ciphertext x \<noteq> []"
  shows "classify (marshalSealed x)
    = Some (se_RecipientID x, \<lparr>qm_Sealed = Some x, qm_Open = None, qm_ExpiresAt = 0\<rparr>)"
  using assms by (simp add: classify_def unmarshal_marshalSealed)

lemma classify_open:
  assumes "open_wf x" "oe_RecipientID x \<noteq> []" "oe_Ciphertext x \<noteq> []"
  shows "classify (marshalOpen x)
    = Some (oe_RecipientID x, \<lparr>qm_Sealed = Some (seal_of x), qm_Open = None, qm_ExpiresAt = 0\<rparr>)"
  using assms by (simp add: classify_def unmarshalSealed_marshalOpen seal_of_def)

section \<open>Whom an action concerns\<close>

definition local_user :: "string \<Rightarrow> string \<Rightarrow> string option" where
  "local_user relayID rid =
     (case splitN2 CHR ''@'' rid of
        [user, domain] \<Rightarrow> if isLocalRelay domain relayID then Some user else None
      | _ \<Rightarrow> Some rid)"

fun touches :: "conn \<Rightarrow> action \<Rightarrow> bool" where
  "touches c (Sent c' raw) = (c' = c)"
| "touches c (WriteFailed c' raw) = (c' = c)"
| "touches c (CloseConn c' st) = (c' = c)"
| "touches c (Forward req) = False"

lemma deliverLocal_touches:
  "\<exists>a \<in> set (fst (deliverLocal cr drv env w u m)). touches c a \<Longrightarrow> LookupClient (fst w) u = Some c"
  by (auto simp: deliverLocal_def split: option.splits sum.splits if_splits)

lemma deliver_local: "local_user (rt_relayID r) rid = Some u \<Longrightarrow>
    deliver cr drv env r w rid m = deliverLocal cr drv env w u m"
  by (cases rule: deliver_cases [of rid r cr drv env w m])
    (auto simp: local_user_def splitN2_none split: if_splits)

lemma deliver_remote:
  assumes "local_user (rt_relayID r) rid = None"
  obtains user domain where "rid = user @ CHR ''@'' # domain"
    "deliver cr drv env r w rid m = (case qm_Sealed m of None \<Rightarrow> []
         | Some sealed \<Rightarrow> forwardFederated r (dv_request env) domain sealed, w)"
proof (cases rule: deliver_cases [of rid r cr drv env w m])
  case (remote user domain)
  then have "rid = user @ CHR ''@'' # domain"
    by (cases rule: splitN2_cases [of "CHR ''@''" rid]) auto
  with remote that show ?thesis by blast
qed (use assms in \<open>simp_all add: local_user_def splitN2_none\<close>)

lemma deliver_touches:
  assumes "a \<in> set (fst (deliver cr drv env r w rid m))" "touches c a"
  shows "\<exists>u. local_user (rt_relayID r) rid = Some u \<and> LookupClient (fst w) u = Some c"
proof (cases "local_user (rt_relayID r) rid")
  case None
  then show ?thesis
    using assms by (cases rule: deliver_remote [of r rid cr drv env w m])
      (auto simp: forwardFederated_def split: option.splits if_splits)
next
  case (Some u)
  with assms deliverLocal_touches [of cr drv env w u m c] show ?thesis by (auto simp: deliver_local)
qed

lemma relayAddr_plain: "plain_part h \<Longrightarrow> plain_part p \<Longrightarrow> relayAddr (h @ CHR '':'' # p) = (h, p)"
  by (simp add: relayAddr_def splitHostPort_plain)

lemma relayAddr_bare: "plain_part h \<Longrightarrow> relayAddr h = (h, [])"
  by (simp add: relayAddr_def splitHostPort_no_port plain_part_def)

section \<open>Flushing\<close>

lemma reenqueue_all:
  "reenqueue cr drv enq j u ms w = enqueueAll cr drv u (zip (map enq [j..<j + length ms]) ms) w"
proof (induction ms arbitrary: j w)
  case (Cons m ms)
  have "[j..<j + length (m # ms)] = j # [Suc j..<Suc j + length ms]"
    by (simp add: upt_rec)
  with Cons show ?case by simp
qed simp

definition has_envelope :: "queuedMessage \<Rightarrow> bool" where
  "has_envelope m \<longleftrightarrow> qm_Sealed m \<noteq> None \<or> qm_Open m \<noteq> None"

definition frame_of :: "queuedMessage \<Rightarrow> bytes" where
  "frame_of m = (case marshalQueued m of Inr raw \<Rightarrow> raw | Inl e \<Rightarrow> [])"

lemma marshal_envelope: "has_envelope m \<Longrightarrow> marshalQueued m = Inr (frame_of m)"
  by (auto simp: has_envelope_def marshalQueued_def frame_of_def split: option.split)

text \<open>The number of messages written before the first failing write.\<close>

fun written :: "(nat \<Rightarrow> bool) \<Rightarrow> nat \<Rightarrow> nat \<Rightarrow> nat" where
  "written wr i 0 = 0"
| "written wr i (Suc n) = (if wr i then Suc (written wr (Suc i) n) else 0)"

lemma written_le: "written wr i n \<le> n"
  by (induction n arbitrary: i) auto

lemma flushLoop_split:
  assumes "\<forall>m \<in> set ms. has_envelope m"
  shows "let n = written wr i (length ms) in
     filter (\<lambda>a. \<exists>raw. a = Sent c raw) (fst (flushLoop cr drv wr enq i u c ms w))
       = map (Sent c \<circ> frame_of) (take n ms)
     \<and> snd (flushLoop cr drv wr enq i u c ms w) = reenqueue cr drv enq 0 u (drop n ms) w"
  using assms
  by (induction ms arbitrary: i) (auto simp: Let_def marshal_envelope split_beta)

section \<open>Properties\<close>

text \<open>
  C12: A flush to a reconnecting client loses nothing and keeps the order: if the first
  \<open>n\<close> writes succeed and the next one fails, exactly the first \<open>n\<close> pending messages are
  delivered, in order, and exactly the others are pending again, in order (with a
  refreshed expiry).
\<close>

theorem flush_loses_nothing:
  assumes "gcm_correct cr" "store_wf s" "\<not> st_stopped s" "drain_clean (fl_drain env)"
    and "pending cr (unix (de_now (fl_drain env))) s u = msgs" "n = written (fl_write env) 0 (length msgs)"
    and "\<forall>m \<in> set msgs. has_envelope m" "\<forall>j. \<forall>m \<in> set msgs. enq_ok now s (fl_enq env j, m)"
    and "length msgs \<le> 500" "db_seq (st_db s) + 500 < 2 ^ 63"
    and "FlushQueue cr drv env (s, disk) u c = (acts, s', disk')"
  shows "filter (\<lambda>a. \<exists>raw. a = Sent c raw) acts = map (Sent c \<circ> frame_of) (take n msgs)
    \<and> pending cr now s' u
        = map (\<lambda>(j, m). m\<lparr>qm_ExpiresAt := expiry (fl_enq env j) s\<rparr>) (enumerate 0 (drop n msgs))"
proof -
  let ?s1 = "s\<lparr>st_db := sqlDeleteFor u (st_db s)\<rparr>"
  obtain disk1 where dr: "DrainQueue cr drv (fl_drain env) (s, disk) u = (msgs, ?s1, disk1)"
    using DrainQueue_clean [OF assms(3,4), of cr drv disk u] assms(5)
    by (cases "DrainQueue cr drv (fl_drain env) (s, disk) u") auto
  let ?es = "zip (map (fl_enq env) [0..<length (drop n msgs)]) (drop n msgs)"
  have fl: "filter (\<lambda>a. \<exists>raw. a = Sent c raw) acts = map (Sent c \<circ> frame_of) (take n msgs)"
    "(s', disk') = enqueueAll cr drv u ?es (?s1, disk1)"
    using flushLoop_split [OF assms(7), of "fl_write env" 0 c cr drv "fl_enq env" u "(?s1, disk1)"] assms(6,11)
    by (simp_all add: FlushQueue_def dr Let_def reenqueue_all)
  have exp: "expiry e ?s1 = expiry e s" for e by (simp add: expiry_def)
  have twf: "table_wf (st_db s)" using assms(2) by (simp add: store_wf_def)
  have wf1: "store_wf ?s1" using DrainQueue_wf [OF assms(2), of cr drv "fl_drain env" disk u] dr by simp
  have empty: "mailbox (st_db ?s1) u = []" by (simp add: qt.box_delete twf)
  have ok: "\<forall>e \<in> set ?es. enq_ok now ?s1 e"
  proof
    fix e assume "e \<in> set ?es"
    moreover obtain x m where e: "e = (x, m)" by (cases e)
    ultimately have "x \<in> set (map (fl_enq env) [0..<length (drop n msgs)])" "m \<in> set (drop n msgs)"
      by (auto dest: set_zip_leftD set_zip_rightD)
    then obtain j where "e = (fl_enq env j, m)" "m \<in> set msgs"
      by (auto simp: e dest: in_set_dropD)
    with assms(8) show "enq_ok now ?s1 e" by (simp add: enq_ok_def exp)
  qed
  have "pending cr now s' u = pending cr now ?s1 u @ map (stamped ?s1) ?es"
    using enqueueAll_pending [OF assms(1) wf1 _ ok, of u drv disk1] assms(3,9,10) fl(2) [symmetric] empty
    by (simp add: maxQueuePerRecipient_def sqlDeleteFor_def)
  also have "pending cr now ?s1 u = []" using empty by (simp add: pending_def)
  also have "map (stamped ?s1) ?es
      = map (\<lambda>(j, m). m\<lparr>qm_ExpiresAt := expiry (fl_enq env j) s\<rparr>) (enumerate 0 (drop n msgs))"
    by (simp add: stamped_def exp enumerate_eq_zip zip_map1 split_def)
  finally show ?thesis using fl(1) by simp
qed

text \<open>
  C31: Routing gives the sender no feedback.  Whatever a client sends, the only connection
  a route call can write to is the one registered for the local recipient named in the
  payload; offline, unknown, remote, oversized, rate-limited and malformed all look the same.
\<close>

theorem routing_is_silent:
  assumes "Route cr drv now env r w sender payload = (acts, r', w')" "a \<in> set acts" "touches c a"
  shows "\<exists>rid m u. classify payload = Some (rid, m) \<and> local_user (rt_relayID r) rid = Some u
    \<and> LookupClient (fst w) u = Some c"
proof -
  obtain rid m r1 where 1: "classify payload = Some (rid, m)" "Router_allow r sender now = (True, r1)"
    "a \<in> set (fst (deliver cr drv env r1 w rid m))"
    using assms(1,2) by (auto simp: Route_def split: if_splits prod.splits bool.splits option.splits)
  have "rt_relayID r1 = rt_relayID r" using Router_allow_frame(1) [of r sender now] 1(2) by simp
  with deliver_touches [OF 1(3) assms(3)] 1(1) show ?thesis by auto
qed

text \<open>
  An accepted sealed envelope for a local recipient reaches exactly one place,
  unchanged: the recipient's connection if it is registered and the write succeeds,
  otherwise the end of the recipient's queue.
\<close>

theorem sealed_reaches_recipient:
  assumes "gcm_correct cr" "store_wf s" "\<not> st_stopped s"
    and "sealed_wf x" "se_RecipientID x \<noteq> []" "se_Ciphertext x \<noteq> []"
    and "int (length (marshalSealed x)) \<le> rt_maxMessageSize r" "fst (Router_allow r sender now)"
    and "local_user (rt_relayID r) (se_RecipientID x) = Some u"
    and "enq_clean (dv_enq env)" "has_room (dv_enq env) s u" "int64_ok (expiry (dv_enq env) s)"
    and "ee_epoch (dv_enq env) \<le> t" "t \<le> expiry (dv_enq env) s"
    and "Route cr drv now env r (s, disk) sender (marshalSealed x) = (acts, r', s', disk')"
  shows "case LookupClient s u of
      Some c \<Rightarrow> if dv_write env then acts = [Sent c (marshalSealed x)] \<and> s' = s \<and> disk' = disk
                else acts = [WriteFailed c (marshalSealed x)] \<and> pending cr t s' u = pending cr t s u @
                       [\<lparr>qm_Sealed = Some x, qm_Open = None, qm_ExpiresAt = expiry (dv_enq env) s\<rparr>]
    | None \<Rightarrow> acts = [] \<and> pending cr t s' u = pending cr t s u @
                [\<lparr>qm_Sealed = Some x, qm_Open = None, qm_ExpiresAt = expiry (dv_enq env) s\<rparr>]"
proof -
  let ?m = "\<lparr>qm_Sealed = Some x, qm_Open = None, qm_ExpiresAt = 0\<rparr>"
  obtain r1 where r1: "Router_allow r sender now = (True, r1)"
    using assms(8) by (cases "Router_allow r sender now") auto
  then have "rt_relayID r1 = rt_relayID r" using Router_allow_frame(1) [of r sender now] by simp
  with assms(7,9,15) r1 have rt: "deliverLocal cr drv env (s, disk) u ?m = (acts, s', disk')"
    by (auto simp: Route_def classify_sealed [OF assms(4-6)] deliver_local split: prod.splits)
  have "message_wf ?m" using assms(4) by (simp add: message_wf_def)
  from Enqueue_pending [OF assms(1-3,10,11) this assms(12-14), of drv disk]
  have "pending cr t (fst (Enqueue cr drv (dv_enq env) (s, disk) u ?m)) u = pending cr t s u @
      [\<lparr>qm_Sealed = Some x, qm_Open = None, qm_ExpiresAt = expiry (dv_enq env) s\<rparr>]" by simp
  with rt show ?thesis
    by (auto simp: deliverLocal_def marshalQueued_def split: option.splits if_splits)
qed

text \<open>
  Everything the router refuses is dropped without a trace: an oversized payload, a
  sender over its budget and a payload that is neither envelope change neither the store
  nor the disk and cause no action.
\<close>

theorem refused_payload_dropped:
  assumes "rt_maxMessageSize r < int (length payload) \<or> \<not> fst (Router_allow r sender now)
    \<or> classify payload = None"
  shows "\<exists>r'. Route cr drv now env r w sender payload = ([], r', w)"
  using assms by (cases "Router_allow r sender now") (auto simp: Route_def split: bool.split)

text \<open>
  Only sealed envelopes leave the relay, only for a recipient whose domain is not
  local, and the request carries the envelope unchanged: its body decodes to it.
\<close>

theorem federation_forwards_sealed:
  assumes "deliver cr drv env r w rid m = (acts, w')" "Forward req \<in> set acts"
  shows "\<exists>sealed user domain. qm_Sealed m = Some sealed \<and> rid = user @ CHR ''@'' # domain
    \<and> local_user (rt_relayID r) rid = None \<and> w' = w
    \<and> hr_url req = ''http://'' @ domain @ ''/federation/deliver'' \<and> hr_method req = ''POST''
    \<and> (''X-Spectre-Relay-ID'', rt_relayID r) \<in> set (hr_headers req)
    \<and> (sealed_wf sealed \<longrightarrow> unmarshalSealed (hr_body req) = (False, sealed))"
proof (cases "local_user (rt_relayID r) rid")
  case (Some u)
  with assms show ?thesis
    by (auto simp: deliver_local deliverLocal_def split: option.splits sum.splits if_splits)
next
  case None
  then obtain user domain where d: "rid = user @ CHR ''@'' # domain"
    "deliver cr drv env r w rid m = (case qm_Sealed m of None \<Rightarrow> []
         | Some sealed \<Rightarrow> forwardFederated r (dv_request env) domain sealed, w)"
    by (rule deliver_remote)
  with assms obtain sealed where x: "qm_Sealed m = Some sealed" "w' = w"
    "Forward req \<in> set (forwardFederated r (dv_request env) domain sealed)"
    by (auto split: option.splits)
  then show ?thesis
    using d(1) None
    by (intro exI [of _ sealed] exI [of _ user] exI [of _ domain])
      (auto simp: forwardFederated_def unmarshal_marshalSealed split: if_splits)
qed

text \<open>
  C34: The router's budget: in any window of a minute less \<open>\<delta>\<close>, at most \<open>ratePerMin\<close> payloads of
  one user have any effect, be it a frame written or attempted, a request to another relay,
  or a change of the mailboxes or of the disk, other users' traffic notwithstanding and
  whatever the store is when each payload is routed.  The calls are in the order in which
  the limiter decides them; none is decided after one that read the clock more than \<open>\<delta>\<close>
  later.
\<close>

theorem router_budget:
  assumes "0 \<le> \<delta>" "skewed \<delta> (map rc_now calls)"
  shows "int (length (filter (\<lambda>(c, acts, w'). (acts \<noteq> [] \<or> w' \<noteq> rc_world c) \<and> rc_sender c = u
      \<and> T - (minute - \<delta>) < rc_now c \<and> rc_now c \<le> T)
    (serve_each (route_call cr drv) (NewRouter maxsize n relay) calls))) \<le> max 0 n"
proof -
  have "router_hist (NewRouter maxsize n relay) u = []" "rt_ratePerMin (NewRouter maxsize n relay) = n"
    by (simp_all add: router_hist_def NewRouter_def window_of_def)
  with rs.serve_budget [OF _ assms, of "NewRouter maxsize n relay" u T cr drv] show ?thesis
    by (simp add: case_prod_unfold)
qed

text \<open>
  The allowance for the skew is needed: with a budget of 2, a call that read the clock just
  before the first two grants were a minute old, but gets the mutex after one that read it
  just afterwards, is the third to be let through within one minute.
\<close>

theorem racing_calls_exceed_budget:
  "in_window minute (minute - 1) (granted ''u'' (fst (limiter_run Router_allow (NewRouter 65536 2 ''r'')
     [(''u'', 0), (''u'', 0), (''u'', minute), (''u'', minute - 1)]))) = [0, 0, minute - 1]"
  by code_simp

text \<open>
  Which domains are local, for host names and ports without colons and brackets: a
  bare host is local when it is the relay's host, whatever the relay's port; with a port,
  both must agree; and a port matches nothing if the relay has none.
\<close>

theorem local_domains:
  assumes "plain_part h" "plain_part p" "plain_part h'" "plain_part p'" "p \<noteq> []" "p' \<noteq> []"
  shows "(isLocalRelay h (h' @ CHR '':'' # p') \<longleftrightarrow> h = h')
    \<and> (isLocalRelay (h @ CHR '':'' # p) (h' @ CHR '':'' # p') \<longleftrightarrow> h = h' \<and> p = p')
    \<and> (isLocalRelay h h' \<longleftrightarrow> h = h') \<and> \<not> isLocalRelay (h @ CHR '':'' # p) h'"
  using assms by (simp add: isLocalRelay_def relayAddr_plain relayAddr_bare)

text \<open>
  An open envelope never keeps its sender: the relay tries the sealed form first,
  which accepts it, so the recipient is sent (or queued) the same envelope without its
  sender id.
\<close>

theorem open_envelope_loses_sender:
  assumes "open_wf x" "oe_RecipientID x \<noteq> []" "oe_Ciphertext x \<noteq> []"
  shows "\<exists>rid m sealed. classify (marshalOpen x) = Some (rid, m) \<and> qm_Open m = None \<and> qm_Sealed m = Some sealed
    \<and> rid = oe_RecipientID x \<and> se_Ciphertext sealed = oe_Ciphertext x"
  by (auto simp: classify_open [OF assms] seal_of_def)

section \<open>A concrete router\<close>

definition demo_sealed :: SealedEnvelope where
  "demo_sealed = \<lparr>se_RecipientID = ''bob'', se_Ciphertext = ''c'', se_TimestampMS = 1,
     se_ID = ''i'', se_FederationSenderRelay = []\<rparr>"

definition demo_router :: Router where
  "demo_router = NewRouter 65536 60 ''relay:8080''"

definition demo_deliver :: deliverEnv where
  "demo_deliver = \<lparr>dv_request = True, dv_write = True, dv_enq = demo_enq\<rparr>"

definition demo_flush :: flushEnv where
  "demo_flush = \<lparr>fl_drain = demo_drain, fl_write = (\<lambda>_. False), fl_enq = (\<lambda>_. demo_enq)\<rparr>"

definition demo_online :: Store where
  "demo_online = snd (Register demo_store ''bob'' 7)"

lemma demo_sealed_wf: "sealed_wf demo_sealed" "se_RecipientID demo_sealed \<noteq> []" "se_Ciphertext demo_sealed \<noteq> []"
proof -
  have "valid_utf8 ''bob''" "valid_utf8 ''i''" by (rule valid_utf8_key, simp add: code_def)+
  then show "sealed_wf demo_sealed" by (simp add: sealed_wf_def demo_sealed_def int64_ok_def)
qed (simp_all add: demo_sealed_def)

lemma demo_size: "int (length (marshalSealed demo_sealed)) \<le> 65536"
  by code_simp

lemma demo_router_simps [simp]: "rt_maxMessageSize demo_router = 65536" "rt_relayID demo_router = ''relay:8080''"
  by (simp_all add: demo_router_def NewRouter_def)

lemma demo_allows: "fst (Router_allow demo_router u 0)"
  by (rule ro.resets) (simp_all add: demo_router_def NewRouter_def router_hist_def window_of_def)

lemma demo_local: "local_user ''relay:8080'' ''bob'' = Some ''bob''"
  by code_simp

lemma demo_room: "has_room demo_enq demo_store ''bob''"
  by (rule room_if_short) (simp_all add: demo_box maxQueuePerRecipient_def)

lemma demo_next_pending: "pending plainCrypto 0 (fst demo_next) ''bob'' = [demo_msg\<lparr>qm_ExpiresAt := 604800\<rparr>]"
proof -
  have "message_wf demo_msg" using demo_enq_ok by (simp add: enq_ok_def)
  then have "pending plainCrypto 0 (fst (Enqueue plainCrypto demo_drv demo_enq (demo_store, snd demo_first) ''bob'' demo_msg)) ''bob''
      = pending plainCrypto 0 demo_store ''bob'' @ [demo_msg\<lparr>qm_ExpiresAt := expiry demo_enq demo_store\<rparr>]"
    using demo_enq_ok by (intro Enqueue_pending plainCrypto_gcm demo_wf demo_room) (simp_all add: enq_ok_def)
  then show ?thesis
    by (simp add: demo_next_def demo_first_def demo_expiry demo_empty)
qed

subsection \<open>Witnesses\<close>

theorem flush_loses_nothing_witness:
  "pending plainCrypto 0 (fst (snd (FlushQueue plainCrypto demo_drv demo_flush demo_next ''bob'' 7))) ''bob''
     = [demo_msg\<lparr>qm_ExpiresAt := 604800\<rparr>]"
proof -
  let ?m = "demo_msg\<lparr>qm_ExpiresAt := 604800\<rparr>"
  have life: "life_inv plainCrypto demo_drv ''q'' demo_next"
    by (rule store_life_inv [OF plainCrypto_gcm demo_drv_correct demo_life(2)])
  have st: "\<not> st_stopped (fst demo_next)" "st_ttl (fst demo_next) = st_ttl demo_store"
    using demo_wf(2) by (simp_all add: demo_next_def demo_first_def frame_simps)
  have seq: "db_seq (st_db (fst demo_next)) \<le> 1"
    using Enqueue_growth(2) [OF demo_wf(1), of plainCrypto demo_drv demo_enq "snd demo_first" "''bob''" demo_msg]
    by (simp add: demo_next_def demo_first_def) (simp add: demo_store_def sqlCreate_def)
  have exp: "expiry demo_enq (fst demo_next) = 604800"
    using demo_expiry by (simp add: expiry_def st(2))
  have ok: "enq_ok 0 (fst demo_next) (demo_enq, ?m)"
    using demo_enq_ok demo_expiry exp by (simp add: enq_ok_def message_wf_def)
  obtain acts s' d' where f: "FlushQueue plainCrypto demo_drv demo_flush (fst demo_next, snd demo_next) ''bob'' 7 = (acts, s', d')"
    by (cases "FlushQueue plainCrypto demo_drv demo_flush (fst demo_next, snd demo_next) ''bob'' 7") auto
  have "pending plainCrypto 0 s' ''bob''
      = map (\<lambda>(j, m). m\<lparr>qm_ExpiresAt := expiry (fl_enq demo_flush j) (fst demo_next)\<rparr>) (enumerate 0 (drop 0 [?m]))"
    using flush_loses_nothing [OF plainCrypto_gcm _ st(1) _ _ _ _ _ _ _ f, of "[?m]" 0 0] life
      demo_wf(4,5) demo_next_pending ok seq
    by (simp add: demo_flush_def life_inv_def has_envelope_def) (simp add: demo_msg_def)
  then show ?thesis using f exp by (simp add: demo_flush_def)
qed

lemma demo_route_online:
  "Route plainCrypto demo_drv 0 demo_deliver demo_router (demo_online, Map.empty) ''alice'' (marshalSealed demo_sealed)
     = ([Sent 7 (marshalSealed demo_sealed)], snd (Router_allow demo_router ''alice'' 0), demo_online, Map.empty)"
proof -
  obtain r1 where r1: "Router_allow demo_router ''alice'' 0 = (True, r1)"
    using demo_allows [of "''alice''"] by (cases "Router_allow demo_router ''alice'' 0") auto
  then have "rt_relayID r1 = ''relay:8080''" using Router_allow_frame(1) [of demo_router "''alice''" 0] by simp
  moreover have "se_RecipientID demo_sealed = ''bob''" by (simp add: demo_sealed_def)
  ultimately show ?thesis
    using demo_size demo_local r1
    by (simp add: Route_def classify_sealed [OF demo_sealed_wf] deliver_local deliverLocal_def
        demo_online_def Register_def LookupClient_def demo_store_def marshalQueued_def demo_deliver_def)
qed

theorem routing_is_silent_witness:
  "\<exists>rid m u. classify (marshalSealed demo_sealed) = Some (rid, m)
    \<and> local_user (rt_relayID demo_router) rid = Some u \<and> LookupClient (fst (demo_online, Map.empty :: fs)) u = Some 7"
  by (rule routing_is_silent [OF demo_route_online, of "Sent 7 (marshalSealed demo_sealed)"]) simp_all

theorem sealed_reaches_recipient_witness:
  "pending plainCrypto 0 (fst (snd (snd (Route plainCrypto demo_drv 0 demo_deliver demo_router
      (demo_store, Map.empty) ''alice'' (marshalSealed demo_sealed))))) ''bob''
   = [\<lparr>qm_Sealed = Some demo_sealed, qm_Open = None, qm_ExpiresAt = 604800\<rparr>]"
proof -
  obtain acts r' s' d' where r: "Route plainCrypto demo_drv 0 demo_deliver demo_router
      (demo_store, Map.empty) ''alice'' (marshalSealed demo_sealed) = (acts, r', s', d')"
    by (cases "Route plainCrypto demo_drv 0 demo_deliver demo_router (demo_store, Map.empty) ''alice'' (marshalSealed demo_sealed)") auto
  have loc: "local_user (rt_relayID demo_router) (se_RecipientID demo_sealed) = Some ''bob''"
    using demo_local by (simp add: demo_sealed_def)
  have dv: "dv_enq demo_deliver = demo_enq" by (simp add: demo_deliver_def)
  have "LookupClient demo_store ''bob'' = None" by (simp add: LookupClient_def demo_store_def)
  then show ?thesis
    using sealed_reaches_recipient [OF plainCrypto_gcm demo_wf(1,2) demo_sealed_wf _ demo_allows loc _ _ _ _ _ r, of 0]
      demo_size demo_wf(3) demo_room demo_enq_ok r
    by (simp add: dv demo_expiry demo_empty enq_ok_def)
qed

theorem refused_payload_dropped_witness:
  "\<exists>r'. Route plainCrypto demo_drv 0 demo_deliver demo_router (demo_online, Map.empty) ''alice'' (replicate 65537 CHR ''x'')
     = ([], r', demo_online, Map.empty)"
  by (rule refused_payload_dropped) simp

theorem federation_forwards_sealed_witness:
  "let req = \<lparr>hr_method = ''POST'', hr_url = ''http://other/federation/deliver'',
      hr_headers = [(''Content-Type'', ''application/json''), (''X-Spectre-Relay-ID'', ''relay:8080'')],
      hr_body = marshalSealed demo_sealed\<rparr> in
   \<exists>sealed user domain. Some demo_sealed = Some sealed \<and> ''bob@other'' = user @ CHR ''@'' # domain
    \<and> local_user ''relay:8080'' ''bob@other'' = None
    \<and> hr_url req = ''http://'' @ domain @ ''/federation/deliver''
    \<and> (sealed_wf sealed \<longrightarrow> unmarshalSealed (hr_body req) = (False, sealed))"
proof -
  let ?m = "\<lparr>qm_Sealed = Some demo_sealed, qm_Open = None, qm_ExpiresAt = 0\<rparr>"
  let ?req = "\<lparr>hr_method = ''POST'', hr_url = ''http://other/federation/deliver'',
      hr_headers = [(''Content-Type'', ''application/json''), (''X-Spectre-Relay-ID'', ''relay:8080'')],
      hr_body = marshalSealed demo_sealed\<rparr>"
  have "splitN2 CHR ''@'' ''bob@other'' = [''bob'', ''other'']" "\<not> isLocalRelay ''other'' ''relay:8080''"
    by code_simp+
  then have "deliver plainCrypto demo_drv demo_deliver demo_router (demo_store, Map.empty) ''bob@other'' ?m
      = ([Forward ?req], demo_store, Map.empty)"
    by (simp add: deliver_def forwardFederated_def demo_deliver_def)
  from federation_forwards_sealed [OF this, of ?req] show ?thesis unfolding Let_def by simp
qed

theorem router_budget_witness:
  "int (length (filter (\<lambda>(c, acts, w'). (acts \<noteq> [] \<or> w' \<noteq> rc_world c) \<and> rc_sender c = ''alice''
      \<and> 5 - (minute - 1) < rc_now c \<and> rc_now c \<le> 5)
    (serve_each (route_call plainCrypto demo_drv) (NewRouter 65536 2 ''relay:8080'')
      (map (\<lambda>t. \<lparr>rc_now = t, rc_env = demo_deliver, rc_world = (demo_online, Map.empty), rc_sender = ''alice'',
         rc_payload = marshalSealed demo_sealed\<rparr>) [2, 1, 3, 5, 4])))) \<le> max 0 2"
  by (rule router_budget) simp_all

theorem local_domains_witness:
  "(isLocalRelay ''a.org'' (''b.org'' @ CHR '':'' # ''80'') \<longleftrightarrow> ''a.org'' = ''b.org'')
    \<and> (isLocalRelay (''a.org'' @ CHR '':'' # ''443'') (''b.org'' @ CHR '':'' # ''80'') \<longleftrightarrow> ''a.org'' = ''b.org'' \<and> ''443'' = ''80'')
    \<and> (isLocalRelay ''a.org'' ''b.org'' \<longleftrightarrow> ''a.org'' = ''b.org'') \<and> \<not> isLocalRelay (''a.org'' @ CHR '':'' # ''443'') ''b.org''"
  by (rule local_domains) (simp_all add: plain_part_def)

theorem open_envelope_loses_sender_witness:
  "let x = \<lparr>oe_SenderID = ''alice'', oe_RecipientID = ''bob'', oe_Ciphertext = ''c'', oe_TimestampMS = 1, oe_ID = ''i''\<rparr> in
   \<exists>rid m sealed. classify (marshalOpen x) = Some (rid, m) \<and> qm_Open m = None \<and> qm_Sealed m = Some sealed
    \<and> rid = oe_RecipientID x \<and> se_Ciphertext sealed = oe_Ciphertext x"
proof -
  have "valid_utf8 ''alice''" "valid_utf8 ''bob''" "valid_utf8 ''i''"
    by (rule valid_utf8_key, simp add: code_def)+
  then show ?thesis
    unfolding Let_def by (intro open_envelope_loses_sender) (simp_all add: open_wf_def int64_ok_def)
qed

end
