(* ===== verification/Json_Utf8.thy ===== *)
theory Json_Utf8
  imports Json_Decode
begin

text \<open>
  What the JSON decoder returns is well-typed whatever it is fed: every string, keys
  included, is valid UTF-8, because the scanner replaces each byte that belongs to no
  well-formed sequence, and a lone surrogate, by U+FFFD.
\<close>

section \<open>Concatenation and prefixes\<close>

lemma utf8_len_append: "utf8_len (c # cs) = Suc n \<Longrightarrow> utf8_len (c # cs @ b) = Suc n \<and> n \<le> length cs"
  by (auto simp: utf8_len_def Let_def split: if_splits)

lemma valid_utf8_Cons: "valid_utf8 (c # cs) \<longleftrightarrow> (\<exists>n. utf8_len (c # cs) = Suc n \<and> valid_utf8 (drop n cs))"
  by (simp add: valid_utf8.simps(2) split: nat.split)

lemma valid_utf8_append: "valid_utf8 a \<Longrightarrow> valid_utf8 b \<Longrightarrow> valid_utf8 (a @ b)"
proof (induction a rule: valid_utf8.induct)
  case (2 c cs)
  then obtain n where n: "utf8_len (c # cs) = Suc n" "valid_utf8 (drop n cs)"
    by (auto simp: valid_utf8_Cons)
  with 2(1) [OF n(1)] 2(3) utf8_len_append [OF n(1), of b] show ?case
    by (auto simp: valid_utf8_Cons)
qed simp

lemma valid_utf8_chunk: "utf8_len (c # cs) = Suc n \<Longrightarrow> valid_utf8 (c # take n cs)"
  using utf8_len_take [of c cs n "[]"] by (auto simp: valid_utf8_Cons)

lemma valid_utf8_chunk_append: "utf8_len (c # cs) = Suc n \<Longrightarrow> valid_utf8 a \<Longrightarrow> valid_utf8 (c # take n cs @ a)"
  using valid_utf8_append [OF valid_utf8_chunk] by fastforce

lemma tail_continues:
  assumes "utf8_tail_ok (a # u)" "c \<in> set u"
  shows "128 \<le> code c"
  using assms by (cases u) (auto simp: second_ok_def between_def list_all_iff split: if_splits)

text \<open>An ASCII character is never inside a sequence, so the text before it is valid.\<close>

lemma valid_utf8_before: "valid_utf8 (a @ c # b) \<Longrightarrow> code c < 128 \<Longrightarrow> valid_utf8 a"
proof (induction a rule: valid_utf8.induct)
  case (2 x xs)
  then obtain n where n: "utf8_len (x # xs @ c # b) = Suc n" "valid_utf8 (drop n (xs @ c # b))"
    by (auto simp: valid_utf8_Cons)
  have le: "n \<le> length xs"
  proof (rule ccontr)
    assume "\<not> n \<le> length xs"
    then have "c \<in> set (take n (xs @ c # b))" by (auto simp: take_Cons' split: if_splits)
    moreover have "utf8_tail_ok (x # take n (xs @ c # b))"
      using n(1) by (auto simp: utf8_len_def Let_def split: if_splits)
    ultimately show False using tail_continues 2(3) by fastforce
  qed
  have "utf8_len (x # xs) = Suc n"
    using utf8_len_take [OF n(1), of "drop n xs"] le by simp
  with n(2) le 2(1) [of n] 2(3) show ?case by (auto simp: valid_utf8_Cons)
qed simp

section \<open>Encoded code points\<close>

definition scalar :: "nat \<Rightarrow> bool" where
  "scalar n \<longleftrightarrow> n < 55296 \<or> 57344 \<le> n \<and> n < 1114112"

lemma valid_utf8_enc:
  assumes "scalar n"
  shows "valid_utf8 (utf8_enc n)"
proof -
  consider "n < 128" | "128 \<le> n" "n < 2048" | "2048 \<le> n" "n < 65536" | "65536 \<le> n" by linarith
  then show ?thesis
  proof cases
    case 1
    then show ?thesis by (simp add: utf8_enc_def valid_utf8_Cons utf8_len_ascii)
  next
    case 2
    then have "n div 64 < 32" "2 \<le> n div 64" by simp_all
    with 2 show ?thesis
      by (simp add: utf8_enc_def valid_utf8_Cons utf8_len_def utf8_need_def between_def second_ok_def Let_def)
  next
    case 3
    let ?a = "n div 4096" and ?b = "n div 64 mod 64"
    have b: "?b = n div 64 - 64 * ?a" using minus_mult_div_eq_mod [of "n div 64" 64] by (simp add: div_mult2_eq [symmetric])
    have a: "?a < 16" using 3 by simp
    have "32 \<le> ?b" if "?a = 0" using 3 that b by simp
    moreover have "?b \<le> 31" if "?a = 13"
    proof -
      from that have "53248 \<le> n" "n < 57344" by linarith+
      with assms have "n < 55296" by (simp add: scalar_def)
      then have "n div 64 < 864" by simp
      with b that show ?thesis by simp
    qed
    ultimately show ?thesis using 3 a
      by (auto simp: utf8_enc_def valid_utf8_Cons utf8_len_def utf8_need_def between_def second_ok_def Let_def)
  next
    case 4
    let ?a = "n div 262144" and ?b = "n div 4096 mod 64"
    have b: "?b = n div 4096 - 64 * ?a" using minus_mult_div_eq_mod [of "n div 4096" 64] by (simp add: div_mult2_eq [symmetric])
    have n: "n < 1114112" using 4 assms by (auto simp: scalar_def)
    then have a: "?a < 5" by simp
    have "16 \<le> ?b" if "?a = 0" using 4 that b by simp
    moreover have "?b \<le> 15" if "?a = 4"
    proof -
      from n have "n div 4096 < 272" by simp
      with b that show ?thesis by simp
    qed
    ultimately show ?thesis using 4 a
      by (auto simp: utf8_enc_def valid_utf8_Cons utf8_len_def utf8_need_def between_def second_ok_def Let_def)
  qed
qed

section \<open>The scanner\<close>

lemma hex_val_less: "hex_val c = Some v \<Longrightarrow> v < 16"
  by (auto simp: hex_val_def between_def split: if_splits)

lemma hex4_less: "hex4 s = Some u \<Longrightarrow> u < 65536"
  by (cases s rule: hex4.cases) (auto split: option.splits dest!: hex_val_less)

lemma valid_replacement: "valid_utf8 replacement"
  by (simp add: replacement_def valid_utf8_enc scalar_def)

lemma valid_ascii1: "code c < 128 \<Longrightarrow> valid_utf8 [c]"
  by (simp add: valid_utf8_ascii)

lemma unescape_valid: "unescape s = Some (out, r) \<Longrightarrow> valid_utf8 out"
  unfolding unescape_def Let_def
  by (auto simp: valid_replacement valid_ascii1 code_def [of "CHR 0x22"] code_def [of "CHR 0x5C"] code_def [of "CHR ''/''"]
      scalar_def intro!: valid_utf8_enc dest!: hex4_less split: list.splits if_splits option.splits)

lemma scanString_valid: "scanString s = Some (v, r) \<Longrightarrow> valid_utf8 v"
proof (induction s arbitrary: v r rule: scanString.induct)
  case (2 c cs)
  show ?case
    using 2(4) 2(1-3)
    by (auto simp: scanString.simps(2) valid_replacement unescape_valid valid_utf8_chunk_append intro!: valid_utf8_append
        split: if_splits option.splits nat.splits)
qed (simp add: scanString.simps)

section \<open>The parser\<close>

fun json_utf8 :: "json \<Rightarrow> bool" where
  "json_utf8 (JStr s) = valid_utf8 s"
| "json_utf8 (JArr vs) = (\<forall>v \<in> set vs. json_utf8 v)"
| "json_utf8 (JObj kvs) = (\<forall>kv \<in> set kvs. valid_utf8 (fst kv) \<and> json_utf8 (snd kv))"
| "json_utf8 v = True"

fun tok_utf8 :: "jtok \<Rightarrow> bool" where
  "tok_utf8 (TStr s) = valid_utf8 s"
| "tok_utf8 t = True"

fun frame_utf8 :: "frame \<Rightarrow> bool" where
  "frame_utf8 (FArr vs) = (\<forall>v \<in> set vs. json_utf8 v)"
| "frame_utf8 (FObj kvs k) = ((\<forall>kv \<in> set kvs. valid_utf8 (fst kv) \<and> json_utf8 (snd kv)) \<and> (\<forall>x. k = Some x \<longrightarrow> valid_utf8 x))"

fun res_utf8 :: "jres \<Rightarrow> bool" where
  "res_utf8 Fail = True"
| "res_utf8 (Done v) = json_utf8 v"
| "res_utf8 (More st e) = list_all frame_utf8 st"

lemma lex_token_utf8: "lex_token c cs = Some (t, r) \<Longrightarrow> tok_utf8 t"
  unfolding lex_token_def Let_def
  by (elim if_rest) (auto dest: scanString_valid)

lemma lex1_utf8: "lex1 s = Some (t, r) \<Longrightarrow> tok_utf8 t"
  by (auto simp: lex1_def dest: lex_token_utf8 split: list.splits)

lemma pushv_utf8: "list_all frame_utf8 st \<Longrightarrow> json_utf8 v \<Longrightarrow> res_utf8 (pushv st v)"
  by (cases "(st, v)" rule: pushv.cases) auto

lemma opens_utf8: "list_all frame_utf8 st \<Longrightarrow> frame_utf8 f \<Longrightarrow> res_utf8 (opens st f e)"
  by (simp add: opens_def)

lemma valstep_utf8: "list_all frame_utf8 st \<Longrightarrow> tok_utf8 t \<Longrightarrow> res_utf8 (valstep st t)"
  by (cases t) (auto intro: pushv_utf8 opens_utf8)

lemma keystep_utf8: "list_all frame_utf8 st \<Longrightarrow> tok_utf8 t \<Longrightarrow> res_utf8 (keystep st t)"
  by (cases "(st, t)" rule: keystep.cases) auto

lemma endstep_utf8: "list_all frame_utf8 st \<Longrightarrow> res_utf8 (endstep st t)"
  by (cases "(st, t)" rule: endstep.cases) (auto intro!: pushv_utf8)

lemma jstep_utf8: "list_all frame_utf8 st \<Longrightarrow> tok_utf8 t \<Longrightarrow> res_utf8 (jstep st e t)"
  by (cases e) (auto intro: valstep_utf8 keystep_utf8 endstep_utf8)

lemma jrun_utf8: "jrun st e s = Some (v, r) \<Longrightarrow> list_all frame_utf8 st \<Longrightarrow> json_utf8 v"
proof (induction st e s rule: jrun.induct)
  case (1 st e s)
  from 1(2) obtain t r' where lex: "lex1 s = Some (t, r')"
    by (subst (asm) jrun.simps) (auto split: option.splits)
  note ok = jstep_utf8 [OF 1(3) lex1_utf8 [OF lex], of e]
  show ?case
  proof (cases "jstep st e t")
    case (More st' e')
    with 1 lex ok show ?thesis by (subst (asm) (2) jrun.simps) simp
  qed (use 1 lex ok in \<open>(subst (asm) (2) jrun.simps, simp)\<close>)+
qed

lemma jparse_utf8: "jparse s = Some v \<Longrightarrow> json_utf8 v"
  by (auto simp: jparse_def dest: jrun_utf8 split: option.splits if_splits)

lemma jfirst_utf8: "jfirst s = Some v \<Longrightarrow> json_utf8 v"
  by (auto simp: jfirst_def dest: jrun_utf8)

section \<open>The decoders\<close>

text \<open>
  \<open>keeps P dec\<close>: decoding a well-typed text into a value that satisfies \<open>P\<close> gives one that
  does.  Each decoder has a rule, so the rule of a struct follows from those of its fields.
\<close>

definition keeps :: "('a \<Rightarrow> bool) \<Rightarrow> (json \<Rightarrow> 'a \<Rightarrow> bool \<times> 'a) \<Rightarrow> bool" where
  "keeps P dec \<longleftrightarrow> (\<forall>v x. json_utf8 v \<longrightarrow> P x \<longrightarrow> P (snd (dec v x)))"

lemma keeps_string: "keeps valid_utf8 decString"
  by (auto simp: keeps_def decString_def split: json.splits)

lemma parseInt_ok: "parseInt w = Some n \<Longrightarrow> int64_ok n"
  by (auto simp: parseInt_def Let_def split: if_splits)

lemma keeps_int64: "keeps int64_ok decInt64"
  by (auto simp: keeps_def decInt64_def dest: parseInt_ok split: json.splits option.splits)

lemma keeps_snd: "keeps P dec \<Longrightarrow> json_utf8 v \<Longrightarrow> P x \<Longrightarrow> P (snd (dec v x))"
  by (simp add: keeps_def)

lemma keeps_members:
  assumes "\<And>f. keeps P (set_field f)" "\<forall>kv \<in> set kvs. json_utf8 (snd kv)" "P x"
  shows "P (snd (decMembers set_field fs kvs x))"
  using assms(2,3)
proof (induction kvs arbitrary: x)
  case (Cons kv kvs)
  obtain k v where kv: "kv = (k, v)" by (cases kv)
  with Cons.prems have "P (snd (set_field f v x))" for f by (intro keeps_snd [OF assms(1)]) simp_all
  with Cons show ?case by (simp add: kv split_beta split: option.split)
qed simp

lemma keeps_struct:
  assumes "\<And>f. keeps P (set_field f)"
  shows "keeps P (decStruct set_field fs)"
  unfolding keeps_def
proof (intro allI impI)
  fix v x assume "json_utf8 v" "P x"
  then show "P (snd (decStruct set_field fs v x))"
    using keeps_members [of P set_field, OF assms] by (cases v) (auto simp: decStruct_def)
qed

lemma keeps_list:
  assumes "keeps P dec" "P zero" "\<forall>v \<in> set vs. json_utf8 v" "list_all P cur"
  shows "list_all P (snd (decList dec zero vs cur))"
  using assms(3,4)
proof (induction vs arbitrary: cur)
  case (Cons v vs)
  have "P (case cur of [] \<Rightarrow> zero | x # _ \<Rightarrow> x)" using Cons.prems(2) assms(2) by (cases cur) simp_all
  moreover have "list_all P (tl cur)" using Cons.prems(2) by (cases cur) simp_all
  ultimately show ?case
    using Cons keeps_snd [OF assms(1), of v] by (simp add: split_beta)
qed simp

lemma keeps_ptr:
  assumes "keeps P dec" "P zero"
  shows "keeps (\<lambda>x. \<forall>y. x = Some y \<longrightarrow> P y) (decPtr dec zero)"
  using assms unfolding keeps_def
  by (auto simp: decPtr_def split: json.split option.split)

lemma unmarshal_keeps: "keeps P dec \<Longrightarrow> P zero \<Longrightarrow> P (snd (unmarshal dec zero data))"
  by (auto simp: unmarshal_def keeps_def dest: jparse_utf8 split: option.split)

lemma decodeFirst_keeps: "keeps P dec \<Longrightarrow> P zero \<Longrightarrow> P (snd (decodeFirst dec zero data))"
  by (auto simp: decodeFirst_def keeps_def dest: jfirst_utf8 split: option.split)

section \<open>Base64 is ASCII\<close>

lemma b64_val_ascii: "b64_val c = Some v \<Longrightarrow> code c < 128"
  by (auto simp: b64_val_def Let_def split: if_splits)

lemma nl_ascii: "is_nl c \<Longrightarrow> code c < 128"
  by (auto simp: is_nl_def)

text \<open>A quantum that is not corrupt consumed only ASCII characters.\<close>

lemma b64_quantum_ascii:
  "b64_quantum acc cs = (r, out, False) \<Longrightarrow> \<forall>c \<in> set r. code c < 128 \<Longrightarrow> \<forall>c \<in> set cs. code c < 128"
proof (induction acc cs rule: b64_quantum.induct)
  case (2 acc c cs)
  have nls: "\<forall>x \<in> set ys. code x < 128" if "dropWhile is_nl ys = []" for ys
    using that nl_ascii by auto
  have pad: "code CHR ''='' < 128" by (simp add: code_def)
  have eq: "\<forall>x \<in> set ys. code x < 128" if "dropWhile is_nl ys = d # ds" "d = CHR ''=''" "dropWhile is_nl ds = []" for ys d ds
  proof -
    have "ys = takeWhile is_nl ys @ d # ds" using that(1) takeWhile_dropWhile_id by metis
    then have "set ys = set (takeWhile is_nl ys) \<union> insert d (set ds)" by (metis set_append list.simps(15))
    with that(2,3) nls [of ds] nl_ascii pad show ?thesis by (auto dest: set_takeWhileD)
  qed
  show ?case
  proof (cases "b64_val c")
    case None
    with 2 nls eq show ?thesis
      by (auto simp: nl_ascii pad Let_def split: if_splits list.splits)
  next
    case (Some v)
    with 2 b64_val_ascii [OF Some] show ?thesis by (auto split: if_splits)
  qed
qed simp

lemma b64_ascii: "\<not> snd (b64_decode s) \<Longrightarrow> \<forall>c \<in> set s. code c < 128"
proof (induction s rule: b64_decode.induct)
  case (2 c cs)
  obtain r out err where q: "b64_quantum [] (c # cs) = (r, out, err)" by (metis prod_cases3)
  with 2(2) have "\<not> err" "\<not> snd (b64_decode r)"
    by (auto simp del: b64_quantum.simps split: if_splits prod.splits)
  with 2(1) [OF q [symmetric]] b64_quantum_ascii [of "[]" "c # cs" r out] q show ?case by simp
qed simp

lemma b64_valid_utf8: "\<not> snd (b64_decode s) \<Longrightarrow> valid_utf8 s"
  using b64_ascii valid_utf8_ascii by blast

end
