(* ===== verification/Prekey_Props.thy ===== *)
theory Prekey_Props
  imports Prekey_Store Json_Utf8
begin

text \<open>
  What the prekey store of theory \<open>Prekey_Store\<close> promises: validation accepts exactly
  the well-formed bundles, one-time prekeys are served at most once and in order, users
  do not affect each other, and bundles survive restarts.
\<close>

section \<open>Validation\<close>

definition b64_of_len :: "string \<Rightarrow> nat \<Rightarrow> bool" where
  "b64_of_len s n \<longleftrightarrow> \<not> snd (b64_decode s) \<and> length (fst (b64_decode s)) = n"

lemma checkBase64Len_iff: "checkBase64Len s n = None \<longleftrightarrow> b64_of_len s n"
  by (auto simp: checkBase64Len_def b64_of_len_def split: prod.split)

lemma checkOTPKs_iff:
  "checkOTPKs seen xs = None \<longleftrightarrow>
     (\<forall>k \<in> set xs. b64_of_len (otpk_Key k) prekeyPubKeyLen) \<and> distinct (map otpk_ID xs)
     \<and> set seen \<inter> otpk_ID ` set xs = {}"
  by (induction seen xs rule: checkOTPKs.induct) (auto simp: checkBase64Len_iff)

definition bundle_ok :: "PrekeyBundle \<Rightarrow> bool" where
  "bundle_ok b \<longleftrightarrow> b64_of_len (pb_IdentityKey b) 32 \<and> b64_of_len (pb_SignedPrekey b) 32
     \<and> b64_of_len (pb_SignedPrekeySig b) 64 \<and> pb_SignedPrekeyID b \<noteq> 0
     \<and> length (pb_OneTimePrekeys b) \<le> 100
     \<and> (\<forall>k \<in> set (pb_OneTimePrekeys b). b64_of_len (otpk_Key k) 32)
     \<and> distinct (map otpk_ID (pb_OneTimePrekeys b))"

lemma validate_iff: "validatePrekeyBundle b = None \<longleftrightarrow> bundle_ok b"
  by (auto simp: validatePrekeyBundle_def bundle_ok_def checkBase64Len_iff checkOTPKs_iff
      prekeyPubKeyLen_def prekeySigLen_def maxOneTimePrekeys_def)

lemma bundle_ok_pop: "bundle_ok b \<Longrightarrow> pb_OneTimePrekeys b = k # ks \<Longrightarrow> bundle_ok (b\<lparr>pb_OneTimePrekeys := ks\<rparr>)"
  by (simp add: bundle_ok_def)

text \<open>A slice with elements is not nil; a bundle with its flag put right, and the copy kept.\<close>

definition slice_ok :: "PrekeyBundle \<Rightarrow> bool" where
  "slice_ok b \<longleftrightarrow> (pb_OTPKsNil b \<longrightarrow> pb_OneTimePrekeys b = [])"

definition asDecoded :: "PrekeyBundle \<Rightarrow> PrekeyBundle" where
  "asDecoded b = b\<lparr>pb_OTPKsNil := (pb_OneTimePrekeys b = [] \<and> pb_OTPKsNil b)\<rparr>"

lemma copyBundle_simps [simp]:
  "pb_IdentityKey (copyBundle b) = pb_IdentityKey b" "pb_SignedPrekey (copyBundle b) = pb_SignedPrekey b"
  "pb_SignedPrekeySig (copyBundle b) = pb_SignedPrekeySig b" "pb_SignedPrekeyID (copyBundle b) = pb_SignedPrekeyID b"
  "pb_OneTimePrekeys (copyBundle b) = pb_OneTimePrekeys b" "copyBundle (asDecoded b) = copyBundle b"
  "slice_ok (copyBundle b)" "staticResponse (copyBundle b) = staticResponse b"
  by (simp_all add: copyBundle_def asDecoded_def slice_ok_def staticResponse_def)

lemma bundle_ok_copy [simp]: "bundle_ok (copyBundle b) = bundle_ok b" "bundle_ok (asDecoded b) = bundle_ok b"
  by (simp_all add: bundle_ok_def asDecoded_def)

lemma asDecoded_id: "slice_ok b \<Longrightarrow> asDecoded b = b"
  by (cases b) (auto simp: asDecoded_def slice_ok_def)

section \<open>Runs of operations\<close>

datatype psOp = OpRegister string PrekeyBundle | OpGet string bool | OpConsume string

text \<open>An operation, with the one-time prekeys it hands out.\<close>

definition ps_exec :: "crypto \<Rightarrow> psOp \<times> persistEnv \<Rightarrow> PrekeyStore \<times> fs
    \<Rightarrow> (string \<times> OneTimePrekey) list \<times> PrekeyStore \<times> fs" where
  "ps_exec cr oe w =
     (case oe of
        (OpRegister u b, env) \<Rightarrow> ([], snd (registerBundle cr env w u b))
      | (OpGet u consume, env) \<Rightarrow>
          (case getBundleWithOTPK cr env w u consume of (r, w') \<Rightarrow>
             (case r of
                None \<Rightarrow> []
              | Some resp \<Rightarrow> (case pr_OneTimePrekey resp of None \<Rightarrow> [] | Some k \<Rightarrow> [(u, k)]), w'))
      | (OpConsume u, env) \<Rightarrow>
          (case consumeOneTimePrekey cr env w u of (r, w') \<Rightarrow>
             (case r of None \<Rightarrow> [] | Some k \<Rightarrow> [(u, k)], w')))"

fun ps_run :: "crypto \<Rightarrow> (psOp \<times> persistEnv) list \<Rightarrow> PrekeyStore \<times> fs
    \<Rightarrow> (string \<times> OneTimePrekey) list \<times> PrekeyStore \<times> fs" where
  "ps_run cr [] w = ([], w)"
| "ps_run cr (oe # oes) w =
     (case ps_exec cr oe w of (ks, w') \<Rightarrow> case ps_run cr oes w' of (ks', w'') \<Rightarrow> (ks @ ks', w''))"

definition otpks_of :: "PrekeyStore \<Rightarrow> string \<Rightarrow> OneTimePrekey list" where
  "otpks_of ps u = (case map_of (ps_bundles ps) u of None \<Rightarrow> [] | Some b \<Rightarrow> pb_OneTimePrekeys b)"

definition served :: "string \<Rightarrow> (string \<times> OneTimePrekey) list \<Rightarrow> OneTimePrekey list" where
  "served u ks = map snd (filter (\<lambda>(v, k). v = u) ks)"

lemma served_simps [simp]:
  "served u [] = []" "served u (xs @ ys) = served u xs @ served u ys"
  "served u ((v, k) # xs) = (if v = u then k # served u xs else served u xs)"
  by (simp_all add: served_def)

definition registers :: "string \<Rightarrow> psOp \<Rightarrow> bool" where
  "registers u op \<longleftrightarrow> (\<exists>b. op = OpRegister u b)"

text \<open>What is handed out and what is left make up what there was.\<close>

lemma exec_conserves:
  assumes "ps_exec cr (op, env) (ps, d) = (ks, ps', d')" "\<not> registers u op"
  shows "served u ks @ otpks_of ps' u = otpks_of ps u"
  using assms
  by (cases op)
    (auto simp: ps_exec_def registerBundle_def getBundleWithOTPK_def consumeOneTimePrekey_def
      otpks_of_def staticResponse_def registers_def Let_def
      split: prod.splits option.splits if_splits bool.splits list.splits)

lemma run_conserves:
  assumes "ps_run cr oes (ps, d) = (ks, ps', d')" "\<forall>(op, env) \<in> set oes. \<not> registers u op"
  shows "served u ks @ otpks_of ps' u = otpks_of ps u"
  using assms
proof (induction oes arbitrary: ps d ks)
  case (Cons oe oes)
  obtain op env where oe: "oe = (op, env)" by (cases oe)
  obtain ks1 ps1 d1 where 1: "ps_exec cr oe (ps, d) = (ks1, ps1, d1)" by (cases "ps_exec cr oe (ps, d)") auto
  obtain ks2 where 2: "ps_run cr oes (ps1, d1) = (ks2, ps', d')" "ks = ks1 @ ks2"
    using Cons.prems(1) 1 by (auto split: prod.splits)
  from exec_conserves [OF 1 [unfolded oe], of u] Cons.IH [OF 2(1)] Cons.prems(2) show ?case
    by (simp add: oe 2(2))
qed simp

section \<open>Invariant\<close>

text \<open>
  The fields of a well-formed bundle are base64, hence ASCII; the name it is registered
  under comes out of the JSON decoder and is valid UTF-8.
\<close>

definition bundle_utf8 :: "PrekeyBundle \<Rightarrow> bool" where
  "bundle_utf8 b \<longleftrightarrow> valid_utf8 (pb_IdentityKey b) \<and> valid_utf8 (pb_SignedPrekey b)
     \<and> valid_utf8 (pb_SignedPrekeySig b) \<and> (\<forall>k \<in> set (pb_OneTimePrekeys b). valid_utf8 (otpk_Key k))"

lemma bundle_ok_utf8: "bundle_ok b \<Longrightarrow> bundle_utf8 b"
  by (simp add: bundle_ok_def bundle_utf8_def b64_of_len_def b64_valid_utf8)

definition op_utf8 :: "psOp \<Rightarrow> bool" where
  "op_utf8 op \<longleftrightarrow> (\<forall>u b. op = OpRegister u b \<longrightarrow> valid_utf8 u)"

definition entry_ok :: "string \<times> PrekeyBundle \<Rightarrow> bool" where
  "entry_ok e \<longleftrightarrow> (case e of (u, b) \<Rightarrow> u \<noteq> [] \<and> valid_utf8 u \<and> bundle_ok b \<and> bundle_utf8 b \<and> slice_ok b)"

definition ps_wf :: "PrekeyStore \<Rightarrow> bool" where
  "ps_wf ps \<longleftrightarrow> gm_wf (ps_bundles ps) \<and> length (ps_key ps) = 32
     \<and> (\<forall>u b. map_of (ps_bundles ps) u = Some b \<longrightarrow> entry_ok (u, b))"

lemma entry_ok_pop: "entry_ok (u, b) \<Longrightarrow> pb_OneTimePrekeys b = k # ks \<Longrightarrow> entry_ok (u, b\<lparr>pb_OneTimePrekeys := ks\<rparr>)"
  by (auto simp: entry_ok_def bundle_ok_pop bundle_utf8_def slice_ok_def)

lemma ps_wf_put: "ps_wf ps \<Longrightarrow> entry_ok (u, b) \<Longrightarrow> ps_wf (ps\<lparr>ps_bundles := gm_put u b (ps_bundles ps)\<rparr>)"
  by (auto simp: ps_wf_def)

lemma ps_wf_entry: "ps_wf ps \<Longrightarrow> map_of (ps_bundles ps) u = Some b \<Longrightarrow> entry_ok (u, b)"
  by (simp add: ps_wf_def)

text \<open>An operation leaves store and disk alone, or changes one bundle and saves.\<close>

lemma ps_exec_cases:
  assumes "ps_exec cr (op, env) (ps, d) = (ks, ps', d')"
  obtains (same) "ps' = ps" "d' = d"
  | (changed) u b where "ps' = ps\<lparr>ps_bundles := gm_put u b (ps_bundles ps)\<rparr>"
      "d' = snd (prekey_persistLocked cr env ps' d)"
      "(\<exists>b0. op = OpRegister u b0 \<and> u \<noteq> [] \<and> bundle_ok b0 \<and> b = copyBundle b0)
       \<or> (\<exists>b0 k ks. map_of (ps_bundles ps) u = Some b0 \<and> pb_OneTimePrekeys b0 = k # ks
            \<and> b = b0\<lparr>pb_OneTimePrekeys := ks\<rparr>)"
proof (cases op)
  case (OpRegister u b)
  with assms show ?thesis
    using same changed [of u "copyBundle b"]
    by (auto simp: ps_exec_def registerBundle_def Let_def validate_iff [symmetric]
        split: if_splits option.splits prod.splits)
next
  case (OpGet u c)
  with assms show ?thesis
    using same changed [of u]
    by (fastforce simp: ps_exec_def getBundleWithOTPK_def Let_def
        split: option.splits prod.splits bool.splits list.splits)
next
  case (OpConsume u)
  with assms show ?thesis
    using same changed [of u]
    by (fastforce simp: ps_exec_def consumeOneTimePrekey_def Let_def
        split: option.splits prod.splits list.splits)
qed

lemma ps_exec_wf:
  assumes "ps_exec cr (op, env) (ps, d) = (ks, ps', d')" "ps_wf ps" "op_utf8 op"
  shows "ps_wf ps' \<and> ps_storePath ps' = ps_storePath ps \<and> ps_key ps' = ps_key ps
    \<and> (d' = d \<or> d' = snd (prekey_persistLocked cr env ps' d))"
  using assms(1)
proof (cases rule: ps_exec_cases)
  case same
  with assms(2) show ?thesis by simp
next
  case (changed u b)
  have "entry_ok (u, b)"
    using changed(3)
  proof
    assume "\<exists>b0. op = OpRegister u b0 \<and> u \<noteq> [] \<and> bundle_ok b0 \<and> b = copyBundle b0"
    with assms(3) show ?thesis by (auto simp: entry_ok_def op_utf8_def bundle_ok_utf8)
  next
    assume "\<exists>b0 k ks. map_of (ps_bundles ps) u = Some b0 \<and> pb_OneTimePrekeys b0 = k # ks
      \<and> b = b0\<lparr>pb_OneTimePrekeys := ks\<rparr>"
    with assms(2) show ?thesis using ps_wf_entry entry_ok_pop by blast
  qed
  with changed assms(2) show ?thesis by (simp add: ps_wf_put)
qed

section \<open>Round trip of the bundle map\<close>

lemma bundle_keys_utf8 [simp]:
  "valid_utf8 ''id''" "valid_utf8 ''key''" "valid_utf8 ''identity_key''" "valid_utf8 ''signed_prekey''"
  "valid_utf8 ''signed_prekey_sig''" "valid_utf8 ''signed_prekey_id''" "valid_utf8 ''one_time_prekeys''"
  by (rule valid_utf8_key, simp add: code_def)+

lemma jfits_elems_all: "jfits_elems n vs \<longleftrightarrow> (\<forall>v \<in> set vs. jfits n v)"
  by (induction vs) auto

lemma jfits_members_all: "jfits_members n kvs \<longleftrightarrow> (\<forall>(k, v) \<in> set kvs. valid_utf8 k \<and> jfits n v)"
  by (induction kvs) auto

lemma uint_number: "valid_number (nat_digits n) \<and> list_all num_char (nat_digits n)"
  using formatInt_number [of "int n"] by (simp add: formatInt_def)

lemma jsonOTPK_fits: "valid_utf8 (otpk_Key k) \<Longrightarrow> jfits (Suc n) (jsonOTPK k)"
  by (simp add: jsonOTPK_def uint_number)

lemma jsonBundle_fits: "bundle_utf8 b \<Longrightarrow> jfits (Suc (Suc (Suc n))) (jsonBundle b)"
  by (simp add: jsonBundle_def bundle_utf8_def uint_number jfits_elems_all jsonOTPK_fits)

lemma decOTPK_json: "decOTPK (jsonOTPK k) x = (False, k)"
  by (cases k) (simp add: decOTPK_def jsonOTPK_def decode_simps setOTPK_def)

lemma decList_OTPKs: "decList decOTPK zeroOTPK (map jsonOTPK ks) cur = (False, ks)"
  by (induction ks arbitrary: cur) (simp_all add: decOTPK_json)

lemma decBundle_json: "decBundle (jsonBundle b) zeroBundle = (False, asDecoded b)"
  by (cases b) (simp add: decBundle_def jsonBundle_def decode_simps setBundle_def bundleFields_def
      zeroBundle_def decOTPKs_def decList_OTPKs asDecoded_def)

lemma decPtr_bundle: "slice_ok b \<Longrightarrow> decPtr decBundle zeroBundle (jsonBundle b) None = (False, Some b)"
  using decBundle_json [of b] by (simp add: decPtr_def jsonBundle_def asDecoded_id)

lemma map_add_upd_left: "k \<notin> dom m2 \<Longrightarrow> m1(k \<mapsto> x) ++ m2 = (m1 ++ m2)(k \<mapsto> x)"
  by (auto simp: map_add_def dom_def fun_eq_iff split: option.split)

lemma decMap_json:
  assumes "distinct (map fst kvs)" "\<forall>(k, b) \<in> set kvs. slice_ok b"
  shows "\<exists>m'. decMap decBundle zeroBundle (map (\<lambda>(k, b). (k, jsonBundle b)) kvs) m = (False, m')
    \<and> map_of m' = map_of m ++ map_of (map (\<lambda>(k, b). (k, Some b)) kvs) \<and> (gm_wf m \<longrightarrow> gm_wf m')"
  using assms
proof (induction kvs arbitrary: m)
  case (Cons kv kvs)
  obtain k b where kv: "kv = (k, b)" by (cases kv)
  from Cons.prems have "distinct (map fst kvs)" "\<forall>(k, b) \<in> set kvs. slice_ok b" by simp_all
  from Cons.IH [OF this, of "gm_put k (Some b) m"] obtain m' where
    m': "decMap decBundle zeroBundle (map (\<lambda>(k, b). (k, jsonBundle b)) kvs) (gm_put k (Some b) m) = (False, m')"
    "map_of m' = map_of (gm_put k (Some b) m) ++ map_of (map (\<lambda>(k, b). (k, Some b)) kvs)"
    "gm_wf (gm_put k (Some b) m) \<longrightarrow> gm_wf m'" by blast
  have "k \<notin> dom (map_of (map (\<lambda>(k, b). (k, Some b)) kvs))"
    using Cons.prems by (simp add: kv map_of_map dom_map_option_comp dom_map_of_conv_image_fst)
  then have "map_of m' = map_of m ++ map_of (map (\<lambda>(k, b). (k, Some b)) (kv # kvs))"
    by (simp add: kv m'(2) map_add_upd_left)
  moreover have "decMap decBundle zeroBundle (map (\<lambda>(k, b). (k, jsonBundle b)) (kv # kvs)) m = (False, m')"
    using Cons.prems(2) by (simp add: kv decPtr_bundle m'(1))
  moreover have "gm_wf m \<longrightarrow> gm_wf m'" using m'(3) by simp
  ultimately show ?case by blast
qed simp

lemma fold_keepBundle:
  assumes "distinct (map fst es)"
  shows "map_of (fold keepBundle es m) u
    = (case map_of es u of Some (Some b) \<Rightarrow> Some b | _ \<Rightarrow> map_of m u)"
  using assms
proof (induction es arbitrary: m)
  case (Cons e es)
  obtain v x where e: "e = (v, x)" by (cases e)
  from Cons have "map_of es v = None" by (auto simp: e map_of_eq_None_iff)
  with Cons show ?case by (auto simp: e keepBundle_def split: option.split)
qed simp

lemma fold_keepBundle_wf: "gm_wf m \<Longrightarrow> gm_wf (fold keepBundle es m)"
  by (induction es arbitrary: m) (auto simp: keepBundle_def split: prod.split option.split)

lemma jsonBundles_load:
  assumes "gm_wf m" "\<forall>u b. map_of m u = Some b \<longrightarrow> valid_utf8 u \<and> bundle_utf8 b \<and> slice_ok b"
  shows "\<exists>loaded. unmarshal decBundles [] (jprint (jsonBundles m)) = (False, loaded)
    \<and> map_of (fold keepBundle loaded []) = map_of m \<and> gm_wf (fold keepBundle loaded [])"
proof -
  have mem: "valid_utf8 u \<and> bundle_utf8 b \<and> slice_ok b" if "(u, b) \<in> set m" for u b
    using assms that by (simp add: gm_wf_def)
  have fits: "jfits (Suc (Suc (Suc (Suc n)))) (jsonBundles m)" for n
    using mem by (fastforce simp: jsonBundles_def jfits_members_all jsonBundle_fits)
  then have "jfits maxNestingDepth (jsonBundles m)"
    by (simp add: maxNestingDepth_def numeral_eq_Suc)
  then have u: "unmarshal decBundles [] (jprint (jsonBundles m))
      = decMap decBundle zeroBundle (map (\<lambda>(k, b). (k, jsonBundle b)) (sort_key fst m)) []"
    by (simp add: unmarshal_jprint) (simp add: jsonBundles_def decBundles_def)
  have d: "distinct (map fst (sort_key fst m))"
    using assms(1) by (simp add: gm_wf_def distinct_map)
  have "\<forall>(k, b) \<in> set (sort_key fst m). slice_ok b" using mem by auto
  from decMap_json [OF d this, of "[]"] obtain loaded where
    l: "unmarshal decBundles [] (jprint (jsonBundles m)) = (False, loaded)" "gm_wf loaded"
    "map_of loaded = map_of (map (\<lambda>(k, b). (k, Some b)) (sort_key fst m))" by (auto simp: u)
  have "map_of (map (\<lambda>(k, b). (k, Some b)) (sort_key fst m)) v = map_option Some (map_of m v)" for v
  proof -
    have "map_of (sort_key fst m) = map_of m"
      using assms(1) d by (intro map_of_inject_set [THEN iffD2]) (simp_all add: gm_wf_def)
    then show ?thesis by (simp add: map_of_map)
  qed
  with l show ?thesis
    using fold_keepBundle_wf [of "[]" loaded]
    by (auto simp: fold_keepBundle gm_wf_def fun_eq_iff split: option.split)
qed

section \<open>Persistence\<close>

definition prekey_image :: "crypto \<Rightarrow> PrekeyStore \<Rightarrow> bytes \<Rightarrow> bool" where
  "prekey_image cr ps b \<longleftrightarrow>
     (\<exists>rnd. encrypt cr (ps_key ps) rnd (jprint (jsonBundles (ps_bundles ps))) = Inr b)"

interpretation pk: snapshot_file "prekey_persistLocked cr" ps_storePath "prekey_image cr"
  for cr
proof (unfold_locales, goal_cases)
  case (1 env s d d')
  then show ?case
    by (auto simp: prekey_persistLocked_def prekey_image_def split: sum.splits dest!: replaceFile_ok)
next
  case (2 env s d e d')
  then show ?case
    by (auto simp: prekey_persistLocked_def split: sum.splits dest: replaceFile_err)
next
  case (3 d p s env)
  then show ?case
    by (auto simp: prekey_persistLocked_def replaceFile_frame split: sum.splits)
qed

text \<open>An image loads as the map it was made from.\<close>

lemma load_prekeys:
  assumes "gcm_correct cr" "ps_wf ps0" "prekey_image cr ps0 (fdata f)" "disk (ps_storePath ps) = Some f"
    and "ps_key ps = ps_key ps0" "ps_bundles ps = []" "ke_load env = None"
  shows "\<exists>m. prekey_loadFromDisk cr env ps disk = Inr (ps\<lparr>ps_bundles := m\<rparr>)
    \<and> map_of m = map_of (ps_bundles ps0) \<and> gm_wf m"
proof -
  let ?plain = "jprint (jsonBundles (ps_bundles ps0))"
  from assms(3) obtain rnd where enc: "encrypt cr (ps_key ps0) rnd ?plain = Inr (fdata f)"
    by (auto simp: prekey_image_def)
  have len: "\<not> length (fdata f) < gcmNonceSize" "fdata f \<noteq> []"
    using encrypt_nonce [OF enc] by (auto simp: gcmNonceSize_def)
  from decrypt_encrypt [OF assms(1) enc]
  have dec: "newCipher (ps_key ps0) = None"
    "gcmOpen cr (ps_key ps0) (take gcmNonceSize (fdata f)) (drop gcmNonceSize (fdata f)) = Some ?plain"
    by (auto simp: decrypt_def split: option.splits if_splits)
  have "\<forall>u b. map_of (ps_bundles ps0) u = Some b \<longrightarrow> valid_utf8 u \<and> bundle_utf8 b \<and> slice_ok b"
    using ps_wf_entry [OF assms(2)] by (auto simp: entry_ok_def)
  with assms(2) obtain loaded where "unmarshal decBundles [] ?plain = (False, loaded)"
    "map_of (fold keepBundle loaded []) = map_of (ps_bundles ps0)" "gm_wf (fold keepBundle loaded [])"
    using jsonBundles_load [of "ps_bundles ps0"] by (auto simp: ps_wf_def)
  with assms(4-7) len dec show ?thesis
    by (intro exI [of _ "fold keepBundle loaded []"]) (simp add: prekey_loadFromDisk_def readFile_def)
qed

lemma replaceFile_absent:
  assumes "disk path = None" "\<not> suffix ''.tmp'' path"
  shows "snd (replaceFile env disk path pre sealed) path = None
    \<or> fst (replaceFile env disk path pre sealed) = None"
proof -
  have "tmp \<noteq> path" if "createTemp disk dir pre names = Some tmp" for tmp dir names
    using createTemp_suffix [OF that] assms(2) by blast
  with assms(1) show ?thesis
    by (auto simp: replaceFile_def removeFile_def Let_def split: option.split)
qed

section \<open>Lives of a prekey store\<close>

text \<open>
  As for the offline queue: a first start on an empty disk, operations under any faults,
  crashes and restarts.
\<close>

definition honest_load :: "prekeyEnv \<Rightarrow> bool" where
  "honest_load env \<longleftrightarrow> ke_read (ke_key env) \<noteq> Some ErrNotExist \<and> ke_load env \<noteq> Some ErrNotExist"

inductive prekey_life :: "crypto \<Rightarrow> string \<Rightarrow> PrekeyStore \<times> fs \<Rightarrow> bool"
  for cr path where
  first: "NewPrekeyStore cr env Map.empty path = (Inr ps, d) \<Longrightarrow> prekey_life cr path (ps, d)"
| serves: "prekey_life cr path (ps, d) \<Longrightarrow> op_utf8 op \<Longrightarrow> ps_exec cr (op, env) (ps, d) = (ks, ps', d') \<Longrightarrow>
     prekey_life cr path (ps', d')"
| again: "prekey_life cr path (ps, d) \<Longrightarrow> d' path = d path \<Longrightarrow>
     d' (path @ keyFileSuffix) = d (path @ keyFileSuffix) \<Longrightarrow> honest_load env \<Longrightarrow>
     NewPrekeyStore cr env d' path = (Inr ps', d'') \<Longrightarrow> prekey_life cr path (ps', d'')"

definition pk_saved :: "crypto \<Rightarrow> string \<Rightarrow> bytes \<Rightarrow> fs \<Rightarrow> bool" where
  "pk_saved cr path key d \<longleftrightarrow>
     (\<exists>f. d (path @ keyFileSuffix) = Some f \<and> fdata f = key) \<and>
     (d path = None \<or>
      (\<exists>f ps0. d path = Some f \<and> ps_wf ps0 \<and> ps_key ps0 = key \<and> prekey_image cr ps0 (fdata f)))"

definition pk_inv :: "crypto \<Rightarrow> string \<Rightarrow> PrekeyStore \<times> fs \<Rightarrow> bool" where
  "pk_inv cr path w \<longleftrightarrow> ps_wf (fst w) \<and> ps_storePath (fst w) = path
     \<and> pk_saved cr path (ps_key (fst w)) (snd w)"

lemma suffix_key [simp]: "keyFileSuffix \<noteq> []"
  by (simp add: keyFileSuffix_def)

lemma persist_pk_saved:
  assumes "pk_saved cr path (ps_key ps) d" "ps_wf ps" "ps_storePath ps = path" "\<not> suffix ''.tmp'' path"
  shows "pk_saved cr path (ps_key ps) (snd (prekey_persistLocked cr env ps d))"
proof -
  let ?r = "prekey_persistLocked cr env ps d"
  from assms(1) obtain f where k: "d (path @ keyFileSuffix) = Some f" "fdata f = ps_key ps"
    by (auto simp: pk_saved_def)
  have key: "snd ?r (path @ keyFileSuffix) = Some f"
    using pk.persist_frame [of d "path @ keyFileSuffix" ps cr env] k(1) assms(3) by simp
  have new: "\<exists>f ps0. snd ?r path = Some f \<and> ps_wf ps0 \<and> ps_key ps0 = ps_key ps \<and> prekey_image cr ps0 (fdata f)"
    if "fst ?r = None"
    using pk.persist_ok [of cr env ps d "snd ?r"] that assms(2,3) by (cases ?r) auto
  have "snd ?r path = None \<or>
      (\<exists>f ps0. snd ?r path = Some f \<and> ps_wf ps0 \<and> ps_key ps0 = ps_key ps \<and> prekey_image cr ps0 (fdata f))"
  proof (cases "d path")
    case None
    then have "snd ?r path = None \<or> fst ?r = None"
      using replaceFile_absent [of d path env "''prekeys-''", OF None assms(4)] assms(3)
      by (auto simp: prekey_persistLocked_def split: sum.splits)
    then show ?thesis using new by (elim disjE) simp_all
  next
    case (Some g)
    then have "snd ?r path = d path \<or> fst ?r = None"
      using pk.persist_err [of cr env ps d _ "snd ?r"] assms(3) by (cases "fst ?r"; cases ?r) auto
    with new assms(1) show ?thesis by (auto simp: pk_saved_def)
  qed
  with key k(2) show ?thesis by (simp add: pk_saved_def)
qed

lemma NewPrekeyStore_inv:
  assumes "gcm_correct cr" "NewPrekeyStore cr env d path = (Inr ps, d')"
    and "d path = None \<and> d (path @ keyFileSuffix) = None \<or> honest_load env \<and> pk_saved cr path key d"
  shows "pk_inv cr path (ps, d')"
proof -
  obtain key' where lk: "loadOrCreateKey (ke_key env) d (path @ keyFileSuffix) = (Inr key', d')"
    and ld: "prekey_loadFromDisk cr env \<lparr>ps_bundles = [], ps_storePath = path, ps_key = key'\<rparr> d' = Inr ps"
    using assms(2) by (auto simp: NewPrekeyStore_def split: option.splits prod.splits sum.splits)
  note len = loadOrCreateKey_length [OF lk]
  have d': "\<exists>f. d' (path @ keyFileSuffix) = Some f \<and> fdata f = key'"
    using lk assms(3)
    by (auto simp: loadOrCreateKey_def readFile_def Let_def writeFile_def pk_saved_def honest_load_def
        split: sum.splits option.splits prod.splits if_splits writeOutcome.splits)
  have same: "d' path = d path"
    using loadOrCreateKey_frame [of path "path @ keyFileSuffix" "ke_key env" d] lk by simp
  have key: "key' = key" if "pk_saved cr path key d" "honest_load env"
    using lk that
    by (auto simp: loadOrCreateKey_def readFile_def pk_saved_def honest_load_def
        split: option.splits if_splits)
  show ?thesis
  proof (cases "d' path")
    case None
    with ld have "ps = \<lparr>ps_bundles = [], ps_storePath = path, ps_key = key'\<rparr>"
      by (auto simp: prekey_loadFromDisk_def readFile_def split: option.splits if_splits)
    with len d' None show ?thesis by (simp add: pk_inv_def ps_wf_def pk_saved_def)
  next
    case (Some f)
    with assms(3) same have h: "honest_load env" "pk_saved cr path key d" by auto
    with Some same key [OF h(2,1)] obtain ps0 where
      0: "honest_load env" "ps_wf ps0" "ps_key ps0 = key'" "prekey_image cr ps0 (fdata f)"
      unfolding pk_saved_def by auto
    from ld Some 0(1) have "ke_load env = None"
      by (auto simp: prekey_loadFromDisk_def readFile_def honest_load_def split: option.splits if_splits)
    with load_prekeys [OF assms(1) 0(2,4), of d' "\<lparr>ps_bundles = [], ps_storePath = path, ps_key = key'\<rparr>" env]
    obtain m where m: "ps = \<lparr>ps_bundles = m, ps_storePath = path, ps_key = key'\<rparr>"
      "map_of m = map_of (ps_bundles ps0)" "gm_wf m"
      using ld Some 0(3) by auto
    with 0 Some d' show ?thesis by (auto simp: pk_inv_def ps_wf_def pk_saved_def)
  qed
qed

lemma prekey_life_inv:
  assumes "gcm_correct cr" "\<not> suffix ''.tmp'' path" "prekey_life cr path w"
  shows "pk_inv cr path w"
  using assms(3)
proof (induction rule: prekey_life.induct)
  case (first env ps d)
  then show ?case using NewPrekeyStore_inv [OF assms(1)] by simp
next
  case (serves ps d op env ks ps' d')
  then have "ps_wf ps" "ps_storePath ps = path" "pk_saved cr path (ps_key ps) d"
    by (simp_all add: pk_inv_def)
  with ps_exec_wf [OF serves(3) _ serves(2)] persist_pk_saved [OF _ _ _ assms(2), of cr ps' d env]
  show ?case by (auto simp: pk_inv_def)
next
  case (again ps d d' env ps' d'')
  then have "pk_saved cr path (ps_key ps) d'" by (simp add: pk_inv_def pk_saved_def)
  with again NewPrekeyStore_inv [OF assms(1) again(5)] show ?case by blast
qed

section \<open>Properties\<close>

text \<open>
  C9: One-time prekeys are single-use.  After a bundle has been accepted for a user, any
  sequence of fetches, throttled fetches and consumptions for any users (with bundles of
  other users registered in between), whatever saves fail, hands out a prefix of that
  bundle's one-time prekeys, in order; so no id is handed out twice.
\<close>

theorem otpk_single_use:
  assumes "registerBundle cr env (ps, d) u b = (r, ps1, d1)" "u \<noteq> []" "validatePrekeyBundle b = None"
    and "ps_run cr oes (ps1, d1) = (ks, ps2, d2)" "\<forall>(op, e) \<in> set oes. \<not> registers u op"
  shows "prefix (served u ks) (pb_OneTimePrekeys b) \<and> distinct (map otpk_ID (served u ks))"
proof -
  have "otpks_of ps1 u = pb_OneTimePrekeys b"
    using assms(1-3) by (auto simp: registerBundle_def Let_def otpks_of_def split: prod.splits)
  with run_conserves [OF assms(4,5)] have eq: "served u ks @ otpks_of ps2 u = pb_OneTimePrekeys b" by simp
  have "distinct (map otpk_ID (pb_OneTimePrekeys b))"
    using assms(3) by (simp add: validate_iff bundle_ok_def)
  with eq [symmetric] show ?thesis by (auto simp: prefix_def)
qed

text \<open>
  Validation accepts exactly the well-formed bundles: base64 fields that decode to
  32, 32 and 64 bytes, a non-zero signed-prekey id, at most 100 one-time prekeys with
  pairwise distinct ids and 32-byte keys.
\<close>

theorem validation_exact:
  "validatePrekeyBundle b = None \<longleftrightarrow>
     b64_of_len (pb_IdentityKey b) 32 \<and> b64_of_len (pb_SignedPrekey b) 32
     \<and> b64_of_len (pb_SignedPrekeySig b) 64 \<and> pb_SignedPrekeyID b \<noteq> 0
     \<and> length (pb_OneTimePrekeys b) \<le> 100
     \<and> list_all (\<lambda>k. b64_of_len (otpk_Key k) 32) (pb_OneTimePrekeys b)
     \<and> distinct (map otpk_ID (pb_OneTimePrekeys b))"
  by (auto simp: validate_iff bundle_ok_def list_all_iff)

text \<open>
  Over the whole life of the prekey store (operations under arbitrary faults, crashes,
  restarts) every bundle it serves is well-formed: the identity key and the signed prekey
  decode to 32 bytes, the signature to 64, the signed-prekey id is not zero and the
  one-time prekey, if any, decodes to 32 bytes.
\<close>

theorem served_bundles_valid:
  assumes "gcm_correct cr" "\<not> suffix ''.tmp'' path" "prekey_life cr path (ps, d)"
    and "getBundleWithOTPK cr env (ps, d) u consume = (Some r, w')"
  shows "b64_of_len (pr_IdentityKey r) 32 \<and> b64_of_len (pr_SignedPrekey r) 32
    \<and> b64_of_len (pr_SignedPrekeySig r) 64 \<and> pr_SignedPrekeyID r \<noteq> 0
    \<and> (case pr_OneTimePrekey r of None \<Rightarrow> True | Some k \<Rightarrow> b64_of_len (otpk_Key k) 32)"
proof -
  obtain b where b: "map_of (ps_bundles ps) u = Some b"
    using assms(4) by (auto simp: getBundleWithOTPK_def split: option.splits)
  have "ps_wf ps" using prekey_life_inv [OF assms(1-3)] by (simp add: pk_inv_def)
  from ps_wf_entry [OF this b] have "bundle_ok b" by (simp add: entry_ok_def)
  with assms(4) b show ?thesis
    by (auto simp: getBundleWithOTPK_def bundle_ok_def staticResponse_def Let_def
        split: bool.splits list.splits)
qed

text \<open>
  C21: Bundles survive a restart: after a successful save, the store opened on the
  resulting disk answers every lookup as before.
\<close>

theorem bundles_survive_restart:
  assumes "gcm_correct cr" "\<not> suffix ''.tmp'' path" "prekey_life cr path (ps, d)"
    and "prekey_persistLocked cr env ps d = (None, d')"
    and "ke_mkdirs env' = None" "ke_read (ke_key env') = None" "ke_load env' = None"
  shows "\<exists>ps'. NewPrekeyStore cr env' d' path = (Inr ps', d')
    \<and> map_of (ps_bundles ps') = map_of (ps_bundles ps)"
proof -
  have inv: "ps_wf ps" "ps_storePath ps = path" "pk_saved cr path (ps_key ps) d"
    using prekey_life_inv [OF assms(1-3)] by (simp_all add: pk_inv_def)
  from persist_pk_saved [OF inv(3,1,2) assms(2), of env] assms(4) obtain f where
    k: "d' (path @ keyFileSuffix) = Some f" "fdata f = ps_key ps" by (auto simp: pk_saved_def)
  from pk.persist_ok [OF assms(4)] obtain g where
    g: "prekey_image cr ps (fdata g)" "d' path = Some g" unfolding inv(2)
    by (metis fileRec.select_convs(1))
  have len: "length (ps_key ps) = 32" using inv(1) by (simp add: ps_wf_def)
  have "loadOrCreateKey (ke_key env') d' (path @ keyFileSuffix) = (Inr (ps_key ps), d')"
    using k len assms(6) by (simp add: loadOrCreateKey_def readFile_def)
  moreover obtain m where "prekey_loadFromDisk cr env'
      \<lparr>ps_bundles = [], ps_storePath = path, ps_key = ps_key ps\<rparr> d'
      = Inr \<lparr>ps_bundles = m, ps_storePath = path, ps_key = ps_key ps\<rparr>" "map_of m = map_of (ps_bundles ps)"
    using load_prekeys [OF assms(1) inv(1) g(1), of d'
        "\<lparr>ps_bundles = [], ps_storePath = path, ps_key = ps_key ps\<rparr>" env'] g(2) assms(7) by auto
  ultimately show ?thesis using assms(5) by (auto simp: NewPrekeyStore_def)
qed

text \<open>
  What a user publishes is what a fetch returns, byte for byte, with the first
  one-time prekey; the bundle left behind differs only in having lost it.
\<close>

theorem fetch_returns_published:
  assumes "registerBundle cr env (ps, d) u b = (r, ps1, d1)" "u \<noteq> []" "bundle_ok b"
    and "getBundle cr env' (ps1, d1) u = (resp, ps2, d2)"
  shows "resp = Some \<lparr>pr_IdentityKey = pb_IdentityKey b, pr_SignedPrekey = pb_SignedPrekey b,
       pr_SignedPrekeySig = pb_SignedPrekeySig b, pr_SignedPrekeyID = pb_SignedPrekeyID b,
       pr_OneTimePrekey = (case pb_OneTimePrekeys b of [] \<Rightarrow> None | k # ks \<Rightarrow> Some k)\<rparr>
    \<and> map_of (ps_bundles ps2) u = Some ((copyBundle b)\<lparr>pb_OneTimePrekeys := tl (pb_OneTimePrekeys b)\<rparr>)"
  using assms
  by (cases "pb_OneTimePrekeys b")
    (auto simp: registerBundle_def validate_iff [symmetric] getBundle_def getBundleWithOTPK_def
      staticResponse_def Let_def split: prod.splits)

text \<open>
  A rejected registration (empty user or malformed bundle) is an error and changes
  neither the store nor the disk.
\<close>

theorem bad_bundle_rejected:
  assumes "u = [] \<or> \<not> bundle_ok b"
  shows "\<exists>e. registerBundle cr env (ps, d) u b = (Some e, ps, d)"
  using assms by (cases "validatePrekeyBundle b") (auto simp: registerBundle_def validate_iff)

text \<open>
  Throttling is not an oracle.  The answer to a throttled fetch is the answer the
  same user's bundle would give with its one-time prekeys exhausted, and a throttled
  fetch changes nothing.
\<close>

theorem throttled_looks_exhausted:
  assumes "map_of (ps_bundles ps) u = Some b"
  shows "getBundleWithOTPK cr env (ps, d) u False =
      (fst (getBundleWithOTPK cr env' (ps\<lparr>ps_bundles := gm_put u (b\<lparr>pb_OneTimePrekeys := []\<rparr>)
         (ps_bundles ps)\<rparr>, d') u True), ps, d)"
  using assms by (simp add: getBundleWithOTPK_def Let_def staticResponse_def)

text \<open>
  Users are isolated: no operation on one user's behalf changes another user's bundle.
\<close>

theorem other_bundles_untouched:
  assumes "ps_exec cr (op, env) (ps, d) = (ks, ps', d')"
    and "case op of OpRegister u _ \<Rightarrow> v \<noteq> u | OpGet u _ \<Rightarrow> v \<noteq> u | OpConsume u \<Rightarrow> v \<noteq> u"
  shows "map_of (ps_bundles ps') v = map_of (ps_bundles ps) v \<and> v \<notin> fst ` set ks"
  using assms
  by (cases op)
    (auto simp: ps_exec_def registerBundle_def getBundleWithOTPK_def consumeOneTimePrekey_def Let_def
      split: prod.splits option.splits if_splits bool.splits list.splits)

text \<open>
  A one-time prekey is handed out even when saving its removal fails: the bundle file
  then still holds the old bundle, so a crash and restart brings the prekey back.
\<close>

theorem failed_save_keeps_old_bundle:
  assumes "d (ps_storePath ps) = Some f" "map_of (ps_bundles ps) u = Some b"
    and "pb_OneTimePrekeys b = k # ks" "pe_rename env \<noteq> None" "getBundle cr env (ps, d) u = (Some r, ps', d')"
  shows "pr_OneTimePrekey r = Some k \<and> d' (ps_storePath ps) = Some f"
proof -
  let ?ps = "ps\<lparr>ps_bundles := gm_put u (b\<lparr>pb_OneTimePrekeys := ks\<rparr>) (ps_bundles ps)\<rparr>"
  have "fst (prekey_persistLocked cr env ?ps d) \<noteq> None"
    using assms(4) by (auto simp: prekey_persistLocked_def replaceFile_def Let_def split: sum.split option.split)
  then have "snd (prekey_persistLocked cr env ?ps d) (ps_storePath ps) = Some f"
    using pk.persist_err [of cr env ?ps d] assms(1) by (cases "prekey_persistLocked cr env ?ps d") auto
  with assms(2,3,5) show ?thesis by (auto simp: getBundle_def getBundleWithOTPK_def Let_def)
qed

section \<open>A concrete prekey store\<close>

definition demo_bundle :: PrekeyBundle where
  "demo_bundle = \<lparr>pb_IdentityKey = b64_encode (replicate 32 CHR ''i''),
     pb_SignedPrekey = b64_encode (replicate 32 CHR ''s''),
     pb_SignedPrekeySig = b64_encode (replicate 64 CHR ''g''), pb_SignedPrekeyID = 1,
     pb_OneTimePrekeys = [\<lparr>otpk_ID = 1, otpk_Key = b64_encode (replicate 32 CHR ''a'')\<rparr>,
                          \<lparr>otpk_ID = 2, otpk_Key = b64_encode (replicate 32 CHR ''b'')\<rparr>],
     pb_OTPKsNil = False\<rparr>"

definition demo_prekey_start :: prekeyEnv where
  "demo_prekey_start = \<lparr>ke_mkdirs = None,
     ke_key = \<lparr>ke_read = None, ke_rand = replicate 32 CHR ''k'', ke_mkdir = None, ke_write = WriteOk\<rparr>,
     ke_load = None\<rparr>"

definition demo_save_env :: persistEnv where
  "demo_save_env = \<lparr>pe_rand = replicate 12 CHR ''n'', pe_names = [''1''], pe_create = ErrIO, pe_write = None,
     pe_chmod = None, pe_close = None, pe_rename = None, pe_remove = True\<rparr>"

definition demo_ps0 :: PrekeyStore where
  "demo_ps0 = \<lparr>ps_bundles = [], ps_storePath = ''p'', ps_key = replicate 32 CHR ''k''\<rparr>"

definition demo_pd0 :: fs where
  "demo_pd0 = [''p.key'' \<mapsto> \<lparr>fdata = replicate 32 CHR ''k'', fmode = mode0600\<rparr>]"

definition demo_ps :: PrekeyStore where
  "demo_ps = demo_ps0\<lparr>ps_bundles := [(''bob'', demo_bundle)]\<rparr>"

definition demo_pd :: fs where
  "demo_pd = snd (snd (registerBundle plainCrypto demo_save_env (demo_ps0, demo_pd0) ''bob'' demo_bundle))"

lemma demo_bundle_ok: "bundle_ok demo_bundle"
  by (simp add: bundle_ok_def demo_bundle_def b64_of_len_def b64_decode_encode)

lemma demo_copy: "copyBundle demo_bundle = demo_bundle"
  by (simp add: copyBundle_def demo_bundle_def)

lemma demo_prekey_first: "NewPrekeyStore plainCrypto demo_prekey_start Map.empty ''p'' = (Inr demo_ps0, demo_pd0)"
  by (simp add: NewPrekeyStore_def demo_prekey_start_def loadOrCreateKey_def readFile_def writeFile_def
      keyFileSuffix_def prekey_loadFromDisk_def demo_ps0_def demo_pd0_def Let_def)

lemma demo_persist_ok:
  assumes "length (ps_key ps) = 32" "ps_storePath ps = ''p''" "d ''./prekeys-1.tmp'' = None"
  shows "\<exists>d'. prekey_persistLocked plainCrypto demo_save_env ps d = (None, d') \<and> d' ''./prekeys-1.tmp'' = None"
proof -
  have "filepathDir ''p'' = ''.''" "tempName ''.'' ''prekeys-'' ''1'' = ''./prekeys-1.tmp''" by code_simp+
  with assms show ?thesis
    by (auto simp: prekey_persistLocked_def encrypt_def newCipher_def demo_save_env_def gcmNonceSize_def
        replaceFile_def createTemp_def renameFile_def Let_def)
qed

lemma demo_register:
  "registerBundle plainCrypto demo_save_env (demo_ps0, demo_pd0) ''bob'' demo_bundle = (None, demo_ps, demo_pd)"
  "demo_pd ''./prekeys-1.tmp'' = None"
proof -
  obtain d' where "prekey_persistLocked plainCrypto demo_save_env demo_ps demo_pd0 = (None, d')"
    "d' ''./prekeys-1.tmp'' = None"
    using demo_persist_ok [of demo_ps demo_pd0] by (auto simp: demo_ps_def demo_ps0_def demo_pd0_def)
  moreover have "demo_ps0\<lparr>ps_bundles := gm_put ''bob'' (copyBundle demo_bundle) (ps_bundles demo_ps0)\<rparr> = demo_ps"
    by (simp add: demo_copy demo_ps_def demo_ps0_def gm_put_def)
  moreover have "validatePrekeyBundle demo_bundle = None" by (simp add: validate_iff demo_bundle_ok)
  ultimately have "registerBundle plainCrypto demo_save_env (demo_ps0, demo_pd0) ''bob'' demo_bundle
      = (None, demo_ps, d')" "d' ''./prekeys-1.tmp'' = None"
    by (simp_all add: registerBundle_def)
  then show "registerBundle plainCrypto demo_save_env (demo_ps0, demo_pd0) ''bob'' demo_bundle = (None, demo_ps, demo_pd)"
    "demo_pd ''./prekeys-1.tmp'' = None" by (simp_all add: demo_pd_def)
qed

lemma demo_prekey_life: "prekey_life plainCrypto ''p'' (demo_ps, demo_pd)"
proof (rule prekey_life.serves [OF prekey_life.first [OF demo_prekey_first]])
  have "valid_utf8 ''bob''" by (rule valid_utf8_key) (simp add: code_def)
  then show "op_utf8 (OpRegister ''bob'' demo_bundle)"
    by (simp add: op_utf8_def)
  show "ps_exec plainCrypto (OpRegister ''bob'' demo_bundle, demo_save_env) (demo_ps0, demo_pd0) = ([], demo_ps, demo_pd)"
    by (simp add: ps_exec_def demo_register)
qed

lemma demo_path: "\<not> suffix ''.tmp'' ''p''"
  by (simp add: suffix_def)

subsection \<open>Witnesses\<close>

theorem otpk_single_use_witness:
  "let ks = fst (ps_run plainCrypto [(OpGet ''bob'' True, demo_save_env), (OpGet ''bob'' False, demo_save_env),
       (OpConsume ''bob'', demo_save_env), (OpGet ''bob'' True, demo_save_env)] (demo_ps, demo_pd)) in
   prefix (served ''bob'' ks) (pb_OneTimePrekeys demo_bundle) \<and> distinct (map otpk_ID (served ''bob'' ks))"
proof -
  let ?oes = "[(OpGet ''bob'' True, demo_save_env), (OpGet ''bob'' False, demo_save_env),
       (OpConsume ''bob'', demo_save_env), (OpGet ''bob'' True, demo_save_env)]"
  obtain ks ps' d' where run: "ps_run plainCrypto ?oes (demo_ps, demo_pd) = (ks, ps', d')"
    by (cases "ps_run plainCrypto ?oes (demo_ps, demo_pd)") auto
  have "prefix (served ''bob'' ks) (pb_OneTimePrekeys demo_bundle) \<and> distinct (map otpk_ID (served ''bob'' ks))"
    by (rule otpk_single_use [OF demo_register(1) _ _ run])
      (simp_all add: validate_iff demo_bundle_ok registers_def)
  then show ?thesis unfolding Let_def run by simp
qed

theorem served_bundles_valid_witness:
  "case fst (getBundleWithOTPK plainCrypto demo_save_env (demo_ps, demo_pd) ''bob'' True) of
     None \<Rightarrow> False
   | Some r \<Rightarrow> b64_of_len (pr_IdentityKey r) 32 \<and> b64_of_len (pr_SignedPrekey r) 32
       \<and> b64_of_len (pr_SignedPrekeySig r) 64 \<and> pr_SignedPrekeyID r \<noteq> 0
       \<and> (case pr_OneTimePrekey r of None \<Rightarrow> True | Some k \<Rightarrow> b64_of_len (otpk_Key k) 32)"
proof -
  obtain r w' where r: "getBundleWithOTPK plainCrypto demo_save_env (demo_ps, demo_pd) ''bob'' True = (Some r, w')"
    by (simp add: getBundleWithOTPK_def demo_ps_def demo_bundle_def Let_def)
  from served_bundles_valid [OF plainCrypto_gcm demo_path demo_prekey_life r] show ?thesis by (simp add: r)
qed

theorem bundles_survive_restart_witness:
  "\<exists>d' ps'. NewPrekeyStore plainCrypto demo_prekey_start d' ''p'' = (Inr ps', d')
    \<and> map_of (ps_bundles ps') = map_of (ps_bundles demo_ps)"
proof -
  obtain d' where "prekey_persistLocked plainCrypto demo_save_env demo_ps demo_pd = (None, d')"
    using demo_persist_ok [of demo_ps demo_pd] demo_register(2) by (auto simp: demo_ps_def demo_ps0_def)
  from bundles_survive_restart [OF plainCrypto_gcm demo_path demo_prekey_life this, of demo_prekey_start]
  show ?thesis by (auto simp: demo_prekey_start_def)
qed

theorem fetch_returns_published_witness:
  "pr_IdentityKey (the (fst (getBundle plainCrypto demo_save_env (demo_ps, demo_pd) ''bob'')))
     = b64_encode (replicate 32 CHR ''i'')"
  using fetch_returns_published [OF demo_register(1) _ demo_bundle_ok, of demo_save_env
      "fst (getBundle plainCrypto demo_save_env (demo_ps, demo_pd) ''bob'')"
      "fst (snd (getBundle plainCrypto demo_save_env (demo_ps, demo_pd) ''bob''))"
      "snd (snd (getBundle plainCrypto demo_save_env (demo_ps, demo_pd) ''bob''))"]
  by (simp add: demo_bundle_def)

theorem bad_bundle_rejected_witness:
  "\<exists>e. registerBundle plainCrypto demo_save_env (demo_ps, demo_pd) ''eve'' (demo_bundle\<lparr>pb_SignedPrekeyID := 0\<rparr>)
     = (Some e, demo_ps, demo_pd)"
  by (rule bad_bundle_rejected) (simp add: bundle_ok_def)

theorem throttled_looks_exhausted_witness:
  "getBundleWithOTPK plainCrypto demo_save_env (demo_ps, demo_pd) ''bob'' False =
      (fst (getBundleWithOTPK plainCrypto demo_save_env (demo_ps\<lparr>ps_bundles :=
         gm_put ''bob'' (demo_bundle\<lparr>pb_OneTimePrekeys := []\<rparr>) (ps_bundles demo_ps)\<rparr>, demo_pd) ''bob'' True),
       demo_ps, demo_pd)"
  by (rule throttled_looks_exhausted) (simp add: demo_ps_def)

theorem other_bundles_untouched_witness:
  "map_of (ps_bundles (fst (snd (ps_exec plainCrypto (OpConsume ''eve'', demo_save_env) (demo_ps, demo_pd))))) ''bob''
     = map_of (ps_bundles demo_ps) ''bob''
   \<and> ''bob'' \<notin> fst ` set (fst (ps_exec plainCrypto (OpConsume ''eve'', demo_save_env) (demo_ps, demo_pd)))"
  by (rule other_bundles_untouched [where op = "OpConsume ''eve''" and d' = "snd (snd (ps_exec plainCrypto (OpConsume ''eve'', demo_save_env)
        (demo_ps, demo_pd)))"]) simp_all

theorem failed_save_keeps_old_bundle_witness:
  "let r = getBundle plainCrypto (demo_save_env\<lparr>pe_rename := Some ErrPermission\<rparr>)
             (demo_ps, [''p'' \<mapsto> \<lparr>fdata = ''old'', fmode = mode0600\<rparr>]) ''bob'' in
   map_option pr_OneTimePrekey (fst r) = Some (Some (hd (pb_OneTimePrekeys demo_bundle)))
   \<and> snd (snd r) ''p'' = Some \<lparr>fdata = ''old'', fmode = mode0600\<rparr>"
proof -
  let ?env = "demo_save_env\<lparr>pe_rename := Some ErrPermission\<rparr>"
  let ?d = "[''p'' \<mapsto> \<lparr>fdata = ''old'', fmode = mode0600\<rparr>] :: fs"
  obtain r ps' d' where r: "getBundle plainCrypto ?env (demo_ps, ?d) ''bob'' = (Some r, ps', d')"
    by (simp add: getBundle_def getBundleWithOTPK_def demo_ps_def demo_bundle_def Let_def)
  have "pr_OneTimePrekey r = Some (hd (pb_OneTimePrekeys demo_bundle))
      \<and> d' (ps_storePath demo_ps) = Some \<lparr>fdata = ''old'', fmode = mode0600\<rparr>"
    by (rule failed_save_keeps_old_bundle [OF _ _ _ _ r, where b = demo_bundle and ks = "tl (pb_OneTimePrekeys demo_bundle)"])
      (simp_all add: demo_ps_def demo_ps0_def demo_bundle_def)
  then show ?thesis unfolding Let_def r by (simp add: demo_ps_def demo_ps0_def)
qed

end
