(* ===== verification/Server_Props.thy ===== *)
theory Server_Props
  imports Server Router_Props Prekey_Props
begin

text \<open>
  Properties of the server of theory \<open>Server\<close>: the invariant of the whole relay over any
  interleaving of connections, requests and purges, and what each handler guarantees.
\<close>

section \<open>The invariant of the relay\<close>

definition entries_ok :: "(string, PrekeyBundle) gomap \<Rightarrow> bool" where
  "entries_ok m \<longleftrightarrow> gm_wf m \<and> (\<forall>u b. map_of m u = Some b \<longrightarrow> u \<noteq> [] \<and> bundle_ok b)"

lemma entries_ok_put: "entries_ok m \<Longrightarrow> u \<noteq> [] \<Longrightarrow> bundle_ok b \<Longrightarrow> entries_ok (gm_put u b m)"
  by (simp add: entries_ok_def)

lemma entries_ok_get: "entries_ok m \<Longrightarrow> map_of m u = Some b \<Longrightarrow> u \<noteq> [] \<and> bundle_ok b"
  by (simp add: entries_ok_def)

definition relay_ok :: "Server \<Rightarrow> bool" where
  "relay_ok sv \<longleftrightarrow> store_wf (sv_store sv)
     \<and> entries_ok (ps_bundles (sv_prekeys sv))
     \<and> perMin (sv_certLimiter sv) = certRequestsPerMin
     \<and> perMin (sv_prekeyLimiter sv) = prekeyFetchesPerMinPerTarget
     \<and> rt_relayID (sv_router sv) = RelayID (sv_cfg sv)
     \<and> rt_ratePerMin (sv_router sv) = RateLimitPerMin (sv_cfg sv)
     \<and> rt_maxMessageSize (sv_router sv) = MaxMessageSize (sv_cfg sv)"

inductive relay_step :: "crypto \<Rightarrow> sqliteDriver \<Rightarrow> Server \<times> fs \<Rightarrow> Server \<times> fs \<Rightarrow> bool"
  for cr drv where
  opens: "relay_step cr drv w (snd (snd (openConn cr drv aenv fenv w c addr)))"
| frame: "relay_step cr drv w (snd (handleAuthedFrame cr drv env w u c data))"
| closes: "relay_step cr drv w (closeConn w u c)"
| prekeys: "relay_step cr drv w (snd (handlePrekeysGet cr now penv w r))"
| federation: "relay_step cr drv w (snd (snd (handleFederationDeliver cr drv env w r)))"
| purges: "purgeExpired cr drv env (sv_store sv, disk) = (st, disk') \<Longrightarrow>
     relay_step cr drv (sv, disk) (sv\<lparr>sv_store := st\<rparr>, disk')"
| stops: "relay_step cr drv (sv, disk) (snd (Run how sv), disk)"

inductive_cases relay_stepE: "relay_step cr drv w w'"

lemma FlushQueue_wf: "store_wf s \<Longrightarrow> FlushQueue cr drv env (s, d) u c = (acts, s', d') \<Longrightarrow> store_wf s'"
  using DrainQueue_wf [of s cr drv "fl_drain env" d u] flushLoop_wf [of _ cr drv "fl_write env" "fl_enq env" 0 u c]
  by (auto simp: FlushQueue_def split: prod.splits) (metis fst_conv snd_conv)

lemma getBundle_entries:
  assumes "getBundleWithOTPK cr env (ps, d) u consume = (r, ps', d')" "entries_ok (ps_bundles ps)"
  shows "entries_ok (ps_bundles ps')"
  using assms entries_ok_get [OF assms(2), of u]
  by (auto simp: getBundleWithOTPK_def Let_def bundle_ok_pop intro!: entries_ok_put
      split: option.splits bool.splits list.splits)

lemma registerBundle_entries:
  assumes "registerBundle cr env (ps, d) u b = (r, ps', d')" "entries_ok (ps_bundles ps)"
  shows "entries_ok (ps_bundles ps')"
  using assms
  by (auto simp: registerBundle_def Let_def validate_iff intro!: entries_ok_put
      split: if_splits option.splits prod.splits)

lemma openConn_ok:
  assumes "relay_ok sv"
  shows "relay_ok (fst (snd (snd (openConn cr drv aenv fenv (sv, d) c addr))))"
proof -
  have "store_wf st'" if "FlushQueue cr drv fenv (snd (Register (sv_store sv) u c), d) u c = (acts, st', d')"
    for u acts st' d'
    using FlushQueue_wf [OF _ that] registry_wf(1) assms by (simp add: relay_ok_def)
  with assms show ?thesis
    by (auto simp: openConn_def relay_ok_def Let_def split: prod.splits option.splits) (metis snd_conv)
qed

lemma Route_ok:
  assumes "Route cr drv now env r (s, d) u p = (acts, r', s', d')" "store_wf s"
  shows "store_wf s' \<and> rt_relayID r' = rt_relayID r \<and> rt_ratePerMin r' = rt_ratePerMin r
    \<and> rt_maxMessageSize r' = rt_maxMessageSize r"
proof -
  have "store_wf s'" using Route_wf [of "(s, d)" cr drv now env r u p] assms by simp
  moreover have "r' = r \<or> r' = snd (Router_allow r u now)"
    using assms(1) by (auto simp: Route_def split: if_splits prod.splits bool.splits option.splits)
  ultimately show ?thesis by (auto simp: frame_simps ro.keeps_lim)
qed

lemma issueSenderCert_ok:
  "relay_ok sv \<Longrightarrow> relay_ok (snd (issueSenderCert cr env sv u c))"
  using rl.keeps_lim [of "sv_certLimiter sv" u "ct_limit env"]
  by (auto simp: issueSenderCert_def relay_ok_def Let_def split: prod.splits bool.splits option.splits)

lemma handleAuthedFrame_ok:
  assumes "relay_ok sv"
  shows "relay_ok (fst (snd (handleAuthedFrame cr drv env (sv, d) u c data)))"
proof -
  obtain err tp where h: "unmarshalHeader data = (err, tp)" by (cases "unmarshalHeader data")
  consider (cert) "\<not> err \<and> tp = ''request_sender_cert''"
    | (reg) "\<not> (\<not> err \<and> tp = ''request_sender_cert'')" "tp = ''register_prekeys''"
    | (route) "\<not> (\<not> err \<and> tp = ''request_sender_cert'')" "tp \<noteq> ''register_prekeys''" by blast
  then show ?thesis
  proof cases
    case cert
    then show ?thesis
      using issueSenderCert_ok [OF assms] by (simp add: handleAuthedFrame_def h split_beta)
  next
    case reg
    have "relay_ok (sv\<lparr>sv_prekeys := ps\<rparr>)"
      if "registerBundle cr (fr_persist env) (sv_prekeys sv, d) u b = (e, ps, d')" for b e ps d'
      using registerBundle_entries [OF that] assms by (simp add: relay_ok_def)
    with assms reg show ?thesis
      by (auto simp: handleAuthedFrame_def h split: prod.split bool.split)
  next
    case route
    have "relay_ok (sv\<lparr>sv_router := r, sv_store := s\<rparr>)"
      if "Route cr drv (fr_now env) (fr_deliver env) (sv_router sv) (sv_store sv, d) u data = (acts, r, s, d')"
      for acts r s d'
      using Route_ok [OF that] assms by (simp add: relay_ok_def)
    with route show ?thesis by (auto simp: handleAuthedFrame_def h split: prod.split)
  qed
qed

lemma handlePrekeysGet_ok:
  assumes "relay_ok sv"
  shows "relay_ok (fst (snd (handlePrekeysGet cr now env (sv, d) r)))"
proof -
  have "relay_ok (sv\<lparr>sv_prekeyLimiter := lim, sv_prekeys := ps\<rparr>)"
    if "rateLimiter_allow (sv_prekeyLimiter sv) u now = (b, lim)"
      "getBundleWithOTPK cr env (sv_prekeys sv, d) u b = (resp, ps, d')" for u b lim resp ps d'
    using getBundle_entries [OF that(2)] rl.keeps_lim [of "sv_prekeyLimiter sv" u now] that(1) assms
    by (simp add: relay_ok_def)
  with assms show ?thesis
    by (auto simp: handlePrekeysGet_def Let_def split: prod.split option.split)
qed

lemma handleFederationDeliver_ok:
  assumes "relay_ok sv"
  shows "relay_ok (fst (snd (snd (handleFederationDeliver cr drv env (sv, d) r))))"
proof -
  have "relay_ok (sv\<lparr>sv_store := st\<rparr>)"
    if "deliver cr drv env (sv_router sv) (sv_store sv, d) rid m = (acts, st, d')" for rid m acts st d'
    using deliver_wf [of "(sv_store sv, d)" cr drv env "sv_router sv" rid m] that assms
    by (simp add: relay_ok_def)
  with assms show ?thesis
    by (auto simp: handleFederationDeliver_def Let_def split: prod.split)
qed

lemma closeConn_ok: "relay_ok sv \<Longrightarrow> relay_ok (fst (closeConn (sv, d) u c))"
  by (simp add: closeConn_def relay_ok_def registry_wf)

lemma Run_ok: "relay_ok sv \<Longrightarrow> relay_ok (snd (Run how sv))"
  by (cases how) (simp_all add: Run_def relay_ok_def registry_wf)

lemma relay_purge_ok:
  "relay_ok sv \<Longrightarrow> purgeExpired cr drv env (sv_store sv, d) = (st, d') \<Longrightarrow> relay_ok (sv\<lparr>sv_store := st\<rparr>)"
  using purgeExpired_wf [of "sv_store sv" cr drv env d] by (simp add: relay_ok_def)

lemmas handlers_ok = openConn_ok handleAuthedFrame_ok closeConn_ok handlePrekeysGet_ok
  handleFederationDeliver_ok relay_purge_ok Run_ok

lemma relay_step_ok: "relay_step cr drv w w' \<Longrightarrow> relay_ok (fst w) \<Longrightarrow> relay_ok (fst w')"
  by (cases w) (auto elim!: relay_stepE simp: handlers_ok)

lemma relay_run_ok: "(relay_step cr drv)\<^sup>*\<^sup>* w w' \<Longrightarrow> relay_ok (fst w) \<Longrightarrow> relay_ok (fst w')"
  by (induction rule: rtranclp_induct) (auto dest: relay_step_ok)

section \<open>Runs of prekey requests\<close>

fun gets_run :: "crypto \<Rightarrow> (request \<times> time \<times> persistEnv) list \<Rightarrow> Server \<times> fs \<Rightarrow> Server \<times> fs" where
  "gets_run cr [] w = w"
| "gets_run cr ((r, now, env) # rs) w = gets_run cr rs (snd (handlePrekeysGet cr now env w r))"

text \<open>The limiter calls a run of requests makes.\<close>

definition limiter_call :: "request \<times> time \<times> persistEnv \<Rightarrow> (string \<times> time) list" where
  "limiter_call x = (case x of (r, now, env) \<Rightarrow>
     let u = trimPrefix (rq_path r) ''/prekeys/'' in
     if rq_method r = ''GET'' \<and> u \<noteq> [] \<and> \<not> containsAny u ''/?#'' then [(u, now)] else [])"

lemma limiter_run_append:
  "limiter_run f s (xs @ ys) =
     (fst (limiter_run f s xs) @ fst (limiter_run f (snd (limiter_run f s xs)) ys),
      snd (limiter_run f (snd (limiter_run f s xs)) ys))"
  by (induction xs arbitrary: s) (auto simp: split_beta Let_def)

lemma get_step:
  "sv_prekeyLimiter (fst (snd (handlePrekeysGet cr now env (sv, d) r)))
     = snd (limiter_run rateLimiter_allow (sv_prekeyLimiter sv) (limiter_call (r, now, env)))"
  by (auto simp: handlePrekeysGet_def limiter_call_def Let_def split: option.split prod.split)

lemma gets_run_limiter:
  "sv_prekeyLimiter (fst (gets_run cr rs (sv, d)))
     = snd (limiter_run rateLimiter_allow (sv_prekeyLimiter sv) (concat (map limiter_call rs)))"
proof (induction rs arbitrary: sv d)
  case (Cons x rs)
  obtain r now env where x: "x = (r, now, env)" by (cases x)
  obtain sv' d' where w: "snd (handlePrekeysGet cr now env (sv, d) r) = (sv', d')"
    by (cases "snd (handlePrekeysGet cr now env (sv, d) r)")
  from Cons.IH [of sv' d'] get_step [of cr now env sv d r] show ?case
    by (simp add: x w limiter_run_append)
qed simp

section \<open>Properties\<close>

text \<open>
  The invariant of the whole relay, over any interleaving of connections being opened
  and closed, frames, prekey requests, federation requests and purges, under any faults:
  mailboxes stay within the cap, every stored prekey bundle is well-formed and belongs to
  a non-empty user, and all budgets are the configured ones.
\<close>

theorem relay_invariant:
  assumes "(relay_step cr drv)\<^sup>*\<^sup>* (sv, d) (sv', d')" "relay_ok sv"
  shows "relay_ok sv' \<and> length (mailbox (st_db (sv_store sv')) rid) \<le> 500"
proof -
  have "relay_ok sv'" using relay_run_ok [OF assms(1)] assms(2) by simp
  moreover then have "int (length (mailbox (st_db (sv_store sv')) rid)) \<le> 500"
    by (simp add: relay_ok_def store_wf_def maxQueuePerRecipient_def)
  ultimately show ?thesis by simp
qed

text \<open>
  A certificate sent in answer to a frame certifies the authenticated user of that
  connection with the identity key that user registered, whatever the frame contains, and
  verifies under the authority's public key.
\<close>

theorem certificate_binds_session:
  assumes "ed25519_correct cr" "genuine cr (ca_priv (sv_sealedCA sv))"
    and "ca_pub (sv_sealedCA sv) = keyPublic (ca_priv (sv_sealedCA sv))"
    and "unmarshalHeader data = (False, ''request_sender_cert'')"
    and "handleAuthedFrame cr drv env (sv, d) u c data = (acts, sv', d')" "Sent c' raw \<in> set acts"
    and "valid_utf8 u" "valid_utf8 (RelayID (sv_cfg sv))" "int64_ok (unixMilli (ct_issue (fr_cert env)) + 86400000)"
    and "\<forall>ik. identityKeyOf (sv_prekeys sv) u = Some ik \<longrightarrow> valid_utf8 ik"
  shows "\<exists>ik cert sig. c' = c \<and> identityKeyOf (sv_prekeys sv) u = Some ik
    \<and> raw = jprint (jsonCertReply cert sig) \<and> edVerify cr (ca_pub (sv_sealedCA sv)) cert sig
    \<and> unmarshalCert cert = (False, \<lparr>sc_Iss = RelayID (sv_cfg sv), sc_UID = u, sc_IK = ik,
         sc_Exp = unixMilli (ct_issue (fr_cert env)) + 86400000\<rparr>)"
proof -
  let ?t = "ct_issue (fr_cert env)"
  from assms(4-6) obtain ik cert sig where 1: "c' = c" "identityKeyOf (sv_prekeys sv) u = Some ik"
    "IssueCert cr (sv_sealedCA sv) u ik (RelayID (sv_cfg sv)) ?t = (cert, sig)"
    "raw = jprint (jsonCertReply cert sig)"
    by (auto simp: handleAuthedFrame_def issueSenderCert_def buildSenderCert_def Let_def
        split: prod.splits bool.splits option.splits if_splits)
  have "edVerify cr (ca_pub (sv_sealedCA sv)) cert sig"
    using genuine_signs(1) [OF assms(1,2)] 1(3) assms(3) by (auto simp: IssueCert_def Let_def)
  moreover have "valid_utf8 ik" using assms(10) 1(2) by blast
  then have "unmarshalCert cert = (False, \<lparr>sc_Iss = RelayID (sv_cfg sv), sc_UID = u, sc_IK = ik,
         sc_Exp = unixMilli ?t + 86400000\<rparr>)"
    using 1(3) assms(7-9)
    by (auto simp: IssueCert_def Let_def cert_lifetime unmarshal_marshalCert cert_wf_def)
  ultimately show ?thesis using 1 by blast
qed

text \<open>
  A session can only replace its own bundle: no frame of an authenticated user, well
  or ill formed, changes the prekey bundle of another user.
\<close>

theorem frames_touch_own_bundle:
  assumes "handleAuthedFrame cr drv env (sv, d) u c data = (acts, sv', d')" "v \<noteq> u"
  shows "map_of (ps_bundles (sv_prekeys sv')) v = map_of (ps_bundles (sv_prekeys sv)) v"
  using assms
  by (auto simp: handleAuthedFrame_def issueSenderCert_def registerBundle_def Let_def
      split: prod.splits bool.splits option.splits if_splits)

text \<open>
  The prekey endpoint answers a GET with 404 exactly when the path names no user or
  the user never registered; exhausted and throttled users get 200 like everybody else.
\<close>

theorem prekeys_404_iff_unregistered:
  assumes "rq_method r = ''GET''" "rq_path r = ''/prekeys/'' @ u"
    and "handlePrekeysGet cr now env (sv, d) r = (resp, sv', d')"
  shows "rs_status resp = (if u = [] \<or> containsAny u ''/?#'' \<or> map_of (ps_bundles (sv_prekeys sv)) u = None
    then 404 else 200)"
  using assms
  by (auto simp: handlePrekeysGet_def trimPrefix_def getBundleWithOTPK_def reply_def jsonReply_def Let_def
      split: prod.splits option.splits bool.splits list.splits if_splits)

lemma decode_marshalSealed:
  "sealed_wf x \<Longrightarrow> decodeFirst decSealed zeroSealed (marshalSealed x) = (False, x)"
  using fits_depth [OF jsonSealed_fits, of x] jfirst_jprint [of "jsonSealed x" "[]"]
  by (simp add: decodeFirst_def marshalSealed_def decSealed_json stops_def)

lemma local_parts:
  assumes "local_user relay rid = Some u"
  shows "splitN2 CHR ''@'' rid ! 0 = u" "CHR ''@'' \<notin> set u"
    "\<not> (length (splitN2 CHR ''@'' rid) = 2 \<and> \<not> isLocalRelay (splitN2 CHR ''@'' rid ! 1) relay)"
  using assms by (cases rule: splitN2_cases [of "CHR ''@''" rid]; auto simp: local_user_def split: if_splits)+

text \<open>
  A sealed envelope posted by another relay is delivered to the local recipient
  exactly as sent, its recipient id included, with the announcing relay recorded as the
  sender's relay; the answer is 204.
\<close>

theorem federation_delivers_locally:
  assumes "sealed_wf x" "se_RecipientID x \<noteq> []" "se_Ciphertext x \<noteq> []"
    and "rq_method r = ''POST''" "rq_relayID r \<noteq> []" "rq_body r = marshalSealed x"
    and "local_user (RelayID (sv_cfg sv)) (se_RecipientID x) = Some u"
    and "deliverLocal cr drv env (sv_store sv, d) u
       \<lparr>qm_Sealed = Some (x\<lparr>se_FederationSenderRelay := rq_relayID r\<rparr>), qm_Open = None, qm_ExpiresAt = 0\<rparr>
       = (acts, st, d')"
  shows "handleFederationDeliver cr drv env (sv, d) r = (reply 204, acts, sv\<lparr>sv_store := st\<rparr>, d')"
proof -
  have "deliver cr drv env (sv_router sv) (sv_store sv, d) u m = deliverLocal cr drv env (sv_store sv, d) u m" for m
    using local_parts(2) [OF assms(7)] by (simp add: deliver_def splitN2_none)
  with assms local_parts(1,3) [OF assms(7)] show ?thesis
    by (auto simp: handleFederationDeliver_def decode_marshalSealed Let_def)
qed

text \<open>
  The federation endpoint is no oracle and no open proxy: every POST is answered 204
  with an empty body, and a request for a recipient of another relay, without a relay id
  or without a decodable envelope changes nothing and causes no action.
\<close>

theorem federation_drops_silently:
  assumes "rq_method r = ''POST''" "handleFederationDeliver cr drv env (sv, d) r = (resp, acts, sv', d')"
    and "decodeFirst decSealed zeroSealed (rq_body r) = (err, x)"
  shows "resp = reply 204 \<and> (rq_relayID r = [] \<or> err \<or> local_user (RelayID (sv_cfg sv)) (se_RecipientID x) = None
    \<longrightarrow> acts = [] \<and> sv' = sv \<and> d' = d)"
proof -
  have "length (splitN2 CHR ''@'' (se_RecipientID x)) = 2
      \<and> \<not> isLocalRelay (splitN2 CHR ''@'' (se_RecipientID x) ! 1) (RelayID (sv_cfg sv))"
    if "local_user (RelayID (sv_cfg sv)) (se_RecipientID x) = None"
    using that by (cases rule: splitN2_cases [of "CHR ''@''" "se_RecipientID x"])
      (auto simp: local_user_def split: if_splits)
  with assms show ?thesis
    by (auto simp: handleFederationDeliver_def Let_def split: if_splits prod.splits)
qed

text \<open>
  A connection that fails the handshake affects nothing but the attempt counter of
  its address: no registration, no queue, no bundle changes, no other connection is
  written to, and it is closed with a policy violation after at most the challenge.
\<close>

theorem failed_auth_is_harmless:
  assumes "openConn cr drv aenv fenv (sv, d) c addr = (None, acts, sv', d')"
  shows "d' = d \<and> (\<exists>l. sv' = sv\<lparr>sv_auth := l\<rparr>)
    \<and> (acts = [CloseConn c 1008] \<or> acts = [Sent c (marshalChallenge (take 32 (au_rand aenv))), CloseConn c 1008])"
proof -
  obtain res msgs l where a: "Authenticate cr aenv (sv_auth sv) (ExtractIP addr) = (res, msgs, l)"
    by (cases "Authenticate cr aenv (sv_auth sv) (ExtractIP addr)") auto
  with assms have "res = None" by (auto simp: openConn_def Let_def split: option.splits prod.splits)
  moreover with a have "msgs = [] \<or> msgs = [marshalChallenge (take 32 (au_rand aenv))]"
    by (auto simp: Authenticate_def Let_def split: prod.splits bool.splits if_splits option.splits)
  ultimately show ?thesis using assms a by (auto simp: openConn_def Let_def)
qed

lemma flushLoop_all:
  assumes "\<forall>i. wr i"
  shows "flushLoop cr drv wr enq i u c ms w = (map (Sent c \<circ> frame_of) (filter has_envelope ms), w)"
proof (induction ms arbitrary: i)
  case (Cons m ms)
  have "marshalQueued m = Inl (ErrMsg ''no envelope'')" if "\<not> has_envelope m"
    using that by (simp add: has_envelope_def marshalQueued_def)
  with Cons assms marshal_envelope [of m] show ?case by (cases "has_envelope m") simp_all
qed simp

lemma Authenticate_honest:
  assumes "ed25519_correct cr" "length seed = 32" "uid \<noteq> []" "valid_utf8 uid"
    and "fst (authLimiter_allow l ip (au_now env))" "32 \<le> length (au_rand env)" "au_challenge env" "au_result env"
    and "au_reply env = Some (marshalAuthRequest (honest_request cr seed uid (take 32 (au_rand env))))"
  shows "\<exists>l'. Authenticate cr env l ip
    = (Some uid, [marshalChallenge (take 32 (au_rand env)), marshalAuthResponse True []], l')"
proof -
  let ?q = "honest_request cr seed uid (take 32 (au_rand env))"
  have "request_wf ?q" using assms(4) by (simp add: request_wf_def honest_request_def)
  with checkRequest_honest [OF assms(1-3), of "take 32 (au_rand env)"] assms(5-9) show ?thesis
    by (cases "authLimiter_allow l ip (au_now env)")
      (auto simp: Authenticate_def unmarshal_marshalAuthRequest Let_def honest_request_def)
qed

text \<open>
  C39: Any key pair takes over any user.  Whatever identity key the user has registered, a
  client that signs the challenge with a key of its own and claims the user's name is served
  as that user: the user's own connection, if there is one, is closed, every message waiting
  for the user is written to the intruder, in order, none of them is left, and the intruder
  is the registered connection from then on.
\<close>

theorem any_key_takes_mailbox:
  assumes "ed25519_correct cr" "length seed = 32" "u \<noteq> []" "valid_utf8 u" "CHR ''@'' \<notin> set u"
    and "fst (authLimiter_allow (sv_auth sv) (ExtractIP addr) (au_now aenv))" "32 \<le> length (au_rand aenv)"
    and "au_challenge aenv" "au_result aenv" "\<forall>i. fl_write fenv i" "drain_clean (fl_drain fenv)"
    and "au_reply aenv = Some (marshalAuthRequest (honest_request cr seed u (take 32 (au_rand aenv))))"
    and "store_wf (sv_store sv)" "\<not> st_stopped (sv_store sv)" "now = unix (de_now (fl_drain fenv))"
  shows "\<exists>sv' d'. openConn cr drv aenv fenv (sv, d) c addr = (Some u,
      [Sent c (marshalChallenge (take 32 (au_rand aenv))), Sent c (marshalAuthResponse True [])]
      @ (case LookupClient (sv_store sv) u of None \<Rightarrow> [] | Some p \<Rightarrow> [CloseConn p 1000])
      @ map (Sent c \<circ> frame_of) (filter has_envelope (pending cr now (sv_store sv) u)), sv', d')
    \<and> LookupClient (sv_store sv') u = Some c \<and> pending cr now (sv_store sv') u = []"
proof -
  obtain l' where auth: "Authenticate cr aenv (sv_auth sv) (ExtractIP addr)
      = (Some u, [marshalChallenge (take 32 (au_rand aenv)), marshalAuthResponse True []], l')"
    using Authenticate_honest [OF assms(1-4,6-9,12)] by blast
  let ?s = "snd (Register (sv_store sv) u c)"
  obtain s' d' where dr: "DrainQueue cr drv (fl_drain fenv) (?s, d) u = (pending cr now ?s u, s', d')"
    and s': "s' = ?s\<lparr>st_db := sqlDeleteFor u (st_db ?s)\<rparr>"
    using DrainQueue_clean [of ?s "fl_drain fenv" cr drv d u] assms(11,14,15)
    by (cases "DrainQueue cr drv (fl_drain fenv) (?s, d) u") (auto simp: Register_def)
  have same: "pending cr now ?s u = pending cr now (sv_store sv) u" by (simp add: pending_def Register_def)
  have "table_wf (st_db ?s)" using assms(13) by (simp add: store_wf_def Register_def)
  then have "pending cr now s' u = []" by (simp add: s' pending_def qt.box_delete)
  moreover have "LookupClient s' u = Some c" by (simp add: s' LookupClient_def Register_def)
  moreover have "normalizeUser (RelayID (sv_cfg sv)) u = u" using assms(5) by (simp add: normalizeUser_def splitN2_none)
  ultimately show ?thesis
    using dr same flushLoop_all [OF assms(10)]
    by (simp add: openConn_def auth FlushQueue_def Register_def LookupClient_def Let_def)
qed

text \<open>
  Outside development mode the relay never listens in the clear: a configuration that
  loads without SPECTRE_DEV=true names a certificate and a key, and the listener offers
  TLS 1.3 and nothing else.
\<close>

theorem production_uses_tls:
  assumes "Load env = Inr cfg" "env ''SPECTRE_DEV'' \<noteq> ''true''"
  shows "offers (newHTTPServer cfg) (listenMode cfg) = {Some VersionTLS13} \<and> TLSCertFile cfg \<noteq> [] \<and> TLSKeyFile cfg \<noteq> []"
proof -
  have "\<not> DevMode cfg \<and> TLSCertFile cfg \<noteq> [] \<and> TLSKeyFile cfg \<noteq> []"
    using assms unfolding Load_def Let_def by (auto split: if_splits)
  then show ?thesis by (simp add: listenMode_def offers_def newHTTPServer_def)
qed

section \<open>A concrete relay\<close>

definition demo_cfg :: Config where
  "demo_cfg = \<lparr>ListenAddr = '':443'', TLSCertFile = ''c'', TLSKeyFile = ''k'', MaxClients = 10,
     MessageTTLSeconds = 604800, MaxMessageSize = 65536, RateLimitPerMin = 60, OfflineQueuePath = ''q'',
     PrekeyStorePath = ''p'', SealedCAPath = ''ca'', DevMode = False, RelayID = ''relay:8080'',
     FederationAddr = []\<rparr>"

definition demo_server :: Server where
  "demo_server = \<lparr>sv_cfg = demo_cfg, sv_store = demo_store, sv_prekeys = demo_ps, sv_router = demo_router,
     sv_auth = newAuthLimiter, sv_sealedCA = demo_ca, sv_certLimiter = newRateLimiter certRequestsPerMin,
     sv_prekeyLimiter = newRateLimiter prekeyFetchesPerMinPerTarget\<rparr>"

definition demo_frame :: frameEnv where
  "demo_frame = \<lparr>fr_cert = \<lparr>ct_limit = 0, ct_issue = 0, ct_write = True\<rparr>, fr_persist = demo_save_env,
     fr_now = 0, fr_deliver = demo_deliver\<rparr>"

definition cert_request :: bytes where
  "cert_request = jprint (JObj [(''type'', JStr ''request_sender_cert'')])"

definition get_bob :: request where
  "get_bob = \<lparr>rq_method = ''GET'', rq_path = ''/prekeys/bob'', rq_relayID = [], rq_body = []\<rparr>"

definition fed_post :: request where
  "fed_post = \<lparr>rq_method = ''POST'', rq_path = ''/federation/deliver'', rq_relayID = ''other'',
     rq_body = marshalSealed demo_sealed\<rparr>"

lemma demo_server_ok: "relay_ok demo_server"
  using demo_wf(1) demo_bundle_ok
  by (simp add: relay_ok_def demo_server_def entries_ok_def demo_ps_def gm_wf_def newRateLimiter_def
      demo_cfg_def) (simp add: demo_router_def NewRouter_def)

lemma cert_request_header: "unmarshalHeader cert_request = (False, ''request_sender_cert'')"
proof -
  have "valid_utf8 ''type''" "valid_utf8 ''request_sender_cert''" by (rule valid_utf8_key, simp add: code_def)+
  then have "unmarshalHeader cert_request
      = decStruct setHeader [''type''] (JObj [(''type'', JStr ''request_sender_cert'')]) []"
    unfolding unmarshalHeader_def cert_request_def by (intro unmarshal_fits) simp
  then show ?thesis by (simp add: decode_simps setHeader_def)
qed

lemma demo_cert_sent:
  "\<exists>raw sv'. handleAuthedFrame plainCrypto demo_drv demo_frame (demo_server, Map.empty) ''bob'' 7 cert_request
     = ([Sent 7 raw], sv', Map.empty)"
proof -
  have "fst (rateLimiter_allow (newRateLimiter certRequestsPerMin) ''bob'' 0)"
    by (rule rl.resets) (simp_all add: newRateLimiter_def certRequestsPerMin_def rateLimiter_hist_def window_of_def)
  then obtain l where "rateLimiter_allow (newRateLimiter certRequestsPerMin) ''bob'' 0 = (True, l)"
    by (cases "rateLimiter_allow (newRateLimiter certRequestsPerMin) ''bob'' 0") auto
  then show ?thesis
    by (simp add: handleAuthedFrame_def cert_request_header issueSenderCert_def demo_server_def demo_frame_def
        buildSenderCert_def identityKeyOf_def demo_ps_def IssueCert_def Let_def)
qed

subsection \<open>Witnesses\<close>

theorem relay_invariant_witness:
  "relay_ok (fst (closeConn (demo_server, Map.empty) ''bob'' 7))
   \<and> length (mailbox (st_db (sv_store (fst (closeConn (demo_server, Map.empty) ''bob'' 7)))) ''bob'') \<le> 500"
proof -
  obtain sv' d' where c: "closeConn (demo_server, Map.empty) ''bob'' 7 = (sv', d')"
    by (cases "closeConn (demo_server, Map.empty) ''bob'' 7")
  have "(relay_step plainCrypto demo_drv)\<^sup>*\<^sup>* (demo_server, Map.empty) (sv', d')"
    unfolding c [symmetric] by (intro r_into_rtranclp relay_step.closes)
  from relay_invariant [OF this demo_server_ok] c show ?thesis by simp
qed

theorem certificate_binds_session_witness:
  "\<exists>raw ik cert sig. identityKeyOf (sv_prekeys demo_server) ''bob'' = Some ik
    \<and> raw = jprint (jsonCertReply cert sig) \<and> edVerify plainCrypto (ca_pub (sv_sealedCA demo_server)) cert sig
    \<and> unmarshalCert cert = (False, \<lparr>sc_Iss = ''relay:8080'', sc_UID = ''bob'', sc_IK = ik, sc_Exp = 86400000\<rparr>)"
proof -
  obtain raw sv' where f: "handleAuthedFrame plainCrypto demo_drv demo_frame (demo_server, Map.empty) ''bob'' 7 cert_request
     = ([Sent 7 raw], sv', Map.empty)" using demo_cert_sent by blast
  have utf8: "valid_utf8 ''bob''" "valid_utf8 ''relay:8080''" by (rule valid_utf8_key, simp add: code_def)+
  have ca: "genuine plainCrypto (ca_priv (sv_sealedCA demo_server))"
    "ca_pub (sv_sealedCA demo_server) = keyPublic (ca_priv (sv_sealedCA demo_server))"
    by (simp_all add: demo_server_def demo_ca_def genuine_def keyPublic_def plainCrypto_def)
  have ik: "\<forall>ik. identityKeyOf (sv_prekeys demo_server) ''bob'' = Some ik \<longrightarrow> valid_utf8 ik"
    by (simp add: demo_server_def identityKeyOf_def demo_ps_def demo_bundle_def)
  have "RelayID (sv_cfg demo_server) = ''relay:8080''" "ct_issue (fr_cert demo_frame) = 0"
    by (simp_all add: demo_server_def demo_cfg_def demo_frame_def)
  with certificate_binds_session [OF plainCrypto_ed ca cert_request_header f, of 7 raw] utf8 ik
  show ?thesis by (auto simp: unixMilli_def int64_ok_def)
qed

theorem frames_touch_own_bundle_witness:
  "map_of (ps_bundles (sv_prekeys (fst (snd (handleAuthedFrame plainCrypto demo_drv demo_frame (demo_server, Map.empty)
     ''eve'' 7 cert_request))))) ''bob'' = map_of (ps_bundles (sv_prekeys demo_server)) ''bob''"
proof -
  obtain acts sv' d' where h: "handleAuthedFrame plainCrypto demo_drv demo_frame (demo_server, Map.empty) ''eve'' 7 cert_request
      = (acts, sv', d')"
    by (cases "handleAuthedFrame plainCrypto demo_drv demo_frame (demo_server, Map.empty) ''eve'' 7 cert_request") auto
  from frames_touch_own_bundle [OF h, of "''bob''"] h show ?thesis by simp
qed

theorem prekeys_404_iff_unregistered_witness:
  "rs_status (fst (handlePrekeysGet plainCrypto 0 demo_save_env (demo_server, Map.empty) get_bob)) = 200"
proof -
  obtain resp sv' d' where h: "handlePrekeysGet plainCrypto 0 demo_save_env (demo_server, Map.empty) get_bob = (resp, sv', d')"
    by (cases "handlePrekeysGet plainCrypto 0 demo_save_env (demo_server, Map.empty) get_bob") auto
  have "\<not> containsAny ''bob'' ''/?#''" by (simp add: containsAny_def)
  with prekeys_404_iff_unregistered [OF _ _ h, of "''bob''"] h show ?thesis
    by (simp add: get_bob_def) (simp add: demo_server_def demo_ps_def)
qed

theorem federation_delivers_locally_witness:
  "fst (handleFederationDeliver plainCrypto demo_drv demo_deliver
     (demo_server\<lparr>sv_store := demo_online\<rparr>, Map.empty) fed_post) = reply 204
   \<and> fst (snd (handleFederationDeliver plainCrypto demo_drv demo_deliver
     (demo_server\<lparr>sv_store := demo_online\<rparr>, Map.empty) fed_post))
     = [Sent 7 (marshalSealed (demo_sealed\<lparr>se_FederationSenderRelay := ''other''\<rparr>))]"
proof -
  let ?sv = "demo_server\<lparr>sv_store := demo_online\<rparr>"
  let ?x = "demo_sealed\<lparr>se_FederationSenderRelay := ''other''\<rparr>"
  have d: "deliverLocal plainCrypto demo_drv demo_deliver (sv_store ?sv, Map.empty) ''bob''
      \<lparr>qm_Sealed = Some (demo_sealed\<lparr>se_FederationSenderRelay := rq_relayID fed_post\<rparr>), qm_Open = None, qm_ExpiresAt = 0\<rparr>
      = ([Sent 7 (marshalSealed ?x)], demo_online, Map.empty)"
    by (simp add: deliverLocal_def LookupClient_def demo_online_def Register_def demo_store_def marshalQueued_def
        demo_deliver_def fed_post_def)
  have "local_user (RelayID (sv_cfg ?sv)) (se_RecipientID demo_sealed) = Some ''bob''"
    using demo_local by (simp add: demo_server_def demo_cfg_def demo_sealed_def)
  from federation_delivers_locally [OF demo_sealed_wf _ _ _ this d] show ?thesis by (simp add: fed_post_def)
qed

theorem federation_drops_silently_witness:
  "handleFederationDeliver plainCrypto demo_drv demo_deliver (demo_server, Map.empty) (fed_post\<lparr>rq_relayID := []\<rparr>)
     = (reply 204, [], demo_server, Map.empty)"
proof -
  let ?r = "fed_post\<lparr>rq_relayID := []\<rparr>"
  obtain resp acts sv' d' where h: "handleFederationDeliver plainCrypto demo_drv demo_deliver (demo_server, Map.empty) ?r
      = (resp, acts, sv', d')"
    by (cases "handleFederationDeliver plainCrypto demo_drv demo_deliver (demo_server, Map.empty) ?r") auto
  have "decodeFirst decSealed zeroSealed (rq_body ?r) = (False, demo_sealed)"
    using decode_marshalSealed [OF demo_sealed_wf(1)] by (simp add: fed_post_def)
  from federation_drops_silently [OF _ h this] h show ?thesis by (simp add: fed_post_def)
qed

theorem failed_auth_is_harmless_witness:
  "\<exists>l. fst (snd (snd (openConn plainCrypto demo_drv ((demo_auth zeroAuthRequest)\<lparr>au_reply := None\<rparr>) demo_flush
     (demo_server, Map.empty) 7 ''1.2.3.4:5''))) = demo_server\<lparr>sv_auth := l\<rparr>"
proof -
  let ?e = "(demo_auth zeroAuthRequest)\<lparr>au_reply := None\<rparr>"
  have "fst (openConn plainCrypto demo_drv ?e demo_flush (demo_server, Map.empty) 7 ''1.2.3.4:5'') = None"
    by (auto simp: openConn_def Authenticate_def Let_def split: prod.split bool.split)
  then obtain acts sv' d' where h: "openConn plainCrypto demo_drv ?e demo_flush (demo_server, Map.empty) 7 ''1.2.3.4:5''
      = (None, acts, sv', d')"
    by (cases "openConn plainCrypto demo_drv ?e demo_flush (demo_server, Map.empty) 7 ''1.2.3.4:5''") auto
  from failed_auth_is_harmless [OF h] h show ?thesis by simp
qed

theorem any_key_takes_mailbox_witness:
  "\<exists>sv' d'. openConn plainCrypto demo_drv (demo_auth (honest_request plainCrypto (replicate 32 CHR ''t'') ''bob'' demo_nonce))
      (demo_flush\<lparr>fl_write := (\<lambda>_. True)\<rparr>) (demo_server\<lparr>sv_store := snd (Register (fst demo_next) ''bob'' 3)\<rparr>, Map.empty) 9 ''1.2.3.4:5''
    = (Some ''bob'', [Sent 9 (marshalChallenge demo_nonce), Sent 9 (marshalAuthResponse True []), CloseConn 3 1000,
         Sent 9 (frame_of (demo_msg\<lparr>qm_ExpiresAt := 604800\<rparr>))], sv', d')
    \<and> LookupClient (sv_store sv') ''bob'' = Some 9 \<and> pending plainCrypto 0 (sv_store sv') ''bob'' = []"
proof -
  let ?s = "snd (Register (fst demo_next) ''bob'' 3)"
  let ?sv = "demo_server\<lparr>sv_store := ?s\<rparr>"
  let ?env = "demo_auth (honest_request plainCrypto (replicate 32 CHR ''t'') ''bob'' demo_nonce)"
  have "life_inv plainCrypto demo_drv ''q'' demo_next"
    by (rule store_life_inv [OF plainCrypto_gcm demo_drv_correct demo_life(2)])
  then have wf: "store_wf (fst demo_next)" "\<not> st_stopped (fst demo_next)"
    using demo_wf(2) by (auto simp: life_inv_def demo_next_def demo_first_def frame_simps)
  have s: "store_wf (sv_store ?sv)" "\<not> st_stopped (sv_store ?sv)" "LookupClient (sv_store ?sv) ''bob'' = Some 3"
    using wf by (simp_all add: store_wf_def Register_def LookupClient_def)
  have p: "pending plainCrypto 0 (sv_store ?sv) ''bob'' = [demo_msg\<lparr>qm_ExpiresAt := 604800\<rparr>]"
    using demo_next_pending by (simp add: pending_def Register_def)
  have drain: "drain_clean (fl_drain (demo_flush\<lparr>fl_write := (\<lambda>_. True)\<rparr>))" "0 = unix (de_now (fl_drain (demo_flush\<lparr>fl_write := (\<lambda>_. True)\<rparr>)))"
    using demo_wf(4,5) by (simp_all add: demo_flush_def)
  have bob: "valid_utf8 ''bob''" by (rule valid_utf8_key) (simp add: code_def)
  have lim: "fst (authLimiter_allow (sv_auth ?sv) (ExtractIP ''1.2.3.4:5'') (au_now ?env))"
    using demo_auth_allowed by (simp add: demo_server_def)
  have "has_envelope (demo_msg\<lparr>qm_ExpiresAt := 604800\<rparr>)" by (simp add: has_envelope_def demo_msg_def)
  with any_key_takes_mailbox [OF plainCrypto_ed _ _ bob _ lim _ _ _ _ drain(1) _ s(1,2) drain(2),
      of "replicate 32 CHR ''t''" demo_drv Map.empty 9] s(3) p
  show ?thesis by simp
qed

theorem production_uses_tls_witness:
  "\<exists>cfg. Load demo_env = Inr cfg \<and> offers (newHTTPServer cfg) (listenMode cfg) = {Some VersionTLS13}"
proof -
  obtain cfg where "Load demo_env = Inr cfg"
    by (simp add: Load_def demo_env_def getEnv_def getEnvInt_def Let_def)
  with production_uses_tls [OF this] show ?thesis by (simp add: demo_env_def)
qed

end
