(* ===== verification/File_Owners.thy ===== *)
theory File_Owners
  imports Server_Props
begin

text \<open>
  Three components share one disk.  The locale \<open>file_owner\<close> is what each of them promises
  the others: it changes no file but its own ones and temporary files, and its invariant
  depends on its own files only.  Interpretations \<open>qo\<close> (offline queue), \<open>po\<close> (prekeys)
  and \<open>co\<close> (certificate authority).  The handlers of the router are shown to be runs of
  store operations, so that they inherit the contract of the queue.
\<close>

section \<open>Owning files\<close>

definition temp_file :: "string \<Rightarrow> bool" where
  "temp_file p \<longleftrightarrow> suffix ''.tmp'' p"

definition agree :: "string set \<Rightarrow> fs \<Rightarrow> fs \<Rightarrow> bool" where
  "agree P d d' \<longleftrightarrow> (\<forall>p \<in> P. d' p = d p)"

definition untouched :: "string set \<Rightarrow> fs \<Rightarrow> fs \<Rightarrow> bool" where
  "untouched own d d' \<longleftrightarrow> (\<forall>p. p \<notin> own \<longrightarrow> \<not> temp_file p \<longrightarrow> d' p = d p)"

lemma untouched_refl [simp]: "untouched own d d"
  by (simp add: untouched_def)

lemma untouched_trans: "untouched own d d1 \<Longrightarrow> untouched own d1 d2 \<Longrightarrow> untouched own d d2"
  by (simp add: untouched_def)

lemma untouched_agree: "untouched own d d' \<Longrightarrow> P \<inter> own = {} \<Longrightarrow> (\<forall>p \<in> P. \<not> temp_file p) \<Longrightarrow> agree P d d'"
  by (auto simp: untouched_def agree_def)

locale file_owner =
  fixes step :: "'s \<times> fs \<Rightarrow> 's \<times> fs \<Rightarrow> bool"
    and inv :: "'s \<Rightarrow> fs \<Rightarrow> bool"
    and own :: "string set"
  assumes step_inv: "step (s, d) (s', d') \<Longrightarrow> inv s d \<Longrightarrow> inv s' d'"
    and step_frame: "step (s, d) (s', d') \<Longrightarrow> inv s d \<Longrightarrow> untouched own d d'"
    and inv_local: "inv s d \<Longrightarrow> agree own d d' \<Longrightarrow> inv s d'"
    and own_kept: "inv s d \<Longrightarrow> p \<in> own \<Longrightarrow> \<not> temp_file p"
begin

lemma run_keeps: "step\<^sup>*\<^sup>* w w' \<Longrightarrow> inv (fst w) (snd w) \<Longrightarrow> inv (fst w') (snd w') \<and> untouched own (snd w) (snd w')"
proof (induction rule: rtranclp_induct)
  case (step w1 w2)
  then show ?case using step_inv [of "fst w1" "snd w1" "fst w2" "snd w2"] step_frame [of "fst w1" "snd w1" "fst w2" "snd w2"]
    by (auto intro: untouched_trans)
qed simp

text \<open>What another component does to its files leaves the invariant alone.\<close>

lemma other_keeps: "inv s d \<Longrightarrow> untouched own' d d' \<Longrightarrow> own \<inter> own' = {} \<Longrightarrow> inv s d'"
  using inv_local untouched_agree own_kept by blast

text \<open>So does a crash, which may only leave or remove temporary files.\<close>

lemma crash_keeps: "inv s d \<Longrightarrow> untouched {} d d' \<Longrightarrow> inv s d'"
  using other_keeps [of s d "{}" d'] by simp

end

lemma replaceFile_untouched: "untouched {path} d (snd (replaceFile env d path pre sealed))"
proof (cases "createTemp d (filepathDir path) pre (pe_names env)")
  case None
  then show ?thesis by (simp add: replaceFile_def)
next
  case (Some tmp)
  then have "temp_file tmp" by (simp add: temp_file_def createTemp_suffix)
  with crash_state_frame [OF replaceFile_crash_state [OF Some, of sealed]] show ?thesis
    by (auto simp: untouched_def)
qed

lemma untouched_more: "untouched own d d' \<Longrightarrow> own \<subseteq> own' \<Longrightarrow> untouched own' d d'"
  by (auto simp: untouched_def)

section \<open>The offline queue\<close>

definition queue_files :: "string \<Rightarrow> string set" where
  "queue_files path = {path, path @ keyFileSuffix}"

text \<open>The invariant names the key, which never changes.\<close>

definition queue_ok :: "crypto \<Rightarrow> sqliteDriver \<Rightarrow> string \<Rightarrow> bytes \<Rightarrow> Store \<Rightarrow> fs \<Rightarrow> bool" where
  "queue_ok cr drv path key s d \<longleftrightarrow> life_inv cr drv path (s, d) \<and> st_key s = key \<and> \<not> temp_file path"

lemma key_not_temp: "\<not> temp_file (path @ keyFileSuffix)"
  by (auto simp: temp_file_def keyFileSuffix_def suffix_def append_eq_append_conv2 Cons_eq_append_conv)

lemma store_persist_untouched: "untouched {st_queuePath s} d (snd (store_persistLocked cr drv env s d))"
  using replaceFile_untouched by (auto simp: store_persistLocked_def split: sum.split)

interpretation qo: file_owner "store_step cr drv" "queue_ok cr drv path key" "queue_files path"
  for cr drv path key
proof unfold_locales
  fix s d s' d'
  assume step: "store_step cr drv (s, d) (s', d')" and inv: "queue_ok cr drv path key s d"
  show "queue_ok cr drv path key s' d'" using store_step_life [OF step] store_step_disk [OF step] inv by (simp add: queue_ok_def)
  have "st_queuePath s' = path"
    using store_step_disk [OF step] inv by (simp add: queue_ok_def life_inv_def)
  then show "untouched (queue_files path) d d'"
    using store_step_disk [OF step] store_persist_untouched [of s' d cr drv]
    by (auto simp: queue_files_def intro: untouched_more)
next
  fix s d p assume "queue_ok cr drv path key s d" "p \<in> queue_files path"
  then show "\<not> temp_file p" using key_not_temp by (auto simp: queue_ok_def queue_files_def)
qed (auto simp: queue_ok_def life_inv_def saved_def agree_def queue_files_def)

section \<open>The prekey store\<close>

definition prekey_step :: "crypto \<Rightarrow> PrekeyStore \<times> fs \<Rightarrow> PrekeyStore \<times> fs \<Rightarrow> bool" where
  "prekey_step cr w w' \<longleftrightarrow> (\<exists>op env ks. op_utf8 op \<and> ps_exec cr (op, env) w = (ks, w'))"

definition prekeys_ok :: "crypto \<Rightarrow> string \<Rightarrow> bytes \<Rightarrow> PrekeyStore \<Rightarrow> fs \<Rightarrow> bool" where
  "prekeys_ok cr path key ps d \<longleftrightarrow> pk_inv cr path (ps, d) \<and> ps_key ps = key \<and> \<not> temp_file path"

lemma prekey_persist_untouched: "untouched {ps_storePath ps} d (snd (prekey_persistLocked cr env ps d))"
  using replaceFile_untouched by (auto simp: prekey_persistLocked_def split: sum.split)

interpretation po: file_owner "prekey_step cr" "prekeys_ok cr path key" "queue_files path"
  for cr path key
proof unfold_locales
  fix ps d ps' d'
  assume step: "prekey_step cr (ps, d) (ps', d')" and inv: "prekeys_ok cr path key ps d"
  then obtain op env ks where e: "ps_exec cr (op, env) (ps, d) = (ks, ps', d')" "op_utf8 op"
    by (auto simp: prekey_step_def)
  have i: "ps_wf ps" "ps_storePath ps = path" "pk_saved cr path (ps_key ps) d" "\<not> suffix ''.tmp'' path"
    using inv by (auto simp: prekeys_ok_def pk_inv_def temp_file_def)
  note x = ps_exec_wf [OF e(1) i(1) e(2)]
  with i persist_pk_saved [OF _ _ _ i(4), of cr ps' d env] inv show "prekeys_ok cr path key ps' d'"
    by (auto simp: prekeys_ok_def pk_inv_def)
  show "untouched (queue_files path) d d'"
    using x i(2) prekey_persist_untouched [of ps' d cr env]
    by (auto simp: queue_files_def intro: untouched_more)
next
  fix ps d p assume "prekeys_ok cr path key ps d" "p \<in> queue_files path"
  then show "\<not> temp_file p" using key_not_temp by (auto simp: prekeys_ok_def queue_files_def)
qed (auto simp: prekeys_ok_def pk_inv_def pk_saved_def agree_def queue_files_def)

section \<open>The certificate authority\<close>

text \<open>After start-up the authority only reads its state.\<close>

definition ca_ok :: "crypto \<Rightarrow> string \<Rightarrow> bytes \<Rightarrow> SealedCA \<Rightarrow> fs \<Rightarrow> bool" where
  "ca_ok cr path key ca d \<longleftrightarrow> genuine cr key \<and> ca_priv ca = key \<and> ca_pub ca = keyPublic key
     \<and> (\<exists>f. d path = Some f \<and> fdata f = key) \<and> \<not> temp_file path"

interpretation co: file_owner "(=)" "ca_ok cr path key" "{path}"
  for cr path key
  by unfold_locales (auto simp: ca_ok_def agree_def)

section \<open>Handlers are runs of operations\<close>

abbreviation store_run :: "crypto \<Rightarrow> sqliteDriver \<Rightarrow> Store \<times> fs \<Rightarrow> Store \<times> fs \<Rightarrow> bool" where
  "store_run cr drv \<equiv> (store_step cr drv)\<^sup>*\<^sup>*"

lemma run_enqueue [intro]: "store_run cr drv w (Enqueue cr drv env w rid m)"
  by (rule r_into_rtranclp) (rule store_step.enqueue)

lemma run_drain: "DrainQueue cr drv env w rid = (ms, w') \<Longrightarrow> store_run cr drv w w'"
  using store_step.drain [of cr drv w env rid] by (metis r_into_rtranclp snd_conv)

lemma run_reenqueue: "store_run cr drv w (reenqueue cr drv enq j u ms w)"
proof (induction ms arbitrary: j w)
  case (Cons m ms)
  show ?case using rtranclp_trans [OF run_enqueue Cons [of "Enqueue cr drv (enq j) w u m" "Suc j"]] by simp
qed simp

lemma run_flushLoop: "flushLoop cr drv wr enq i u c ms w = (acts, w') \<Longrightarrow> store_run cr drv w w'"
  by (induction ms arbitrary: i acts)
    (auto split: sum.splits if_splits prod.splits intro: rtranclp_trans [OF run_enqueue run_reenqueue])

lemma run_FlushQueue: "FlushQueue cr drv env w u c = (acts, w') \<Longrightarrow> store_run cr drv w w'"
  by (auto simp: FlushQueue_def split: prod.splits dest!: run_drain run_flushLoop intro: rtranclp_trans)

lemma run_deliverLocal: "deliverLocal cr drv env w u m = (acts, w') \<Longrightarrow> store_run cr drv w w'"
  by (auto simp: deliverLocal_def split: option.splits sum.splits if_splits)

lemma run_deliver: "deliver cr drv env r w rid m = (acts, w') \<Longrightarrow> store_run cr drv w w'"
  by (auto simp: deliver_def split: list.splits if_splits option.splits dest: run_deliverLocal)

lemma run_Route: "Route cr drv now env r w u p = (acts, r', w') \<Longrightarrow> store_run cr drv w w'"
  by (auto simp: Route_def split: if_splits prod.splits bool.splits option.splits dest: run_deliver)

lemmas handler_runs = run_FlushQueue run_deliver run_Route

end
