(* ===== verification/Interleaving.thy ===== *)
theory Interleaving
  imports Router_Props "HOL-Library.Multiset"
begin

text \<open>
  Deliveries and connections at the granularity of the mutex of the store.  The goroutine
  that delivers a message looks the recipient up, writes and enqueues in separate critical
  sections; the goroutine of a connection registers, drains, writes the drained messages
  one by one and puts the rest back, again in separate sections, and unregisters when it
  ends.  A \<open>task\<close> is such a goroutine at one of these points, \<open>task_step\<close> its next section,
  and a list of events is an interleaving of any number of them with the purge.

  Shown: a task that runs undisturbed can do what the handlers of theory \<open>Router\<close> do in one
  go; every task ends; every registration belongs to a running task; and as long as
  statements succeed, mailboxes have room and nothing expires, no interleaving loses or
  duplicates a message, whichever writes fail: the frames that went out to a user are those
  of the messages that are neither queued nor in flight.
\<close>

section \<open>Tasks\<close>

datatype task =
    Looking string queuedMessage
  | Writing conn string queuedMessage
  | Queuing string queuedMessage
  | Joining string conn
  | Draining string conn
  | Flushing string conn "queuedMessage list"
  | Returning string conn "queuedMessage list"
  | Serving string conn
  | Finished

record sectionEnv =
  sc_write :: bool
  sc_enq :: enqEnv
  sc_drain :: drainEnv

fun task_step :: "crypto \<Rightarrow> sqliteDriver \<Rightarrow> sectionEnv \<Rightarrow> Store \<times> fs \<Rightarrow> task
    \<Rightarrow> task \<times> action list \<times> Store \<times> fs" where
  "task_step cr drv env w (Looking u m) =
     (case LookupClient (fst w) u of None \<Rightarrow> (Queuing u m, [], w) | Some c \<Rightarrow> (Writing c u m, [], w))"
| "task_step cr drv env w (Writing c u m) =
     (case marshalQueued m of
        Inl e \<Rightarrow> (Queuing u m, [], w)
      | Inr raw \<Rightarrow>
          if sc_write env then (Finished, [Sent c raw], w) else (Queuing u m, [WriteFailed c raw], w))"
| "task_step cr drv env w (Queuing u m) = (Finished, [], Enqueue cr drv (sc_enq env) w u m)"
| "task_step cr drv env w (Joining u c) =
     (case Register (fst w) u c of (prev, s) \<Rightarrow>
        (Draining u c, (case prev of None \<Rightarrow> [] | Some p \<Rightarrow> [CloseConn p 1000]), s, snd w))"
| "task_step cr drv env w (Draining u c) =
     (case DrainQueue cr drv (sc_drain env) w u of (msgs, w') \<Rightarrow> (Flushing u c msgs, [], w'))"
| "task_step cr drv env w (Flushing u c []) = (Serving u c, [], w)"
| "task_step cr drv env w (Flushing u c (m # ms)) =
     (case marshalQueued m of
        Inl e \<Rightarrow> (Flushing u c ms, [], w)
      | Inr raw \<Rightarrow>
          if sc_write env then (Flushing u c ms, [Sent c raw], w)
          else (Returning u c (m # ms), [WriteFailed c raw], w))"
| "task_step cr drv env w (Returning u c []) = (Serving u c, [], w)"
| "task_step cr drv env w (Returning u c (m # ms)) =
     (Returning u c ms, [], Enqueue cr drv (sc_enq env) w u m)"
| "task_step cr drv env w (Serving u c) = (Finished, [], Unregister (fst w) u c, snd w)"
| "task_step cr drv env w Finished = (Finished, [], w)"

text \<open>The message a section hands to a connection of the user, if it does.\<close>

fun hands_over :: "sectionEnv \<Rightarrow> task \<Rightarrow> (string \<times> queuedMessage) list" where
  "hands_over env (Writing c u m) = (if has_envelope m \<and> sc_write env then [(u, m)] else [])"
| "hands_over env (Flushing u c (m # ms)) = (if has_envelope m \<and> sc_write env then [(u, m)] else [])"
| "hands_over env t = []"

section \<open>Every task ends\<close>

text \<open>
  What is left to do: the stage of the task and the messages it carries.  Each section
  makes it smaller, whatever the other tasks did in the meantime.
\<close>

fun stage :: "task \<Rightarrow> nat \<times> nat" where
  "stage Finished = (0, 0)"
| "stage (Serving u c) = (1, 0)"
| "stage (Returning u c ms) = (2, length ms)"
| "stage (Flushing u c ms) = (3, length ms)"
| "stage (Draining u c) = (4, 0)"
| "stage (Joining u c) = (5, 0)"
| "stage (Queuing u m) = (1, 0)"
| "stage (Writing c u m) = (2, 0)"
| "stage (Looking u m) = (3, 0)"

lemma stage_decreases:
  "t \<noteq> Finished \<Longrightarrow> (stage (fst (task_step cr drv env w t)), stage t) \<in> less_than <*lex*> less_than"
  by (cases "(cr, drv, env, w, t)" rule: task_step.cases)
    (auto split: option.split sum.split prod.split)

text \<open>One task running alone, with its own environment for each section.\<close>

fun run_task :: "crypto \<Rightarrow> sqliteDriver \<Rightarrow> sectionEnv list \<Rightarrow> Store \<times> fs \<Rightarrow> task
    \<Rightarrow> task \<times> action list \<times> Store \<times> fs" where
  "run_task cr drv [] w t = (t, [], w)"
| "run_task cr drv (env # envs) w t =
     (case task_step cr drv env w t of (t', acts, w') \<Rightarrow>
      case run_task cr drv envs w' t' of (t'', acts', w'') \<Rightarrow> (t'', acts @ acts', w''))"

section \<open>Undisturbed tasks are the handlers\<close>

lemma run_task_append:
  "run_task cr drv (xs @ ys) w t =
     (case run_task cr drv xs w t of (t', acts, w') \<Rightarrow>
      case run_task cr drv ys w' t' of (t'', acts', w'') \<Rightarrow> (t'', acts @ acts', w''))"
  by (induction xs arbitrary: w t) (auto split: prod.split)

lemma run_Finished: "run_task cr drv envs w Finished = (Finished, [], w)"
  by (induction envs) auto

lemma run_Looking:
  "run_task cr drv (replicate 3 \<lparr>sc_write = dv_write env, sc_enq = dv_enq env, sc_drain = dr\<rparr>) w (Looking u m)
     = (Finished, deliverLocal cr drv env w u m)"
proof -
  have q: "run_task cr drv (e # es) w (Queuing u m) = (Finished, [], Enqueue cr drv (sc_enq e) w u m)" for e es
    by (cases "Enqueue cr drv (sc_enq e) w u m") (simp add: run_Finished)
  show ?thesis
  proof (cases "LookupClient (fst w) u")
    case None
    with q show ?thesis by (simp add: numeral_3_eq_3 deliverLocal_def del: run_task.simps(2)) (simp add: q None)
  next
    case (Some c)
    then show ?thesis
      by (cases "marshalQueued m") (simp_all add: numeral_3_eq_3 deliverLocal_def q split_beta)
  qed
qed

lemma run_Returning:
  "run_task cr drv (map (\<lambda>i. \<lparr>sc_write = wr, sc_enq = enq i, sc_drain = dr\<rparr>) [j..<j + length ms]) w (Returning u c ms)
     = (Returning u c [], [], reenqueue cr drv enq j u ms w)"
proof (induction ms arbitrary: w j)
  case (Cons m ms)
  have "[j..<j + length (m # ms)] = j # [Suc j..<Suc j + length ms]"
    by (simp add: upt_rec)
  with Cons [of "Suc j" "Enqueue cr drv (enq j) w u m"] show ?case by simp
qed simp

lemma run_Flushing:
  "\<exists>envs. run_task cr drv envs w (Flushing u c ms) = (Serving u c, flushLoop cr drv wr enq i u c ms w)"
proof (induction ms arbitrary: i)
  case Nil
  show ?case by (rule exI [of _ "[undefined]"]) simp
next
  case (Cons m ms)
  let ?e = "\<lparr>sc_write = wr i, sc_enq = enq i, sc_drain = dr\<rparr>"
  obtain envs where envs: "run_task cr drv envs w (Flushing u c ms) = (Serving u c, flushLoop cr drv wr enq (Suc i) u c ms w)"
    using Cons by blast
  show ?case
  proof (cases "\<exists>raw. marshalQueued m = Inr raw \<and> \<not> wr i")
    case False
    with envs have "run_task cr drv (?e # envs) w (Flushing u c (m # ms)) = (Serving u c, flushLoop cr drv wr enq i u c (m # ms) w)"
      by (cases "marshalQueued m") (auto split: prod.split)
    then show ?thesis by blast
  next
    case True
    then obtain raw where raw: "marshalQueued m = Inr raw" "\<not> wr i" by blast
    let ?rest = "map (\<lambda>k. \<lparr>sc_write = True, sc_enq = enq k, sc_drain = dr\<rparr>) [0..<0 + length (m # ms)]"
    have "run_task cr drv (?rest @ [?e]) w (Returning u c (m # ms)) = (Serving u c, [], reenqueue cr drv enq 0 u (m # ms) w)"
      unfolding run_task_append run_Returning by simp
    with raw have "run_task cr drv (?e # ?rest @ [?e]) w (Flushing u c (m # ms)) = (Serving u c, flushLoop cr drv wr enq i u c (m # ms) w)"
      by simp
    then show ?thesis by blast
  qed
qed

lemma run_Joining:
  "\<exists>envs. run_task cr drv envs (s, d) (Joining u c) =
     (case Register s u c of (prev, s1) \<Rightarrow>
      case FlushQueue cr drv fenv (s1, d) u c of (acts, w') \<Rightarrow>
        (Serving u c, (case prev of None \<Rightarrow> [] | Some p \<Rightarrow> [CloseConn p 1000]) @ acts, w'))"
proof -
  let ?e = "\<lparr>sc_write = True, sc_enq = undefined, sc_drain = fl_drain fenv\<rparr>"
  obtain prev s1 where r: "Register s u c = (prev, s1)" by (cases "Register s u c")
  obtain msgs w1 where dr: "DrainQueue cr drv (fl_drain fenv) (s1, d) u = (msgs, w1)"
    by (cases "DrainQueue cr drv (fl_drain fenv) (s1, d) u")
  obtain envs where "run_task cr drv envs w1 (Flushing u c msgs)
      = (Serving u c, flushLoop cr drv (fl_write fenv) (fl_enq fenv) 0 u c msgs w1)"
    using run_Flushing by blast
  with r dr have "run_task cr drv (?e # ?e # envs) (s, d) (Joining u c) =
     (case Register s u c of (prev, s1) \<Rightarrow>
      case FlushQueue cr drv fenv (s1, d) u c of (acts, w') \<Rightarrow>
        (Serving u c, (case prev of None \<Rightarrow> [] | Some p \<Rightarrow> [CloseConn p 1000]) @ acts, w'))"
    by (simp add: FlushQueue_def split_beta)
  then show ?thesis by blast
qed

text \<open>
  With suitable faults, a delivery task that runs alone performs \<open>deliverLocal\<close>, and a
  connection task the registration followed by \<open>FlushQueue\<close>: the behaviours of the handlers
  are among those of the tasks.
\<close>

lemma handlers_are_schedules:
  "(\<exists>envs. run_task cr drv envs w (Looking u m) = (Finished, deliverLocal cr drv denv w u m))
   \<and> (\<exists>envs. run_task cr drv envs (s, d) (Joining v c) =
       (case Register s v c of (prev, s1) \<Rightarrow>
        case FlushQueue cr drv fenv (s1, d) v c of (acts, w') \<Rightarrow>
          (Serving v c, (case prev of None \<Rightarrow> [] | Some p \<Rightarrow> [CloseConn p 1000]) @ acts, w')))"
  using run_Looking run_Joining by blast

section \<open>Interleavings\<close>

text \<open>
  A network of tasks over one store.  \<open>nt_out\<close> is its output: every frame written, every
  write that failed and every connection closed, in order, as the sections perform them.
  \<open>nt_arrived\<close> and \<open>nt_handed\<close> are history variables: the messages for which a delivery was
  started, and those whose write succeeded.  The latter only serves the proofs;
  \<open>net_run_owned\<close> ties it to the output.
\<close>

record net =
  nt_store :: Store
  nt_disk :: fs
  nt_tasks :: "task list"
  nt_arrived :: "(string \<times> queuedMessage) list"
  nt_handed :: "(string \<times> queuedMessage) list"
  nt_out :: "action list"

datatype event =
    Arrive string queuedMessage
  | Connect string conn
  | Section nat sectionEnv
  | Purge purgeEnv

fun net_step :: "crypto \<Rightarrow> sqliteDriver \<Rightarrow> event \<Rightarrow> net \<Rightarrow> net" where
  "net_step cr drv (Arrive u m) n =
     n\<lparr>nt_tasks := nt_tasks n @ [Looking u m], nt_arrived := nt_arrived n @ [(u, m)]\<rparr>"
| "net_step cr drv (Connect u c) n = n\<lparr>nt_tasks := nt_tasks n @ [Joining u c]\<rparr>"
| "net_step cr drv (Section i env) n =
     (if i < length (nt_tasks n)
      then (case task_step cr drv env (nt_store n, nt_disk n) (nt_tasks n ! i) of (t, acts, s, d) \<Rightarrow>
        n\<lparr>nt_store := s, nt_disk := d, nt_tasks := (nt_tasks n)[i := t],
          nt_handed := nt_handed n @ hands_over env (nt_tasks n ! i), nt_out := nt_out n @ acts\<rparr>)
      else n)"
| "net_step cr drv (Purge env) n =
     (case purgeExpired cr drv env (nt_store n, nt_disk n) of (s, d) \<Rightarrow> n\<lparr>nt_store := s, nt_disk := d\<rparr>)"

fun net_run :: "crypto \<Rightarrow> sqliteDriver \<Rightarrow> event list \<Rightarrow> net \<Rightarrow> net" where
  "net_run cr drv [] n = n"
| "net_run cr drv (e # es) n = net_run cr drv es (net_step cr drv e n)"

definition net_start :: "Store \<Rightarrow> fs \<Rightarrow> net" where
  "net_start s d = \<lparr>nt_store = s, nt_disk = d, nt_tasks = [], nt_arrived = [], nt_handed = [], nt_out = []\<rparr>"

section \<open>Registrations belong to running tasks\<close>

fun attached :: "string \<Rightarrow> conn \<Rightarrow> task \<Rightarrow> bool" where
  "attached u c (Draining u' c') = (u' = u \<and> c' = c)"
| "attached u c (Flushing u' c' ms) = (u' = u \<and> c' = c)"
| "attached u c (Returning u' c' ms) = (u' = u \<and> c' = c)"
| "attached u c (Serving u' c') = (u' = u \<and> c' = c)"
| "attached u c t = False"

definition registry_ok :: "net \<Rightarrow> bool" where
  "registry_ok n \<longleftrightarrow> (\<forall>u c. LookupClient (nt_store n) u = Some c \<longrightarrow> (\<exists>t \<in> set (nt_tasks n). attached u c t))"

lemma LookupClient_frame [frame_simps]:
  "LookupClient (fst (Enqueue cr drv env w rid m)) u = LookupClient (fst w) u"
  "LookupClient (fst (snd (DrainQueue cr drv denv w rid))) u = LookupClient (fst w) u"
  "LookupClient (fst (purgeExpired cr drv penv w)) u = LookupClient (fst w) u"
  by (auto simp: LookupClient_def frame_simps DrainQueue_def purgeExpired_def Let_def split: prod.split)

lemma DrainQueue_clients: "DrainQueue cr drv env w rid = (ms, w') \<Longrightarrow> st_clients (fst w') = st_clients (fst w)"
  by (auto simp: DrainQueue_def Let_def split: prod.splits if_splits)

lemma task_step_registered:
  assumes "task_step cr drv env w t = (t', acts, w')" "LookupClient (fst w') u = Some c"
  shows "attached u c t' \<or> (LookupClient (fst w) u = Some c \<and> \<not> attached u c t)"
  using assms
  by (cases "(cr, drv, env, w, t)" rule: task_step.cases)
    (auto simp: Register_def Unregister_def LookupClient_def frame_simps dest!: DrainQueue_clients
      split: option.splits sum.splits prod.splits if_splits)

lemma net_step_registry: "registry_ok n \<Longrightarrow> registry_ok (net_step cr drv e n)"
proof (induction cr drv e n rule: net_step.induct)
  case (3 cr drv i env n)
  obtain t acts s d where st: "task_step cr drv env (nt_store n, nt_disk n) (nt_tasks n ! i) = (t, acts, s, d)"
    by (metis prod_cases4)
  show ?case
  proof (cases "i < length (nt_tasks n)")
    case True
    have "\<exists>t' \<in> set ((nt_tasks n)[i := t]). attached u c t'" if look: "LookupClient s u = Some c" for u c
      using task_step_registered [OF st, of u c] look
    proof (simp, elim disjE conjE)
      assume "attached u c t"
      then show ?thesis using True set_update_memI by metis
    next
      assume "LookupClient (nt_store n) u = Some c" "\<not> attached u c (nt_tasks n ! i)"
      with 3 obtain j where "j < length (nt_tasks n)" "attached u c (nt_tasks n ! j)" "j \<noteq> i"
        unfolding registry_ok_def by (metis in_set_conv_nth)
      then show ?thesis by (metis in_set_conv_nth length_list_update nth_list_update_neq)
    qed
    with True st show ?thesis by (simp add: registry_ok_def)
  qed (use 3 in simp)
next
  case (4 cr drv env n)
  have "LookupClient (fst (purgeExpired cr drv env (nt_store n, nt_disk n))) u = LookupClient (nt_store n) u" for u
    by (simp add: frame_simps)
  with 4 show ?case by (auto simp: registry_ok_def split: prod.splits)
qed (auto simp: registry_ok_def)

lemma net_run_registry: "registry_ok n \<Longrightarrow> registry_ok (net_run cr drv es n)"
  by (induction cr drv es n rule: net_run.induct) (simp_all add: net_step_registry)

section \<open>No interleaving loses or duplicates a message\<close>

text \<open>
  Messages are compared without their expiry, which every enqueue renews.  \<open>held u t\<close> are
  the messages for \<open>u\<close> that task \<open>t\<close> carries.
\<close>

definition body :: "queuedMessage \<Rightarrow> queuedMessage" where
  "body m = m\<lparr>qm_ExpiresAt := 0\<rparr>"

fun held :: "string \<Rightarrow> task \<Rightarrow> queuedMessage list" where
  "held u (Looking u' m) = (if u' = u then [m] else [])"
| "held u (Writing c u' m) = (if u' = u then [m] else [])"
| "held u (Queuing u' m) = (if u' = u then [m] else [])"
| "held u (Flushing u' c ms) = (if u' = u then ms else [])"
| "held u (Returning u' c ms) = (if u' = u then ms else [])"
| "held u t = []"

definition bodies :: "queuedMessage list \<Rightarrow> queuedMessage multiset" where
  "bodies ms = mset (map body ms)"

definition for_user :: "string \<Rightarrow> (string \<times> queuedMessage) list \<Rightarrow> queuedMessage multiset" where
  "for_user u xs = bodies (map snd (filter (\<lambda>x. fst x = u) xs))"

definition in_flight :: "string \<Rightarrow> net \<Rightarrow> queuedMessage multiset" where
  "in_flight u n = bodies (concat (map (held u) (nt_tasks n)))"

text \<open>
  The conditions under which messages must survive.  Writes may fail at will.  Statements
  succeed, an enqueue finds room, and nothing expires before time \<open>T\<close>, which no clock
  passes.
\<close>

definition deliverable :: "queuedMessage \<Rightarrow> bool" where
  "deliverable m \<longleftrightarrow> has_envelope m \<and> message_wf m"

definition enqueues_ok :: "int \<Rightarrow> Store \<Rightarrow> enqEnv \<Rightarrow> string \<Rightarrow> bool" where
  "enqueues_ok T s env u \<longleftrightarrow> enq_clean env \<and> int64_ok (expiry env s) \<and> ee_epoch env \<le> T
     \<and> T \<le> expiry env s \<and> has_room env s u"

fun section_ok :: "int \<Rightarrow> Store \<Rightarrow> sectionEnv \<Rightarrow> task \<Rightarrow> bool" where
  "section_ok T s env (Queuing u m) = enqueues_ok T s (sc_enq env) u"
| "section_ok T s env (Returning u c (m # ms)) = enqueues_ok T s (sc_enq env) u"
| "section_ok T s env (Draining u c) = (drain_clean (sc_drain env) \<and> unix (de_now (sc_drain env)) \<le> T)"
| "section_ok T s env t = True"

fun event_ok :: "int \<Rightarrow> event \<Rightarrow> net \<Rightarrow> bool" where
  "event_ok T (Arrive u m) n = deliverable m"
| "event_ok T (Connect u c) n = True"
| "event_ok T (Section i env) n = (i < length (nt_tasks n) \<longrightarrow> section_ok T (nt_store n) env (nt_tasks n ! i))"
| "event_ok T (Purge env) n = (pu_epoch env \<le> T)"

fun run_ok :: "crypto \<Rightarrow> sqliteDriver \<Rightarrow> int \<Rightarrow> event list \<Rightarrow> net \<Rightarrow> bool" where
  "run_ok cr drv T [] n = True"
| "run_ok cr drv T (e # es) n = (event_ok T e n \<and> run_ok cr drv T es (net_step cr drv e n))"

definition queue_inv :: "crypto \<Rightarrow> int \<Rightarrow> Store \<Rightarrow> bool" where
  "queue_inv cr T s \<longleftrightarrow> store_wf s \<and> \<not> st_stopped s \<and> (\<forall>u. \<forall>r \<in> set (mailbox (st_db s) u). T \<le> snd r)
     \<and> (\<forall>u. \<forall>m \<in> set (pending cr T s u). deliverable m)"

lemma body_stamp [simp]: "body (m\<lparr>qm_ExpiresAt := x\<rparr>) = body m" "deliverable (m\<lparr>qm_ExpiresAt := x\<rparr>) = deliverable m"
  by (simp_all add: body_def deliverable_def has_envelope_def message_wf_def)

lemma bodies_simps [simp]:
  "bodies [] = {#}" "bodies (xs @ ys) = bodies xs + bodies ys" "bodies (m # ms) = add_mset (body m) (bodies ms)"
  by (simp_all add: bodies_def)

lemma drainRows_late:
  assumes "\<forall>r \<in> set rows. T \<le> snd r" "now \<le> T"
  shows "drainRows cr key now (\<lambda>_. False) i rows = drainRows cr key T (\<lambda>_. False) i rows"
  using assms(1)
proof (induction rows arbitrary: i)
  case (Cons r rows)
  then have IH: "drainRows cr key now (\<lambda>_. False) (Suc i) rows = drainRows cr key T (\<lambda>_. False) (Suc i) rows" by simp
  obtain p x where "r = (p, x)" by (cases r)
  with Cons.prems assms(2) show ?case by (auto simp: IH split: sum.split prod.split bool.split)
qed simp

text \<open>What each operation of the store does to every queue, under the conditions.\<close>

lemma Enqueue_queue:
  assumes "gcm_correct cr" "queue_inv cr T s" "enqueues_ok T s env u" "deliverable m"
  shows "queue_inv cr T (fst (Enqueue cr drv env (s, d) u m))"
    and "bodies (pending cr T (fst (Enqueue cr drv env (s, d) u m)) v)
           = bodies (pending cr T s v) + bodies (if v = u then [m] else [])"
proof -
  let ?s = "fst (Enqueue cr drv env (s, d) u m)"
  from assms(2) have wf: "store_wf s" "\<not> st_stopped s" by (simp_all add: queue_inv_def)
  from assms(3) have e: "enq_clean env" "has_room env s u" "int64_ok (expiry env s)" "ee_epoch env \<le> T" "T \<le> expiry env s"
    by (simp_all add: enqueues_ok_def)
  have p: "pending cr T ?s v = pending cr T s v @ (if v = u then [m\<lparr>qm_ExpiresAt := expiry env s\<rparr>] else [])" for v
    using Enqueue_pending [OF assms(1) wf e(1,2) _ e(3-5), of m drv d] assms(4)
      Enqueue_frame [OF wf(1), of v u cr drv env d m]
    by (simp add: deliverable_def pending_def frame_simps)
  then show "bodies (pending cr T ?s v) = bodies (pending cr T s v) + bodies (if v = u then [m] else [])" by simp
  obtain c where box: "mailbox (st_db ?s) u
      = filter (\<lambda>(p, x). ee_epoch env \<le> x) (mailbox (st_db s) u) @ [(c, expiry env s)]"
    using Enqueue_mailbox [OF wf e(1,2)] by metis
  have "T \<le> snd r" if "r \<in> set (mailbox (st_db ?s) v)" for r v
    using that box e(5) assms(2) Enqueue_frame [OF wf(1), of v u cr drv env d m]
    by (cases "v = u") (auto simp: queue_inv_def)
  with p assms(2,4) wf show "queue_inv cr T ?s"
    by (auto simp: queue_inv_def Enqueue_wf frame_simps)
qed

lemma DrainQueue_queue:
  assumes "queue_inv cr T s" "drain_clean env" "unix (de_now env) \<le> T"
    and "DrainQueue cr drv env (s, d) u = (ms, s', d')"
  shows "ms = pending cr T s u" "queue_inv cr T s'" "pending cr T s' v = (if v = u then [] else pending cr T s v)"
proof -
  from assms(1) have wf: "store_wf s" "\<not> st_stopped s" "table_wf (st_db s)"
    by (simp_all add: queue_inv_def store_wf_def)
  have s': "s' = s\<lparr>st_db := sqlDeleteFor u (st_db s)\<rparr>" and "ms = pending cr (unix (de_now env)) s u"
    using DrainQueue_clean [OF wf(2) assms(2), of cr drv d u] assms(4) by simp_all
  then show "ms = pending cr T s u"
    using drainRows_late assms(1,3) unfolding pending_def queue_inv_def by blast
  have box: "mailbox (st_db s') v = (if v = u then [] else mailbox (st_db s) v)" for v
    using wf(3) by (simp add: s' qt.box_delete)
  then show p: "pending cr T s' v = (if v = u then [] else pending cr T s v)" for v
    by (simp add: pending_def s')
  have "store_wf s'" using DrainQueue_wf [OF wf(1), of cr drv env d u] assms(4) by simp
  with assms(1) box p show "queue_inv cr T s'"
    by (auto simp: queue_inv_def s')
qed

lemma purge_queue:
  assumes "queue_inv cr T s" "pu_epoch env \<le> T" "purgeExpired cr drv env (s, d) = (s', d')"
  shows "queue_inv cr T s'" "pending cr T s' v = pending cr T s v"
proof -
  from assms(1) have wf: "store_wf s" "\<not> st_stopped s" "table_wf (st_db s)"
    by (simp_all add: queue_inv_def store_wf_def)
  have "filter (\<lambda>(p, x). pu_epoch env \<le> x) (mailbox (st_db s) v) = mailbox (st_db s) v" for v
    using assms(1,2) by (fastforce simp: queue_inv_def intro!: filter_True)
  then have box: "mailbox (st_db s') v = mailbox (st_db s) v" for v
    using assms(3) wf(2,3) by (auto simp: purgeExpired_def Let_def qt.box_expire_all split: if_splits)
  have key: "st_key s' = st_key s" "st_stopped s' = st_stopped s"
    using assms(3) by (auto simp: purgeExpired_def Let_def split: if_splits)
  show p: "pending cr T s' v = pending cr T s v" for v by (simp add: pending_def box key)
  have "store_wf s'" using purgeExpired_wf [OF wf(1), of cr drv env d] assms(3) by simp
  with assms(1) box p key show "queue_inv cr T s'" by (simp add: queue_inv_def)
qed

lemma registry_queue:
  "queue_inv cr T s \<Longrightarrow> queue_inv cr T (snd (Register s u c))"
  "queue_inv cr T s \<Longrightarrow> queue_inv cr T (Unregister s u c)"
  "pending cr T (snd (Register s u c)) v = pending cr T s v"
  "pending cr T (Unregister s u c) v = pending cr T s v"
  using registry_wf [of s]
  by (auto simp: queue_inv_def pending_def Register_def Unregister_def)

lemma for_user_simps [simp]:
  "for_user u [] = {#}" "for_user u (xs @ ys) = for_user u xs + for_user u ys"
  "for_user u [(v, m)] = bodies (if v = u then [m] else [])"
  by (simp_all add: for_user_def)

lemma task_step_conserves:
  assumes "gcm_correct cr" "queue_inv cr T s" "section_ok T s env t"
    and "\<And>u m. m \<in> set (held u t) \<Longrightarrow> deliverable m"
    and "task_step cr drv env (s, d) t = (t', acts, s', d')"
  shows "queue_inv cr T s'"
    and "\<And>m. m \<in> set (held u t') \<Longrightarrow> deliverable m"
    and "bodies (pending cr T s u) + bodies (held u t)
          = bodies (pending cr T s' u) + bodies (held u t') + for_user u (hands_over env t)"
proof -
  have enq: "queue_inv cr T s2" "bodies (pending cr T s2 u) = bodies (pending cr T s u) + bodies (if u = v then [m] else [])"
    if "Enqueue cr drv (sc_enq env) (s, d) v m = (s2, d2)" "enqueues_ok T s (sc_enq env) v" "deliverable m" for v m s2 d2
    using Enqueue_queue [OF assms(1,2) that(2,3), of drv d] that(1) by simp_all
  have raw: "\<exists>b. marshalQueued m = Inr b" "has_envelope m" if "deliverable m" for m
    using that marshal_envelope by (auto simp: deliverable_def)
  have "queue_inv cr T s' \<and> (\<forall>m \<in> set (held u t'). deliverable m) \<and>
    bodies (pending cr T s u) + bodies (held u t)
          = bodies (pending cr T s' u) + bodies (held u t') + for_user u (hands_over env t)"
  proof (cases "(cr, drv, env, (s, d), t)" rule: task_step.cases)
    case (1 cr drv env w v m)
    then show ?thesis using assms by (auto split: option.splits)
  next
    case (2 cr drv env w c v m)
    then show ?thesis using assms raw [of m] by (auto split: sum.splits if_splits)
  next
    case (3 cr drv env w v m)
    then show ?thesis using assms enq [of v m s' d'] by auto
  next
    case (4 cr drv env w v c)
    then show ?thesis using assms registry_queue [of cr T s v c] by (auto split: prod.splits)
  next
    case (5 cr drv env w v c)
    then show ?thesis
      using assms DrainQueue_queue [OF assms(2), of "sc_drain env" drv d v _ s' d'] by (auto simp: queue_inv_def split: prod.splits)
  next
    case (7 cr drv env w v c m ms)
    then show ?thesis using assms raw [of m] by (auto split: sum.splits if_splits)
  next
    case (9 cr drv env w v c m ms)
    then show ?thesis using assms enq [of v m s' d'] by auto
  next
    case (10 cr drv env w v c)
    then show ?thesis using assms registry_queue [of cr T s v c] by auto
  qed (use assms in auto)
  then show "queue_inv cr T s'" "\<And>m. m \<in> set (held u t') \<Longrightarrow> deliverable m"
    "bodies (pending cr T s u) + bodies (held u t)
          = bodies (pending cr T s' u) + bodies (held u t') + for_user u (hands_over env t)"
    by blast+
qed

definition net_inv :: "crypto \<Rightarrow> int \<Rightarrow> net \<Rightarrow> bool" where
  "net_inv cr T n \<longleftrightarrow> queue_inv cr T (nt_store n)
     \<and> (\<forall>t \<in> set (nt_tasks n). \<forall>u. \<forall>m \<in> set (held u t). deliverable m)"

text \<open>What is in the system for \<open>u\<close>: pending, carried by a task, or already handed over.\<close>

definition total :: "crypto \<Rightarrow> int \<Rightarrow> string \<Rightarrow> net \<Rightarrow> queuedMessage multiset" where
  "total cr T u n = bodies (pending cr T (nt_store n) u) + in_flight u n + for_user u (nt_handed n)"

lemma bodies_update:
  assumes "i < length ts"
  shows "bodies (concat (map f (ts[i := t]))) + bodies (f (ts ! i)) = bodies (concat (map f ts)) + bodies (f t)"
  using assms
proof (induction ts arbitrary: i)
  case (Cons x ts)
  then show ?case by (cases i) (auto simp: ac_simps)
qed simp

lemma balance_trans:
  fixes a b c x y z :: "'a multiset"
  assumes "c + y = b + z" "b + x = a + y"
  shows "c + x = a + z"
proof -
  have "(c + x) + (b + y) = (c + y) + (b + x)" by (simp add: ac_simps)
  also have "\<dots> = (a + z) + (b + y)" by (simp add: assms ac_simps)
  finally show ?thesis by (rule add_right_imp_eq)
qed

lemma balance_update:
  fixes p p' h h' g ts ts' :: "'a multiset"
  assumes "p + h = p' + h' + g" "ts' + h = ts + h'"
  shows "p' + ts' + g = p + ts"
proof -
  have "(p' + ts' + g) + h = (p' + g) + (ts' + h)" by (simp add: ac_simps)
  also have "\<dots> = (p' + g) + (ts + h')" by (simp only: assms(2))
  also have "\<dots> = (p' + h' + g) + ts" by (simp add: ac_simps)
  also have "\<dots> = (p + h) + ts" by (simp only: assms(1))
  also have "\<dots> = (p + ts) + h" by (simp add: ac_simps)
  finally show ?thesis by (rule add_right_imp_eq)
qed

lemma net_step_conserves:
  assumes "gcm_correct cr" "net_inv cr T n" "event_ok T e n"
  shows "net_inv cr T (net_step cr drv e n)
    \<and> total cr T u (net_step cr drv e n) + for_user u (nt_arrived n) = total cr T u n + for_user u (nt_arrived (net_step cr drv e n))"
proof (cases e)
  case (Section i env)
  obtain t acts s d where st: "task_step cr drv env (nt_store n, nt_disk n) (nt_tasks n ! i) = (t, acts, s, d)"
    by (metis prod_cases4)
  show ?thesis
  proof (cases "i < length (nt_tasks n)")
    case True
    have held: "deliverable m" if "m \<in> set (held u (nt_tasks n ! i))" for u m
      using that True assms(2) nth_mem unfolding net_inv_def by blast
    have inv: "queue_inv cr T (nt_store n)" using assms(2) by (simp add: net_inv_def)
    have ok: "section_ok T (nt_store n) env (nt_tasks n ! i)" using True assms(3) Section by simp
    note c = task_step_conserves [OF assms(1) inv ok held st]
    have "net_inv cr T (net_step cr drv e n)"
      using c(1,2) True assms(2) st
      by (auto simp: Section net_inv_def dest!: subsetD [OF set_update_subset_insert])
    moreover have "total cr T u (net_step cr drv e n) = total cr T u n"
      using balance_update [OF c(3) [where u = u] bodies_update [OF True, of "held u" t]] True st
      by (simp add: Section total_def in_flight_def ac_simps)
    ultimately show ?thesis using True st by (simp add: Section)
  qed (use assms in \<open>simp add: Section\<close>)
next
  case (Purge env)
  obtain s d where p: "purgeExpired cr drv env (nt_store n, nt_disk n) = (s, d)" by fastforce
  with assms purge_queue [of cr T "nt_store n" env drv "nt_disk n" s d] show ?thesis
    by (simp add: Purge net_inv_def total_def in_flight_def)
qed (use assms in \<open>auto simp: net_inv_def total_def in_flight_def\<close>)

lemma net_run_conserves:
  assumes "gcm_correct cr" "net_inv cr T n" "run_ok cr drv T es n"
  shows "net_inv cr T (net_run cr drv es n)
    \<and> total cr T u (net_run cr drv es n) + for_user u (nt_arrived n) = total cr T u n + for_user u (nt_arrived (net_run cr drv es n))"
  using assms(2,3)
proof (induction es arbitrary: n)
  case (Cons e es)
  then have s: "net_inv cr T (net_step cr drv e n)"
    "total cr T u (net_step cr drv e n) + for_user u (nt_arrived n) = total cr T u n + for_user u (nt_arrived (net_step cr drv e n))"
    using net_step_conserves [OF assms(1), of T n e drv u] by simp_all
  have r: "run_ok cr drv T es (net_step cr drv e n)" using Cons.prems(2) by simp
  from Cons.IH [OF s(1) r] s(2) show ?case
    by (auto intro: balance_trans)
qed simp

section \<open>What goes out is what was handed over\<close>

text \<open>
  A connection is authenticated once, for one user: \<open>owner\<close> says which.  \<open>sent_to owner u\<close>
  are the frames written to connections of \<open>u\<close>.
\<close>

fun sent_to :: "(conn \<Rightarrow> string) \<Rightarrow> string \<Rightarrow> action list \<Rightarrow> bytes multiset" where
  "sent_to owner u [] = {#}"
| "sent_to owner u (Sent c raw # acts) = (if owner c = u then {#raw#} else {#}) + sent_to owner u acts"
| "sent_to owner u (_ # acts) = sent_to owner u acts"

fun owned :: "(conn \<Rightarrow> string) \<Rightarrow> task \<Rightarrow> bool" where
  "owned owner (Writing c u m) = (owner c = u)"
| "owned owner (Joining u c) = (owner c = u)"
| "owned owner (Draining u c) = (owner c = u)"
| "owned owner (Flushing u c ms) = (owner c = u)"
| "owned owner (Returning u c ms) = (owner c = u)"
| "owned owner (Serving u c) = (owner c = u)"
| "owned owner t = True"

definition clients_owned :: "(conn \<Rightarrow> string) \<Rightarrow> Store \<Rightarrow> bool" where
  "clients_owned owner s \<longleftrightarrow> (\<forall>u c. LookupClient s u = Some c \<longrightarrow> owner c = u)"

fun event_owned :: "(conn \<Rightarrow> string) \<Rightarrow> event \<Rightarrow> bool" where
  "event_owned owner (Connect u c) = (owner c = u)"
| "event_owned owner e = True"

definition net_owned :: "(conn \<Rightarrow> string) \<Rightarrow> net \<Rightarrow> bool" where
  "net_owned owner n \<longleftrightarrow> clients_owned owner (nt_store n) \<and> (\<forall>t \<in> set (nt_tasks n). owned owner t)
     \<and> (\<forall>u. sent_to owner u (nt_out n) = image_mset frame_of (for_user u (nt_handed n)))"

lemma sent_to_append: "sent_to owner u (xs @ ys) = sent_to owner u xs + sent_to owner u ys"
  by (induction owner u xs rule: sent_to.induct) (simp_all add: ac_simps)

lemma frame_of_body [simp]: "frame_of (body m) = frame_of m"
  by (cases "qm_Sealed m") (simp_all add: frame_of_def marshalQueued_def body_def)

lemma marshal_iff: "marshalQueued m = Inr raw \<longleftrightarrow> has_envelope m \<and> raw = frame_of m"
  by (auto simp: has_envelope_def marshalQueued_def frame_of_def split: option.split)

lemma task_step_sent:
  assumes "owned owner t" "task_step cr drv env w t = (t', acts, w')"
  shows "sent_to owner u acts = image_mset frame_of (for_user u (hands_over env t))"
proof (cases t)
  case (Writing c v m)
  with assms show ?thesis by (cases "has_envelope m"; cases "marshalQueued m") (auto simp: marshal_iff marshal_envelope split: if_splits)
next
  case (Flushing v c ms)
  with assms show ?thesis
    by (cases ms; cases "has_envelope (hd ms)"; cases "marshalQueued (hd ms)") (auto simp: marshal_iff marshal_envelope split: if_splits)
next
  case (Returning v c ms)
  with assms show ?thesis by (cases ms) auto
qed (use assms in \<open>auto split: option.splits prod.splits\<close>)

lemma task_step_owned:
  assumes "clients_owned owner (fst w)" "owned owner t" "task_step cr drv env w t = (t', acts, w')"
  shows "clients_owned owner (fst w') \<and> owned owner t'"
  using assms
  by (cases "(cr, drv, env, w, t)" rule: task_step.cases)
    (auto simp: clients_owned_def Register_def Unregister_def LookupClient_def frame_simps dest!: DrainQueue_clients
      split: option.splits sum.splits prod.splits if_splits)

lemma net_step_owned:
  assumes "net_owned owner n" "event_owned owner e"
  shows "net_owned owner (net_step cr drv e n)"
proof (cases e)
  case (Section i env)
  obtain t acts s d where st: "task_step cr drv env (nt_store n, nt_disk n) (nt_tasks n ! i) = (t, acts, s, d)"
    by (metis prod_cases4)
  show ?thesis
  proof (cases "i < length (nt_tasks n)")
    case True
    then have t: "owned owner (nt_tasks n ! i)" using assms(1) by (simp add: net_owned_def)
    with task_step_owned [OF _ t st] task_step_sent [OF t st] True st assms(1) Section show ?thesis
      by (auto simp: net_owned_def for_user_def bodies_def sent_to_append dest!: subsetD [OF set_update_subset_insert])
  qed (use assms Section in simp)
next
  case (Purge env)
  obtain s d where "purgeExpired cr drv env (nt_store n, nt_disk n) = (s, d)" by fastforce
  moreover from this have "LookupClient s u = LookupClient (nt_store n) u" for u
    using LookupClient_frame(3) [of cr drv env "(nt_store n, nt_disk n)" u] by simp
  ultimately show ?thesis using assms(1) Purge by (simp add: net_owned_def clients_owned_def)
qed (use assms in \<open>auto simp: net_owned_def\<close>)

lemma net_run_owned:
  assumes "net_owned owner n" "\<forall>e \<in> set es. event_owned owner e"
  shows "net_owned owner (net_run cr drv es n)"
  using assms by (induction es arbitrary: n) (simp_all add: net_step_owned)

lemma net_start_owned: "clients_owned owner s \<Longrightarrow> net_owned owner (net_start s d)"
  by (simp add: net_owned_def net_start_def)

section \<open>Properties\<close>

text \<open>
  C4: Deliveries, connections and purges may interleave at will and any write may fail: as long
  as database statements succeed, every enqueue finds room in the mailbox and nothing
  expires, no message is lost or duplicated.  At any time the messages accepted for a user,
  with those queued at the start, are those still queued, those a running goroutine carries,
  and others whose frames are exactly, one for one, the frames written to connections of the
  user.
\<close>

theorem messages_conserved:
  assumes "gcm_correct cr" "queue_inv cr T s" "run_ok cr drv T es (net_start s d)"
    and "clients_owned owner s" "\<forall>e \<in> set es. event_owned owner e"
    and "n = net_run cr drv es (net_start s d)"
  shows "\<exists>written. bodies (pending cr T s u) + for_user u (nt_arrived n)
      = written + bodies (pending cr T (nt_store n) u) + in_flight u n
    \<and> sent_to owner u (nt_out n) = image_mset frame_of written"
proof (intro exI conjI)
  have "net_inv cr T (net_start s d)" using assms(2) by (simp add: net_inv_def net_start_def)
  from net_run_conserves [OF assms(1) this assms(3), of u] assms(6)
  show "bodies (pending cr T s u) + for_user u (nt_arrived n)
      = for_user u (nt_handed n) + bodies (pending cr T (nt_store n) u) + in_flight u n"
    by (simp add: total_def net_start_def in_flight_def ac_simps)
  from net_run_owned [OF net_start_owned [OF assms(4)] assms(5)] assms(6)
  show "sent_to owner u (nt_out n) = image_mset frame_of (for_user u (nt_handed n))"
    by (simp add: net_owned_def)
qed

text \<open>
  C28: Every delivery and every connection set-up ends: no goroutine can execute its critical
  sections forever, whatever the other goroutines, the disk and the network do between
  them.
\<close>

theorem tasks_end:
  "wf {(t', t). t \<noteq> Finished \<and> (\<exists>cr drv env w. t' = fst (task_step cr drv env w t))}"
proof (rule wf_subset)
  show "wf (inv_image (less_than <*lex*> less_than) stage)" by (intro wf_inv_image wf_lex_prod) simp_all
  show "{(t', t). t \<noteq> Finished \<and> (\<exists>cr drv env w. t' = fst (task_step cr drv env w t))}
      \<subseteq> inv_image (less_than <*lex*> less_than) stage"
    using stage_decreases by (auto simp: inv_image_def)
qed

text \<open>
  C27: In every interleaving and under all faults, each registered connection belongs to a
  goroutine that is still serving it and will unregister it; when all have ended, nobody
  is registered.
\<close>

theorem registrations_have_handlers:
  assumes "st_clients s = []" "n = net_run cr drv es (net_start s d)"
  shows "(\<forall>u c. LookupClient (nt_store n) u = Some c \<longrightarrow> (\<exists>t \<in> set (nt_tasks n). attached u c t))
    \<and> (set (nt_tasks n) \<subseteq> {Finished} \<longrightarrow> (\<forall>u. LookupClient (nt_store n) u = None))"
proof -
  have "registry_ok (net_start s d)" using assms(1) by (simp add: registry_ok_def net_start_def LookupClient_def)
  from net_run_registry [OF this, of cr drv es] assms(2)
  have ok: "\<forall>u c. LookupClient (nt_store n) u = Some c \<longrightarrow> (\<exists>t \<in> set (nt_tasks n). attached u c t)"
    by (simp add: registry_ok_def)
  moreover have "LookupClient (nt_store n) u = None" if over: "set (nt_tasks n) \<subseteq> {Finished}" for u
  proof (rule ccontr)
    assume "LookupClient (nt_store n) u \<noteq> None"
    with ok obtain c t where "t \<in> set (nt_tasks n)" "attached u c t" by blast
    with over show False by auto
  qed
  ultimately show ?thesis by blast
qed

section \<open>A concrete interleaving\<close>

text \<open>
  A message for bob, whose goroutine finds him offline; bob connects before it enqueues.
  A second message then finds him online.
\<close>

definition demo_section :: sectionEnv where
  "demo_section = \<lparr>sc_write = True, sc_enq = demo_enq, sc_drain = demo_drain\<rparr>"

definition demo_events :: "event list" where
  "demo_events = [Arrive ''bob'' demo_msg, Section 0 demo_section, Connect ''bob'' 7,
     Section 1 demo_section, Section 0 demo_section,
     Arrive ''bob'' demo_msg, Section 2 demo_section, Section 2 demo_section]"

lemma demo_queue_inv: "queue_inv cr 0 demo_store"
  by (simp add: queue_inv_def demo_wf demo_box demo_empty)

lemma demo_registered: "LookupClient (snd (Register demo_store ''bob'' 7)) ''bob'' = Some 7" "LookupClient demo_store ''bob'' = None"
  "fst (Register demo_store ''bob'' 7) = None"
  by (simp_all add: LookupClient_def Register_def demo_store_def)

lemma demo_marshal: "marshalQueued demo_msg = Inr (frame_of demo_msg)"
  by (rule marshal_envelope) (simp add: has_envelope_def demo_msg_def)

lemma demo_run_ok: "run_ok plainCrypto demo_drv 0 demo_events (net_start demo_store Map.empty)"
proof -
  have online: "expiry demo_enq (snd (Register demo_store ''bob'' 7)) = 604800"
    "has_room demo_enq (snd (Register demo_store ''bob'' 7)) ''bob''"
    using demo_expiry demo_box
    by (simp_all add: expiry_def has_room_def Register_def maxQueuePerRecipient_def)
  have "deliverable demo_msg" using demo_enq_ok by (simp add: deliverable_def enq_ok_def has_envelope_def demo_msg_def)
  moreover have "enqueues_ok 0 (snd (Register demo_store ''bob'' 7)) demo_enq ''bob''"
    using demo_wf(3) by (simp add: enqueues_ok_def online int64_ok_def) (simp add: demo_enq_def)
  ultimately show ?thesis using demo_registered demo_marshal
    by (simp add: demo_events_def demo_section_def net_start_def frame_simps split_beta)
qed

theorem messages_conserved_witness:
  "let n = net_run plainCrypto demo_drv demo_events (net_start demo_store Map.empty) in
     {#body demo_msg, body demo_msg#} = {#body demo_msg#} + bodies (pending plainCrypto 0 (nt_store n) ''bob'')
     \<and> sent_to (\<lambda>_. ''bob'') ''bob'' (nt_out n) = {#frame_of demo_msg#}"
proof -
  let ?n = "net_run plainCrypto demo_drv demo_events (net_start demo_store Map.empty)"
  have "clients_owned (\<lambda>_. ''bob'') demo_store" by (simp add: clients_owned_def LookupClient_def demo_store_def)
  moreover have "\<forall>e \<in> set demo_events. event_owned (\<lambda>_. ''bob'') e" by (simp add: demo_events_def)
  ultimately obtain w where c: "bodies (pending plainCrypto 0 demo_store ''bob'') + for_user ''bob'' (nt_arrived ?n)
      = w + bodies (pending plainCrypto 0 (nt_store ?n) ''bob'') + in_flight ''bob'' ?n"
      "sent_to (\<lambda>_. ''bob'') ''bob'' (nt_out ?n) = image_mset frame_of w"
    using messages_conserved [OF plainCrypto_gcm demo_queue_inv demo_run_ok _ _ refl] by blast
  have n: "in_flight ''bob'' ?n = {#}" "nt_arrived ?n = [(''bob'', demo_msg), (''bob'', demo_msg)]"
    "sent_to (\<lambda>_. ''bob'') ''bob'' (nt_out ?n) = {#frame_of demo_msg#}"
    using demo_registered demo_marshal
    by (simp_all add: demo_events_def demo_section_def net_start_def in_flight_def for_user_def frame_simps split_beta)
  have "image_mset frame_of w = add_mset (frame_of demo_msg) {#}" using c(2) n(3) by simp
  from msed_map_invR [OF this] obtain m where w: "w = {#m#}" by auto
  from c(1) n w have "add_mset (body demo_msg) {#body demo_msg#} = add_mset m (bodies (pending plainCrypto 0 (nt_store ?n) ''bob''))"
    by (simp add: demo_empty for_user_def)
  then have "m \<in># add_mset (body demo_msg) {#body demo_msg#}" by simp
  then have "m = body demo_msg" by auto
  with c(1) n w show ?thesis by (simp add: Let_def demo_empty for_user_def)
qed

theorem registrations_have_handlers_witness:
  "let n = net_run plainCrypto demo_drv demo_events (net_start demo_store Map.empty) in
     LookupClient (nt_store n) ''bob'' = Some 7 \<and> Draining ''bob'' 7 \<in> set (nt_tasks n)"
proof -
  let ?n = "net_run plainCrypto demo_drv demo_events (net_start demo_store Map.empty)"
  have "st_clients demo_store = []" by (simp add: demo_store_def)
  note r = conjunct1 [OF registrations_have_handlers [OF this refl, of plainCrypto demo_drv demo_events Map.empty]]
  have tasks: "nt_tasks ?n = [Finished, Draining ''bob'' 7, Finished]" and look: "LookupClient (nt_store ?n) ''bob'' = Some 7"
    using demo_registered demo_marshal
    by (simp_all add: demo_events_def demo_section_def net_start_def frame_simps split_beta)
  from r look have "\<exists>t \<in> set (nt_tasks ?n). attached ''bob'' 7 t" by blast
  with tasks look show ?thesis by (simp add: Let_def)
qed

end
