(* ===== verification/Input_Types.thy ===== *)
theory Input_Types
  imports Json_Utf8 Interleaving Server_Props
begin

text \<open>
  Whatever bytes arrive over a connection or come out of the queue, the values the relay
  goes on with are well-typed: envelopes and user ids have valid UTF-8 strings and numbers in
  range, so they survive the encoding to JSON, the encryption and the database unchanged.
  With this the delivery theorem holds for whatever payload the relay takes for an
  envelope.  What another relay posts has one exception: the header with its name goes into
  the message as it is, and need not be valid UTF-8.
\<close>

section \<open>Envelopes and requests\<close>

lemma apsnd_snd: "snd (apsnd f p) = f (snd p)"
  by (cases p) simp

lemma keeps_sealed: "keeps sealed_wf decSealed"
  unfolding decSealed_def
proof (rule keeps_struct)
  fix f show "keeps sealed_wf (setSealed f)"
    using keeps_string keeps_int64
    by (auto simp: keeps_def setSealed_def sealed_wf_def apsnd_snd)
qed

lemma keeps_open: "keeps open_wf decOpen"
  unfolding decOpen_def
proof (rule keeps_struct)
  fix f show "keeps open_wf (setOpen f)"
    using keeps_string keeps_int64
    by (auto simp: keeps_def setOpen_def open_wf_def apsnd_snd)
qed

lemma zero_wf: "sealed_wf zeroSealed" "open_wf zeroOpen"
  by (simp_all add: sealed_wf_def open_wf_def zeroSealed_def zeroOpen_def int64_ok_def)

lemma unmarshalSealed_wf: "unmarshalSealed data = (e, x) \<Longrightarrow> sealed_wf x"
  using unmarshal_keeps [OF keeps_sealed zero_wf(1), of data] by (simp add: unmarshalSealed_def)

lemma unmarshalOpen_wf: "unmarshalOpen data = (e, x) \<Longrightarrow> open_wf x"
  using unmarshal_keeps [OF keeps_open zero_wf(2), of data] by (simp add: unmarshalOpen_def)

lemma decodeFirst_sealed_wf: "decodeFirst decSealed zeroSealed data = (e, x) \<Longrightarrow> sealed_wf x"
  using decodeFirst_keeps [OF keeps_sealed zero_wf(1), of data] by simp

lemma unmarshalAuthRequest_utf8:
  assumes "unmarshalAuthRequest data = (e, x)"
  shows "valid_utf8 (ar_UserID x)"
proof -
  have "keeps (valid_utf8 \<circ> ar_UserID) (setAuthRequest f)" for f
    using keeps_string by (auto simp: keeps_def setAuthRequest_def apsnd_snd)
  then have "keeps (valid_utf8 \<circ> ar_UserID) (decStruct setAuthRequest fs)" for fs by (rule keeps_struct)
  from unmarshal_keeps [OF this, of zeroAuthRequest _ data] assms show ?thesis
    by (simp add: unmarshalAuthRequest_def zeroAuthRequest_def) (metis snd_conv)
qed

lemma classify_deliverable:
  assumes "classify payload = Some (rid, m)"
  shows "deliverable m" "valid_utf8 rid" "rid \<noteq> []"
  using assms
  by (auto simp: classify_def deliverable_def has_envelope_def message_wf_def sealed_wf_def open_wf_def
      dest!: unmarshalSealed_wf unmarshalOpen_wf split: prod.splits if_splits)

lemma Authenticate_utf8:
  assumes "Authenticate cr env l ip = (Some uid, msgs, l')"
  shows "valid_utf8 uid"
  using assms
  by (auto simp: Authenticate_def Let_def dest: unmarshalAuthRequest_utf8
      split: prod.splits bool.splits option.splits if_splits)

lemma normalizeUser_utf8: "valid_utf8 uid \<Longrightarrow> valid_utf8 (normalizeUser relay uid)"
proof (cases rule: splitN2_cases [of "CHR ''@''" uid])
  case (two u d)
  moreover assume "valid_utf8 uid"
  moreover have "code CHR ''@'' < 128" by (simp add: code_def)
  ultimately show ?thesis using valid_utf8_before [of u "CHR ''@''" d] by (simp add: normalizeUser_def)
qed (simp add: normalizeUser_def)

lemma openConn_utf8:
  assumes "openConn cr drv aenv fenv w c addr = (Some u, acts, w')"
  shows "valid_utf8 u"
  using assms
  by (auto simp: openConn_def Let_def dest!: Authenticate_utf8 intro: normalizeUser_utf8
      split: prod.splits option.splits)

section \<open>Queued messages\<close>

lemma keeps_queued: "keeps message_wf (setQueued f)"
proof -
  note ptrs = keeps_ptr [OF keeps_sealed zero_wf(1)] keeps_ptr [OF keeps_open zero_wf(2)]
  show ?thesis
    using ptrs unfolding keeps_def
    by (auto simp: setQueued_def message_wf_def apsnd_snd)
qed

lemma unmarshalQueued_wf:
  assumes "unmarshalQueued data = (e, m)"
  shows "message_wf m"
proof -
  have k: "keeps message_wf (decStruct setQueued fs)" for fs by (rule keeps_struct) (rule keeps_queued)
  have "message_wf zeroQueued" by (simp add: zeroQueued_def message_wf_def)
  from unmarshal_keeps [OF k this, of _ data] assms show ?thesis
    unfolding unmarshalQueued_def by (metis snd_conv)
qed

lemma drainRows_wf: "m \<in> set (drainRows cr key now scan i rows) \<Longrightarrow> message_wf m"
  by (induction rows arbitrary: i)
    (auto dest: unmarshalQueued_wf unmarshalQueued_wf [OF sym] split: if_splits sum.splits prod.splits bool.splits)

lemma pending_wf: "m \<in> set (pending cr now s u) \<Longrightarrow> message_wf m"
  unfolding pending_def by (rule drainRows_wf)

section \<open>Frames and federation requests\<close>

lemma frame_decodes:
  assumes "classify payload = Some (rid, m)"
  shows "(\<exists>x. qm_Sealed m = Some x \<and> unmarshalSealed payload = (False, x) \<and> unmarshalSealed (frame_of m) = (False, x))
    \<or> (\<exists>x. qm_Open m = Some x \<and> unmarshalOpen payload = (False, x) \<and> unmarshalOpen (frame_of m) = (False, x))"
proof -
  have s: "unmarshalSealed (marshalSealed x) = (False, x)" if "unmarshalSealed payload = (False, x)" for x
    using unmarshal_marshalSealed unmarshalSealed_wf [OF that] by blast
  have o: "unmarshalOpen (marshalOpen x) = (False, x)" if "unmarshalOpen payload = (False, x)" for x
    using unmarshal_marshalOpen unmarshalOpen_wf [OF that] by blast
  show ?thesis
    using assms s o by (auto simp: classify_def frame_of_def marshalQueued_def split: prod.splits if_splits)
qed

lemma federation_input:
  assumes "handleFederationDeliver cr drv denv (sv, d) req = (resp, facts, sv', d')"
  shows "(facts = [] \<and> sv' = sv \<and> d' = d)
    \<or> (\<exists>x n fm. sealed_wf x \<and> se_RecipientID x \<noteq> [] \<and> valid_utf8 n
         \<and> fm = \<lparr>qm_Sealed = Some (x\<lparr>se_FederationSenderRelay := rq_relayID req\<rparr>), qm_Open = None, qm_ExpiresAt = 0\<rparr>
         \<and> deliver cr drv denv (sv_router sv) (sv_store sv, d) n fm = (facts, sv_store sv', d')
         \<and> (message_wf fm \<longleftrightarrow> valid_utf8 (rq_relayID req)))"
proof -
  obtain err x where x: "decodeFirst decSealed zeroSealed (rq_body req) = (err, x)" by fastforce
  let ?n = "splitN2 CHR ''@'' (se_RecipientID x) ! 0"
  let ?fm = "\<lparr>qm_Sealed = Some (x\<lparr>se_FederationSenderRelay := rq_relayID req\<rparr>), qm_Open = None, qm_ExpiresAt = 0\<rparr>"
  have wf: "sealed_wf x" using decodeFirst_sealed_wf [OF x] .
  then have n: "valid_utf8 ?n"
  proof (cases rule: splitN2_cases [of "CHR ''@''" "se_RecipientID x"])
    case (two u dom)
    moreover have "code CHR ''@'' < 128" by (simp add: code_def)
    ultimately show ?thesis using wf valid_utf8_before [of u "CHR ''@''" dom] by (simp add: sealed_wf_def)
  qed (simp add: sealed_wf_def)
  have "message_wf ?fm \<longleftrightarrow> valid_utf8 (rq_relayID req)" using wf by (simp add: message_wf_def sealed_wf_def)
  moreover have "(facts = [] \<and> sv' = sv \<and> d' = d) \<or> (se_RecipientID x \<noteq> []
      \<and> deliver cr drv denv (sv_router sv) (sv_store sv, d) ?n ?fm = (facts, sv_store sv', d'))"
    using assms x by (auto simp: handleFederationDeliver_def Let_def split: prod.splits if_splits)
  ultimately show ?thesis using wf n by blast
qed

section \<open>Properties\<close>

text \<open>
  C29: What a client sends over a connection, what the queue on disk holds and the body of a
  federation request are well-typed once read, whatever the bytes: a payload that is routed
  is an envelope with a non-empty recipient whose strings are valid UTF-8 and whose numbers
  fit their types; an authenticated user id is valid UTF-8; every message that comes out of
  the queue is well-formed; and a federation request either does nothing or hands a
  well-formed envelope to the delivery, with the relay header put in as it came: the message
  is well-formed exactly if that header is valid UTF-8, which nothing checks.
\<close>

theorem input_is_well_typed:
  "(classify payload = Some (rid, m) \<longrightarrow> rid \<noteq> [] \<and> valid_utf8 rid \<and> has_envelope m \<and> message_wf m)
   \<and> (openConn cr drv aenv fenv w c addr = (Some u, acts, w') \<longrightarrow> valid_utf8 u)
   \<and> (q \<in> set (pending cr now s v) \<longrightarrow> message_wf q)
   \<and> (handleFederationDeliver cr drv denv (sv, d) req = (resp, facts, sv', d') \<longrightarrow>
        (facts = [] \<and> sv' = sv \<and> d' = d)
        \<or> (\<exists>x n fm. sealed_wf x \<and> se_RecipientID x \<noteq> [] \<and> valid_utf8 n
             \<and> fm = \<lparr>qm_Sealed = Some (x\<lparr>se_FederationSenderRelay := rq_relayID req\<rparr>), qm_Open = None, qm_ExpiresAt = 0\<rparr>
             \<and> deliver cr drv denv (sv_router sv) (sv_store sv, d) n fm = (facts, sv_store sv', d')
             \<and> (message_wf fm \<longleftrightarrow> valid_utf8 (rq_relayID req))))"
proof (intro conjI)
  show "classify payload = Some (rid, m) \<longrightarrow> rid \<noteq> [] \<and> valid_utf8 rid \<and> has_envelope m \<and> message_wf m"
    using classify_deliverable [of payload rid m] by (simp add: deliverable_def)
  show "openConn cr drv aenv fenv w c addr = (Some u, acts, w') \<longrightarrow> valid_utf8 u" using openConn_utf8 by blast
  show "q \<in> set (pending cr now s v) \<longrightarrow> message_wf q" using pending_wf by blast
qed (use federation_input [of cr drv denv sv d req resp facts sv' d'] in blast)

text \<open>
  C15: A payload for a local recipient that is within the size limit and the sender's budget
  and that the relay takes for an envelope reaches exactly one place: the recipient's
  connection if there is one and the write succeeds, otherwise the end of the recipient's
  queue, provided that the mailbox has room and the database statements succeed.  No other
  mailbox changes.  What gets there is what the relay read: the frame decodes, in the form in
  which the payload was read, to the envelope that the payload decodes to.  (An open envelope
  is normally read in the sealed form, which has no sender id:
  \<open>open_envelope_loses_sender\<close>.)
\<close>

theorem accepted_reaches_recipient:
  assumes "gcm_correct cr" "store_wf s" "\<not> st_stopped s"
    and "int (length payload) \<le> rt_maxMessageSize r" "fst (Router_allow r sender now)"
    and "classify payload = Some (rid, m)" "local_user (rt_relayID r) rid = Some u"
    and "enq_clean (dv_enq env)" "has_room (dv_enq env) s u" "int64_ok (expiry (dv_enq env) s)"
    and "ee_epoch (dv_enq env) \<le> t" "t \<le> expiry (dv_enq env) s"
    and "Route cr drv now env r (s, disk) sender payload = (acts, r', s', disk')"
  shows "(case LookupClient s u of
      Some c \<Rightarrow> if dv_write env then acts = [Sent c (frame_of m)] \<and> s' = s \<and> disk' = disk
                else acts = [WriteFailed c (frame_of m)]
                  \<and> pending cr t s' u = pending cr t s u @ [m\<lparr>qm_ExpiresAt := expiry (dv_enq env) s\<rparr>]
    | None \<Rightarrow> acts = [] \<and> pending cr t s' u = pending cr t s u @ [m\<lparr>qm_ExpiresAt := expiry (dv_enq env) s\<rparr>])
    \<and> (\<forall>v. v = u \<or> mailbox (st_db s') v = mailbox (st_db s) v)
    \<and> ((\<exists>x. qm_Sealed m = Some x \<and> unmarshalSealed payload = (False, x) \<and> unmarshalSealed (frame_of m) = (False, x))
       \<or> (\<exists>x. qm_Open m = Some x \<and> unmarshalOpen payload = (False, x) \<and> unmarshalOpen (frame_of m) = (False, x)))"
proof (intro conjI)
  obtain r1 where r1: "Router_allow r sender now = (True, r1)"
    using assms(5) by (cases "Router_allow r sender now") auto
  then have "rt_relayID r1 = rt_relayID r" using Router_allow_frame(1) [of r sender now] by simp
  with assms(4,6,7,13) r1 have rt: "deliverLocal cr drv env (s, disk) u m = (acts, s', disk')"
    by (auto simp: Route_def deliver_local split: prod.splits)
  have m: "message_wf m" "has_envelope m"
    using classify_deliverable(1) [OF assms(6)] by (simp_all add: deliverable_def)
  from Enqueue_pending [OF assms(1-3,8,9) m(1) assms(10-12), of drv disk] rt marshal_envelope [OF m(2)]
  show "case LookupClient s u of
      Some c \<Rightarrow> if dv_write env then acts = [Sent c (frame_of m)] \<and> s' = s \<and> disk' = disk
                else acts = [WriteFailed c (frame_of m)]
                  \<and> pending cr t s' u = pending cr t s u @ [m\<lparr>qm_ExpiresAt := expiry (dv_enq env) s\<rparr>]
    | None \<Rightarrow> acts = [] \<and> pending cr t s' u = pending cr t s u @ [m\<lparr>qm_ExpiresAt := expiry (dv_enq env) s\<rparr>]"
    by (auto simp: deliverLocal_def split: option.splits if_splits)
  have "mailbox (st_db s') v = mailbox (st_db s) v" if "v \<noteq> u" for v
    using rt Enqueue_frame [OF assms(2) that, of cr drv "dv_enq env" disk m] marshal_envelope [OF m(2)]
    by (auto simp: deliverLocal_def split: option.splits if_splits)
  then show "\<forall>v. v = u \<or> mailbox (st_db s') v = mailbox (st_db s) v" by blast
qed (rule frame_decodes [OF assms(6)])

theorem input_is_well_typed_witness:
  "classify (marshalSealed demo_sealed) = Some (''bob'', \<lparr>qm_Sealed = Some demo_sealed, qm_Open = None, qm_ExpiresAt = 0\<rparr>)
   \<and> message_wf \<lparr>qm_Sealed = Some demo_sealed, qm_Open = None, qm_ExpiresAt = 0\<rparr>"
proof -
  have c: "classify (marshalSealed demo_sealed) = Some (''bob'', \<lparr>qm_Sealed = Some demo_sealed, qm_Open = None, qm_ExpiresAt = 0\<rparr>)"
    using classify_sealed [OF demo_sealed_wf] by (simp add: demo_sealed_def)
  with mp [OF conjunct1 [OF input_is_well_typed] c] show ?thesis by blast
qed

theorem accepted_reaches_recipient_witness:
  "pending plainCrypto 0 (fst (snd (snd (Route plainCrypto demo_drv 0 demo_deliver demo_router
      (demo_store, Map.empty) ''alice'' (marshalSealed demo_sealed))))) ''bob''
   = [\<lparr>qm_Sealed = Some demo_sealed, qm_Open = None, qm_ExpiresAt = 604800\<rparr>]"
proof -
  obtain acts r' s' d' where r: "Route plainCrypto demo_drv 0 demo_deliver demo_router
      (demo_store, Map.empty) ''alice'' (marshalSealed demo_sealed) = (acts, r', s', d')"
    by (cases "Route plainCrypto demo_drv 0 demo_deliver demo_router (demo_store, Map.empty) ''alice'' (marshalSealed demo_sealed)") auto
  have loc: "local_user (rt_relayID demo_router) (se_RecipientID demo_sealed) = Some ''bob''"
    using demo_local by (simp add: demo_sealed_def)
  have dv: "dv_enq demo_deliver = demo_enq" by (simp add: demo_deliver_def)
  have "LookupClient demo_store ''bob'' = None" by (simp add: LookupClient_def demo_store_def)
  then show ?thesis
    using accepted_reaches_recipient [OF plainCrypto_gcm demo_wf(1,2) _ demo_allows classify_sealed [OF demo_sealed_wf] loc _ _ _ _ _ r, of 0]
      demo_size demo_wf(3) demo_room demo_enq_ok r
    by (simp add: dv demo_expiry demo_empty enq_ok_def)
qed

end
