(* ===== verification/Http_Mux.thy ===== *)
theory Http_Mux
  imports Server
begin

text \<open>
  The routing of HTTP requests: \<^verbatim>\<open>http.ServeMux\<close> with the five patterns that
  \<^verbatim>\<open>Server.Run\<close> registers.  The mux is Go's: a tree of path segments with literal children
  and, below a pattern that ends in a slash, a child for the rest of the path.  It works
  on the escaped path, unescapes segment by segment, redirects to a cleaned path, and to a
  path with a trailing slash where only that is registered.  Wildcards, hosts and methods
  in patterns are left out because the relay registers none.

  \<open>routes_exactly\<close> says which requests reach which handler, without the tree.
\<close>

section \<open>Escapes and cleaning\<close>

fun percentDecode :: "string \<Rightarrow> string option" where
  "percentDecode [] = Some []"
| "percentDecode (x # xs) =
     (if x = CHR ''%''
      then (case xs of
              a # b # rest \<Rightarrow>
                (case (hex_val a, hex_val b) of
                   (Some h, Some l) \<Rightarrow> map_option (Cons (byte (16 * h + l))) (percentDecode rest)
                 | _ \<Rightarrow> None)
            | _ \<Rightarrow> None)
      else map_option (Cons x) (percentDecode xs))"

text \<open>A segment with a malformed escape stands for itself.\<close>

definition pathUnescape :: "string \<Rightarrow> string" where
  "pathUnescape s = (case percentDecode s of None \<Rightarrow> s | Some t \<Rightarrow> t)"

text \<open>\<^verbatim>\<open>cleanPath\<close> of \<^verbatim>\<open>net/http\<close>: rooted and cleaned, keeping a trailing slash.\<close>

definition muxCleanPath :: "string \<Rightarrow> string" where
  "muxCleanPath p0 =
     (if p0 = [] then ''/''
      else let p = (if hd p0 = CHR ''/'' then p0 else CHR ''/'' # p0); np = cleanPath p in
           if last p = CHR ''/'' \<and> np \<noteq> ''/'' then np @ ''/'' else np)"

section \<open>The routing tree\<close>

datatype endpoint = Health | WS | Prekeys | SealedCAKey | FederationDeliver

record pattern =
  pt_segments :: nat
  pt_multi :: bool
  pt_handler :: endpoint

datatype node = Node "pattern option" "(string \<times> node) list" "pattern option"

definition emptyNode :: node where
  "emptyNode = Node None [] None"

text \<open>The segments of a pattern, and whether it ends in a slash.\<close>

definition parsePattern :: "string \<Rightarrow> string list \<times> bool" where
  "parsePattern p =
     (let segs = splitOn CHR ''/'' (tl p) in
      if last segs = [] then (butlast segs, True) else (segs, False))"

fun addSegments :: "string list \<Rightarrow> pattern \<Rightarrow> node \<Rightarrow> node" where
  "addSegments [] p (Node h cs m) = (if pt_multi p then Node h cs (Some p) else Node (Some p) cs m)"
| "addSegments (seg # segs) p (Node h cs m) =
     (let child = (case map_of cs seg of None \<Rightarrow> emptyNode | Some n \<Rightarrow> n) in
      Node h (AList.update seg (addSegments segs p child) cs) m)"

definition handleFunc :: "string \<Rightarrow> endpoint \<Rightarrow> node \<Rightarrow> node" where
  "handleFunc pat h root =
     (case parsePattern pat of (segs, multi) \<Rightarrow>
        addSegments segs \<lparr>pt_segments = length segs + (if multi then 1 else 0), pt_multi = multi, pt_handler = h\<rparr> root)"

text \<open>The registrations of \<^verbatim>\<open>Run\<close>.\<close>

definition muxTree :: node where
  "muxTree =
     handleFunc ''/federation/deliver'' FederationDeliver
      (handleFunc ''/sealed-ca'' SealedCAKey
        (handleFunc ''/prekeys/'' Prekeys
          (handleFunc ''/ws'' WS
            (handleFunc ''/health'' Health emptyNode))))"

definition segHead :: "string \<Rightarrow> string" where
  "segHead q = takeWhile (\<lambda>c. c \<noteq> CHR ''/'') q"

definition segTail :: "string \<Rightarrow> string" where
  "segTail q = dropWhile (\<lambda>c. c \<noteq> CHR ''/'') q"

definition firstSegment :: "string \<Rightarrow> string \<times> string" where
  "firstSegment path =
     (if path = ''/'' then (''/'', [])
      else (pathUnescape (segHead (tl path)), segTail (tl path)))"

lemma firstSegment_shorter: "path \<noteq> [] \<Longrightarrow> length (snd (firstSegment path)) < length path"
  using length_dropWhile_le [of "\<lambda>c. c \<noteq> CHR ''/''" "tl path"]
  by (cases path) (auto simp: firstSegment_def segTail_def)

function matchPath :: "node \<Rightarrow> string \<Rightarrow> pattern option" where
  "matchPath (Node h cs m) path =
     (if path = [] then h
      else (case firstSegment path of (seg, rest) \<Rightarrow>
        case (case map_of cs seg of None \<Rightarrow> None | Some n \<Rightarrow> matchPath n rest) of
          Some p \<Rightarrow> Some p
        | None \<Rightarrow> m))"
  by pat_completeness auto
termination
proof (relation "measure (length \<circ> snd)", goal_cases)
  case 1
  show ?case by simp
next
  case (2 h cs m path seg rest n)
  then show ?case using firstSegment_shorter [of path] by (metis comp_apply in_measure snd_conv)
qed

definition exactMatch :: "pattern option \<Rightarrow> string \<Rightarrow> bool" where
  "exactMatch n path =
     (case n of
        None \<Rightarrow> False
      | Some p \<Rightarrow>
          if \<not> pt_multi p then True
          else if path \<noteq> [] \<and> last path \<noteq> CHR ''/'' then False
          else pt_segments p = length (filter (\<lambda>c. c = CHR ''/'') path))"

text \<open>\<open>redir\<close>: a redirection to a trailing slash may be tried.  \<open>True\<close>: it is the answer.\<close>

definition matchOrRedirect :: "node \<Rightarrow> string \<Rightarrow> bool \<Rightarrow> pattern option \<times> bool" where
  "matchOrRedirect root path redir =
     (let n = matchPath root path in
      if \<not> exactMatch n path \<and> redir \<and> \<not> (path \<noteq> [] \<and> last path = CHR ''/'')
      then (let n2 = matchPath root (path @ ''/'') in
            if exactMatch n2 (path @ ''/'') then (n2, True) else (n, False))
      else (n, False))"

datatype muxResult = Dispatch endpoint | MovedPermanently | PageNotFound | BadRequest

definition findHandler :: "node \<Rightarrow> string \<Rightarrow> string \<Rightarrow> muxResult" where
  "findHandler root rqMethod escapedPath =
     (let answer = (\<lambda>n. case n of None \<Rightarrow> PageNotFound | Some p \<Rightarrow> Dispatch (pt_handler p)) in
      if rqMethod = ''CONNECT''
      then (if snd (matchOrRedirect root escapedPath True) then MovedPermanently
            else answer (fst (matchOrRedirect root escapedPath False)))
      else
        let path = muxCleanPath escapedPath in
        (case matchOrRedirect root path True of (n, redirect) \<Rightarrow>
           if redirect then MovedPermanently
           else if path \<noteq> escapedPath then MovedPermanently
           else answer n))"

definition muxServe :: "string \<Rightarrow> string \<Rightarrow> string \<Rightarrow> muxResult" where
  "muxServe requestURI rqMethod escapedPath =
     (if requestURI = ''*'' then BadRequest else findHandler muxTree rqMethod escapedPath)"

lemma muxTree_eq:
  "muxTree = Node None
     [(''health'', Node (Some \<lparr>pt_segments = 1, pt_multi = False, pt_handler = Health\<rparr>) [] None),
      (''ws'', Node (Some \<lparr>pt_segments = 1, pt_multi = False, pt_handler = WS\<rparr>) [] None),
      (''prekeys'', Node None [] (Some \<lparr>pt_segments = 2, pt_multi = True, pt_handler = Prekeys\<rparr>)),
      (''sealed-ca'', Node (Some \<lparr>pt_segments = 1, pt_multi = False, pt_handler = SealedCAKey\<rparr>) [] None),
      (''federation'', Node None
         [(''deliver'', Node (Some \<lparr>pt_segments = 2, pt_multi = False, pt_handler = FederationDeliver\<rparr>) [] None)] None)]
     None"
  by code_simp

section \<open>Which requests reach which handler\<close>

text \<open>The reference: a table over the unescaped segments of a clean path.\<close>

definition routeTable :: "string list \<Rightarrow> muxResult" where
  "routeTable segs =
     (case segs of
        [a] \<Rightarrow>
          if a = ''health'' then Dispatch Health
          else if a = ''ws'' then Dispatch WS
          else if a = ''sealed-ca'' then Dispatch SealedCAKey
          else if a = ''prekeys'' then MovedPermanently
          else PageNotFound
      | [a, b] \<Rightarrow>
          if a = ''prekeys'' then Dispatch Prekeys
          else if a = ''federation'' \<and> b = ''deliver'' then Dispatch FederationDeliver
          else PageNotFound
      | a # _ \<Rightarrow> if a = ''prekeys'' then Dispatch Prekeys else PageNotFound
      | [] \<Rightarrow> PageNotFound)"

lemma splitOn_rec: "splitOn CHR ''/'' q = segHead q # (case segTail q of [] \<Rightarrow> [] | _ # r \<Rightarrow> splitOn CHR ''/'' r)"
  by (induction q) (auto simp: segHead_def segTail_def)

lemma after_cases:
  obtains (none) "segTail q = []" | (some) r where "segTail q = CHR ''/'' # r"
proof (cases "segTail q")
  case (Cons x r)
  then have "x = CHR ''/''" using hd_dropWhile [of "\<lambda>c. c \<noteq> CHR ''/''" q] by (simp add: segTail_def)
  with Cons some show ?thesis by simp
qed (rule none)

lemma pathUnescape_Nil [simp]: "pathUnescape [] = []" "segHead [] = []" "segTail [] = []"
  by (simp_all add: pathUnescape_def segHead_def segTail_def)

lemma firstSegment_cons: "q \<noteq> [] \<Longrightarrow> firstSegment (CHR ''/'' # q) = (pathUnescape (segHead q), segTail q)"
  by (simp add: firstSegment_def)

declare matchPath.simps [simp del]

lemma match_leaf: "matchPath (Node h [] m) path = (if path = [] then h else m)"
  by (simp add: matchPath.simps split: prod.split)

lemma match_node:
  "q \<noteq> [] \<Longrightarrow> matchPath (Node h cs m) (CHR ''/'' # q) =
     (case (case map_of cs (pathUnescape (segHead q)) of None \<Rightarrow> None | Some n \<Rightarrow> matchPath n (segTail q)) of
        Some p \<Rightarrow> Some p | None \<Rightarrow> m)"
  "matchPath (Node h cs m) ''/'' =
     (case (case map_of cs ''/'' of None \<Rightarrow> None | Some n \<Rightarrow> matchPath n []) of Some p \<Rightarrow> Some p | None \<Rightarrow> m)"
  "matchPath (Node h cs m) [] = h"
  by (simp_all add: matchPath.simps firstSegment_cons) (simp add: firstSegment_def)

text \<open>What the tree gives for a path, by its first segments.\<close>

definition pattern_for :: "string \<Rightarrow> pattern option" where
  "pattern_for q =
    (let a = pathUnescape (segHead q) in
     if a = ''prekeys'' then (if segTail q = [] then None else Some \<lparr>pt_segments = 2, pt_multi = True, pt_handler = Prekeys\<rparr>)
     else if a = ''federation''
     then (if pathUnescape (segHead (tl (segTail q))) = ''deliver'' \<and> segTail (tl (segTail q)) = []
           then Some \<lparr>pt_segments = 2, pt_multi = False, pt_handler = FederationDeliver\<rparr> else None)
     else if segTail q \<noteq> [] then None
     else if a = ''health'' then Some \<lparr>pt_segments = 1, pt_multi = False, pt_handler = Health\<rparr>
     else if a = ''ws'' then Some \<lparr>pt_segments = 1, pt_multi = False, pt_handler = WS\<rparr>
     else if a = ''sealed-ca'' then Some \<lparr>pt_segments = 1, pt_multi = False, pt_handler = SealedCAKey\<rparr>
     else None)"

lemma match_root: "matchPath muxTree (CHR ''/'' # q) = pattern_for q"
proof (cases "q = []")
  case True
  then show ?thesis by (simp add: muxTree_eq match_node pattern_for_def)
next
  case False
  show ?thesis
  proof (cases rule: after_cases [of q])
    case none
    with False show ?thesis by (simp add: muxTree_eq match_node match_leaf pattern_for_def Let_def)
  next
    case (some r)
    with False show ?thesis
      by (cases "r = []") (simp_all add: muxTree_eq match_node match_leaf pattern_for_def Let_def)
  qed
qed

lemma seg_snoc: "segHead (q @ ''/'') = segHead q" "segTail (q @ ''/'') = segTail q @ ''/''"
  by (induction q) (auto simp: segHead_def segTail_def)

lemma slash_pattern:
  "pattern_for (q @ ''/'') =
     (if pathUnescape (segHead q) = ''prekeys''
      then Some \<lparr>pt_segments = 2, pt_multi = True, pt_handler = Prekeys\<rparr> else None)"
  by (cases rule: after_cases [of q]) (simp_all add: pattern_for_def seg_snoc Let_def)

lemma no_slash: "filter (\<lambda>c. c = CHR ''/'') q = [] \<longleftrightarrow> segTail q = []"
  by (auto simp: segTail_def filter_empty_conv)

lemma redirects:
  "snd (matchOrRedirect muxTree (CHR ''/'' # q) True) \<longleftrightarrow> pathUnescape (segHead q) = ''prekeys'' \<and> segTail q = []"
proof -
  have s: "(CHR ''/'' # q) @ ''/'' = CHR ''/'' # (q @ ''/'')" by simp
  have e: "exactMatch (pattern_for (q @ ''/'')) (CHR ''/'' # q @ ''/'') \<longleftrightarrow> pathUnescape (segHead q) = ''prekeys'' \<and> segTail q = []"
    by (auto simp: slash_pattern exactMatch_def no_slash)
  have "segTail q \<noteq> []" if "q \<noteq> []" "last q = CHR ''/''"
    using that last_in_set [of q] by (auto simp: segTail_def)
  moreover have "\<not> exactMatch (pattern_for q) p" if "pathUnescape (segHead q) = ''prekeys''" "segTail q = []" for p
    using that by (simp add: pattern_for_def exactMatch_def)
  ultimately show ?thesis
    unfolding matchOrRedirect_def Let_def match_root s by (auto simp: e)
qed

lemma matches: "\<not> snd (matchOrRedirect muxTree (CHR ''/'' # q) True) \<Longrightarrow>
    fst (matchOrRedirect muxTree (CHR ''/'' # q) True) = pattern_for q"
  by (auto simp: matchOrRedirect_def Let_def match_root split: if_splits)

lemma table_pattern:
  "(if pathUnescape (segHead q) = ''prekeys'' \<and> segTail q = [] then MovedPermanently
    else case pattern_for q of None \<Rightarrow> PageNotFound | Some p \<Rightarrow> Dispatch (pt_handler p))
   = routeTable (map pathUnescape (splitOn CHR ''/'' q))"
proof (cases rule: after_cases [of q])
  case none
  then show ?thesis by (simp add: splitOn_rec [of q] routeTable_def pattern_for_def Let_def)
next
  case (some r)
  obtain x xs where "splitOn CHR ''/'' (tl (segTail r)) = x # xs"
    using splitOn_rec [of "tl (segTail r)"] by blast
  with some show ?thesis
    by (cases rule: after_cases [of r])
      (simp_all add: splitOn_rec [of q] splitOn_rec [of r] routeTable_def pattern_for_def Let_def)
qed

lemma clean_rooted: "muxCleanPath p = p \<Longrightarrow> \<exists>q. p = CHR ''/'' # q"
  by (auto simp: muxCleanPath_def cleanPath_def Let_def split: if_splits) (metis list.sel(1) list.exhaust)+

section \<open>Serving a request\<close>

text \<open>
  A request with what the router reads of it: the escaped path and the request URI.  The
  redirect (its Location header and body) and the error replies of the mux are Go's.
\<close>

record httpInput = request +
  hi_uri :: string
  hi_escapedPath :: string

text \<open>
  \<open>Upgraded\<close> is a request that became a connection, with the user it authenticated, if any,
  and what was written and closed until it waits for its first frame or has ended;
  \<open>NotUpgraded\<close> is one that \<^verbatim>\<open>websocket.Accept\<close> refused and answered itself.
\<close>

datatype served = Answered response "action list" | Redirected | NotUpgraded | Upgraded "string option" "action list"

text \<open>
  \<^verbatim>\<open>handleWS\<close> with its \<^verbatim>\<open>serveConn\<close> up to the read loop.  The value of the counter it loads
  is an input; that the counter is one higher while the connection lasts is in theory
  \<open>Connection_Limit\<close>.
\<close>

record wsEnv =
  hw_active :: int
  hw_accept :: bool
  hw_conn :: conn
  hw_addr :: string
  hw_auth :: authEnv
  hw_flush :: flushEnv

definition handleWS :: "crypto \<Rightarrow> sqliteDriver \<Rightarrow> wsEnv \<Rightarrow> Server \<times> fs \<Rightarrow> served \<times> Server \<times> fs" where
  "handleWS cr drv env w =
     (if MaxClients (sv_cfg (fst w)) \<le> hw_active env then (Answered (reply 503) [], w)
      else if \<not> hw_accept env then (NotUpgraded, w)
      else (case openConn cr drv (hw_auth env) (hw_flush env) w (hw_conn env) (hw_addr env) of (res, acts, w') \<Rightarrow>
              (Upgraded res acts, w')))"

record httpEnv =
  he_now :: time
  he_persist :: persistEnv
  he_deliver :: deliverEnv
  he_ws :: wsEnv

definition serveHTTP :: "crypto \<Rightarrow> sqliteDriver \<Rightarrow> httpEnv \<Rightarrow> Server \<times> fs \<Rightarrow> httpInput
    \<Rightarrow> served \<times> Server \<times> fs" where
  "serveHTTP cr drv env w r =
     (let rq = request.truncate r in
      case muxServe (hi_uri r) (rq_method r) (hi_escapedPath r) of
        BadRequest \<Rightarrow> (Answered (reply 400) [], w)
      | MovedPermanently \<Rightarrow> (Redirected, w)
      | PageNotFound \<Rightarrow>
          (Answered \<lparr>rs_status = 404,
             rs_headers = [(''Content-Type'', ''text/plain; charset=utf-8''), (''X-Content-Type-Options'', ''nosniff'')],
             rs_body = ''404 page not found'' @ [byte 10]\<rparr> [], w)
      | Dispatch Health \<Rightarrow> (Answered (handleHealth rq) [], w)
      | Dispatch WS \<Rightarrow> handleWS cr drv (he_ws env) w
      | Dispatch SealedCAKey \<Rightarrow> (Answered (handleSealedCA (fst w) rq) [], w)
      | Dispatch Prekeys \<Rightarrow>
          (case handlePrekeysGet cr (he_now env) (he_persist env) w rq of (resp, w') \<Rightarrow> (Answered resp [], w'))
      | Dispatch FederationDeliver \<Rightarrow>
          (case handleFederationDeliver cr drv (he_deliver env) w rq of (resp, acts, w') \<Rightarrow> (Answered resp acts, w')))"

lemma prekeys_get_frame:
  assumes "handlePrekeysGet cr now env (sv, d) r = (resp, sv', d')"
  shows "sv' = sv\<lparr>sv_prekeys := sv_prekeys sv', sv_prekeyLimiter := sv_prekeyLimiter sv'\<rparr>"
    and "rq_method r \<noteq> ''GET'' \<Longrightarrow> (sv', d') = (sv, d)"
  using assms by (auto simp: handlePrekeysGet_def Let_def split: if_splits prod.splits option.splits)

lemma federation_frame:
  assumes "handleFederationDeliver cr drv env (sv, d) r = (resp, acts, sv', d')"
  shows "sv' = sv\<lparr>sv_store := sv_store sv'\<rparr>"
    and "rq_method r \<noteq> ''POST'' \<Longrightarrow> (sv', d') = (sv, d) \<and> acts = []"
  using assms by (auto simp: handleFederationDeliver_def Let_def split: if_splits prod.splits)

lemma route_table:
  assumes "rqMethod \<noteq> ''CONNECT''"
  shows "findHandler muxTree rqMethod p =
    (if muxCleanPath p \<noteq> p then MovedPermanently else routeTable (map pathUnescape (splitOn CHR ''/'' (tl p))))"
proof (cases "muxCleanPath p = p")
  case True
  then obtain q where p: "p = CHR ''/'' # q" using clean_rooted by blast
  show ?thesis
    using assms True redirects [of q] matches [of q]
    by (auto simp: findHandler_def Let_def p split_beta table_pattern [symmetric])
qed (use assms in \<open>simp add: findHandler_def Let_def split_beta\<close>)

section \<open>Properties\<close>

text \<open>
  C24: The routing tree implements a table: a request that is not a CONNECT and whose escaped
  path is not clean is redirected; otherwise its unescaped segments alone decide which
  handler it reaches, the bare \<^verbatim>\<open>/prekeys\<close> is redirected, and everything else is not found.
\<close>

theorem routes_exactly:
  assumes "rqMethod \<noteq> ''CONNECT''"
  shows "findHandler muxTree rqMethod p =
    (if muxCleanPath p \<noteq> p then MovedPermanently else routeTable (map pathUnescape (splitOn CHR ''/'' (tl p))))"
  using assms by (rule route_table)

theorem routes_exactly_witness:
  "findHandler muxTree ''GET'' ''/prekeys/bob'' = Dispatch Prekeys"
proof -
  have "muxCleanPath ''/prekeys/bob'' = ''/prekeys/bob''" by code_simp
  with routes_exactly [of "''GET''" "''/prekeys/bob''"] show ?thesis by (simp add: routeTable_def pathUnescape_def)
qed

end
