(* ===== verification/Relay_Files.thy ===== *)
theory Relay_Files
  imports File_Owners Input_Types Http_Mux
begin

text \<open>
  The invariant that ties a running relay to its five files (the queue and its key, the
  prekeys and their key, the key of the authority): every handler keeps it, and a start
  on the files it describes reads them back, writes nothing and establishes it again.
\<close>

section \<open>The files of a relay\<close>

record site =
  si_queue :: string
  si_queueKey :: bytes
  si_prekeys :: string
  si_prekeyKey :: bytes
  si_ca :: string
  si_caKey :: bytes

definition paths_ok :: "Config \<Rightarrow> bool" where
  "paths_ok cfg \<longleftrightarrow>
     \<not> temp_file (OfflineQueuePath cfg) \<and> \<not> temp_file (PrekeyStorePath cfg) \<and> \<not> temp_file (SealedCAPath cfg)
     \<and> distinct [OfflineQueuePath cfg, OfflineQueuePath cfg @ keyFileSuffix,
         PrekeyStorePath cfg, PrekeyStorePath cfg @ keyFileSuffix, SealedCAPath cfg]"

definition same_paths :: "Config \<Rightarrow> Config \<Rightarrow> bool" where
  "same_paths cfg cfg' \<longleftrightarrow> OfflineQueuePath cfg' = OfflineQueuePath cfg
     \<and> PrekeyStorePath cfg' = PrekeyStorePath cfg \<and> SealedCAPath cfg' = SealedCAPath cfg"

definition site_of :: "Server \<Rightarrow> site" where
  "site_of sv = \<lparr>si_queue = OfflineQueuePath (sv_cfg sv), si_queueKey = st_key (sv_store sv),
     si_prekeys = PrekeyStorePath (sv_cfg sv), si_prekeyKey = ps_key (sv_prekeys sv),
     si_ca = SealedCAPath (sv_cfg sv), si_caKey = ca_priv (sv_sealedCA sv)\<rparr>"

definition site_ok :: "site \<Rightarrow> bool" where
  "site_ok si \<longleftrightarrow> \<not> temp_file (si_queue si) \<and> \<not> temp_file (si_prekeys si) \<and> \<not> temp_file (si_ca si)
     \<and> queue_files (si_queue si) \<inter> queue_files (si_prekeys si) = {}
     \<and> si_ca si \<notin> queue_files (si_queue si) \<and> si_ca si \<notin> queue_files (si_prekeys si)"

text \<open>What a start relies on.\<close>

definition disk_ok :: "crypto \<Rightarrow> sqliteDriver \<Rightarrow> site \<Rightarrow> fs \<Rightarrow> bool" where
  "disk_ok cr drv si d \<longleftrightarrow> saved cr drv (si_queue si) (si_queueKey si) d
     \<and> pk_saved cr (si_prekeys si) (si_prekeyKey si) d \<and> length (si_prekeyKey si) = 32
     \<and> (\<exists>f. d (si_ca si) = Some f \<and> fdata f = si_caKey si) \<and> genuine cr (si_caKey si)"

text \<open>The invariant of a running relay: each component's, on the one disk.\<close>

definition relay_inv :: "crypto \<Rightarrow> sqliteDriver \<Rightarrow> site \<Rightarrow> Server \<Rightarrow> fs \<Rightarrow> bool" where
  "relay_inv cr drv si sv d \<longleftrightarrow> relay_ok sv
     \<and> queue_ok cr drv (si_queue si) (si_queueKey si) (sv_store sv) d
     \<and> prekeys_ok cr (si_prekeys si) (si_prekeyKey si) (sv_prekeys sv) d
     \<and> ca_ok cr (si_ca si) (si_caKey si) (sv_sealedCA sv) d"

lemma relay_inv_disk: "relay_inv cr drv si sv d \<Longrightarrow> disk_ok cr drv si d"
  by (auto simp: relay_inv_def disk_ok_def queue_ok_def prekeys_ok_def ca_ok_def life_inv_def pk_inv_def ps_wf_def)

lemma disk_ok_crash:
  assumes "disk_ok cr drv si d" "site_ok si" "untouched {} d d'"
  shows "disk_ok cr drv si d'"
proof -
  have "d' (si_queue si) = d (si_queue si)" "d' (si_prekeys si) = d (si_prekeys si)" "d' (si_ca si) = d (si_ca si)"
    "d' (p @ keyFileSuffix) = d (p @ keyFileSuffix)" for p
    using assms(2,3) key_not_temp by (simp_all add: untouched_def site_ok_def)
  with assms(1) show ?thesis by (simp add: disk_ok_def saved_def pk_saved_def)
qed

section \<open>One component at a time\<close>

lemma relay_inv_store:
  assumes "relay_inv cr drv si sv d" "site_ok si" "store_run cr drv (sv_store sv, d) (st, d')"
    and "relay_ok sv'" "sv_store sv' = st" "sv_prekeys sv' = sv_prekeys sv" "sv_sealedCA sv' = sv_sealedCA sv"
  shows "relay_inv cr drv si sv' d'"
proof -
  have r: "queue_ok cr drv (si_queue si) (si_queueKey si) st d' \<and> untouched (queue_files (si_queue si)) d d'"
    using qo.run_keeps [OF assms(3), of "si_queue si" "si_queueKey si"] assms(1) by (simp add: relay_inv_def)
  with assms show ?thesis
    using po.other_keeps [of cr "si_prekeys si" "si_prekeyKey si" "sv_prekeys sv" d "queue_files (si_queue si)" d']
      co.other_keeps [of cr "si_ca si" "si_caKey si" "sv_sealedCA sv" d "queue_files (si_queue si)" d']
    by (auto simp: relay_inv_def site_ok_def)
qed

lemma relay_inv_prekeys:
  assumes "relay_inv cr drv si sv d" "site_ok si" "prekey_step cr (sv_prekeys sv, d) (ps, d')"
    and "relay_ok sv'" "sv_store sv' = sv_store sv" "sv_prekeys sv' = ps" "sv_sealedCA sv' = sv_sealedCA sv"
  shows "relay_inv cr drv si sv' d'"
proof -
  have r: "prekeys_ok cr (si_prekeys si) (si_prekeyKey si) ps d'" "untouched (queue_files (si_prekeys si)) d d'"
    using po.step_inv [OF assms(3), of "si_prekeys si" "si_prekeyKey si"]
      po.step_frame [OF assms(3), of "si_prekeys si" "si_prekeyKey si"] assms(1) by (simp_all add: relay_inv_def)
  with assms show ?thesis
    using qo.other_keeps [of cr drv "si_queue si" "si_queueKey si" "sv_store sv" d "queue_files (si_prekeys si)" d']
      co.other_keeps [of cr "si_ca si" "si_caKey si" "sv_sealedCA sv" d "queue_files (si_prekeys si)" d']
    by (auto simp: relay_inv_def site_ok_def)
qed

lemma relay_inv_rest:
  assumes "relay_inv cr drv si sv d" "relay_ok sv'"
    and "sv_store sv' = sv_store sv" "sv_prekeys sv' = sv_prekeys sv" "sv_sealedCA sv' = sv_sealedCA sv"
  shows "relay_inv cr drv si sv' d"
  using assms by (simp add: relay_inv_def)

section \<open>Handlers\<close>

lemma openConn_inv:
  assumes "openConn cr drv aenv fenv (sv, d) c addr = (res, acts, sv', d')" "relay_inv cr drv si sv d" "site_ok si"
  shows "relay_inv cr drv si sv' d'"
proof -
  have ok: "relay_ok sv'"
    using openConn_ok [of sv cr drv aenv fenv d c addr] assms(1,2) by (simp add: relay_inv_def)
  obtain result msgs l where a: "Authenticate cr aenv (sv_auth sv) (ExtractIP addr) = (result, msgs, l)"
    by (cases "Authenticate cr aenv (sv_auth sv) (ExtractIP addr)") auto
  show ?thesis
  proof (cases result)
    case None
    with assms(1) a have "sv' = sv\<lparr>sv_auth := l\<rparr>" "d' = d" by (auto simp: openConn_def)
    with relay_inv_rest [OF assms(2) ok] show ?thesis by simp
  next
    case (Some uid)
    let ?u = "normalizeUser (RelayID (sv_cfg sv)) uid"
    obtain acts' st where f: "FlushQueue cr drv fenv (snd (Register (sv_store sv) ?u c), d) ?u c = (acts', st, d')"
      and sv': "sv' = sv\<lparr>sv_auth := l, sv_store := st\<rparr>"
      using assms(1) a Some by (auto simp: openConn_def Let_def split: prod.splits)
    have "store_run cr drv (sv_store sv, d) (st, d')"
      by (rule converse_rtranclp_into_rtranclp [OF store_step.connects run_FlushQueue [OF f]])
    from relay_inv_store [OF assms(2,3) this ok] sv' show ?thesis by simp
  qed
qed

lemma handleAuthedFrame_inv:
  assumes "handleAuthedFrame cr drv env (sv, d) u c data = (acts, sv', d')" "relay_inv cr drv si sv d" "site_ok si"
    and "valid_utf8 u"
  shows "relay_inv cr drv si sv' d'"
proof -
  have ok: "relay_ok sv'"
    using handleAuthedFrame_ok [of sv cr drv env d u c data] assms(1,2) by (simp add: relay_inv_def)
  obtain err tp where h: "unmarshalHeader data = (err, tp)" by (cases "unmarshalHeader data")
  consider (cert) "\<not> err \<and> tp = ''request_sender_cert''"
    | (reg) b e where "\<not> (\<not> err \<and> tp = ''request_sender_cert'')" "tp = ''register_prekeys''"
        "unmarshalBundleMsg data = (e, b)"
    | (route) "\<not> (\<not> err \<and> tp = ''request_sender_cert'')" "tp \<noteq> ''register_prekeys''"
    by (metis surj_pair)
  then show ?thesis
  proof cases
    case cert
    with assms(1) h have "sv_store sv' = sv_store sv" "sv_prekeys sv' = sv_prekeys sv" "sv_sealedCA sv' = sv_sealedCA sv" "d' = d"
      by (auto simp: handleAuthedFrame_def issueSenderCert_def Let_def split: prod.splits bool.splits option.splits)
    with relay_inv_rest [OF assms(2) ok] show ?thesis by simp
  next
    case (reg b e)
    show ?thesis
    proof (cases e)
      case True
      with assms(1,2) reg h show ?thesis by (simp add: handleAuthedFrame_def)
    next
      case False
      with assms(1) reg h obtain r ps where g: "registerBundle cr (fr_persist env) (sv_prekeys sv, d) u b = (r, ps, d')"
        and sv': "sv' = sv\<lparr>sv_prekeys := ps\<rparr>"
        by (auto simp: handleAuthedFrame_def split: prod.splits)
      have "prekey_step cr (sv_prekeys sv, d) (ps, d')"
        using g assms(4) unfolding prekey_step_def
        by (intro exI [of _ "OpRegister u b"] exI [of _ "fr_persist env"] exI [of _ "[]"])
          (simp add: ps_exec_def op_utf8_def)
      from relay_inv_prekeys [OF assms(2,3) this ok] sv' show ?thesis by simp
    qed
  next
    case route
    with assms(1) h obtain r st where g: "Route cr drv (fr_now env) (fr_deliver env) (sv_router sv) (sv_store sv, d) u data
        = (acts, r, st, d')" and sv': "sv' = sv\<lparr>sv_router := r, sv_store := st\<rparr>"
      by (auto simp: handleAuthedFrame_def split: prod.splits)
    from relay_inv_store [OF assms(2,3) run_Route [OF g] ok] sv' show ?thesis by simp
  qed
qed

lemma handlePrekeysGet_inv:
  assumes "handlePrekeysGet cr now env (sv, d) r = (resp, sv', d')" "relay_inv cr drv si sv d" "site_ok si"
  shows "relay_inv cr drv si sv' d'"
proof -
  let ?u = "trimPrefix (rq_path r) ''/prekeys/''"
  have ok: "relay_ok sv'"
    using handlePrekeysGet_ok [of sv cr now env d r] assms(1,2) by (simp add: relay_inv_def)
  obtain b lim where a: "rateLimiter_allow (sv_prekeyLimiter sv) ?u now = (b, lim)"
    by (cases "rateLimiter_allow (sv_prekeyLimiter sv) ?u now")
  obtain resp' ps d1 where g: "getBundleWithOTPK cr env (sv_prekeys sv, d) ?u b = (resp', ps, d1)"
    by (cases "getBundleWithOTPK cr env (sv_prekeys sv, d) ?u b") auto
  then have "prekey_step cr (sv_prekeys sv, d) (ps, d1)"
    unfolding prekey_step_def
    by (intro exI [of _ "OpGet ?u b"] exI [of _ env]) (simp add: ps_exec_def op_utf8_def)
  note step = relay_inv_prekeys [OF assms(2,3) this ok]
  consider "sv' = sv" "d' = d" | "sv' = sv\<lparr>sv_prekeyLimiter := lim, sv_prekeys := ps\<rparr>" "d' = d1"
    using assms(1) a g by (auto simp: handlePrekeysGet_def Let_def split: if_splits option.splits)
  then show ?thesis using assms(2) step by cases simp_all
qed

lemma handleFederationDeliver_inv:
  assumes "handleFederationDeliver cr drv env (sv, d) r = (resp, acts, sv', d')" "relay_inv cr drv si sv d" "site_ok si"
  shows "relay_inv cr drv si sv' d'"
proof -
  have ok: "relay_ok sv'"
    using handleFederationDeliver_ok [of sv cr drv env d r] assms(1,2) by (simp add: relay_inv_def)
  have "store_run cr drv (sv_store sv, d) (sv_store sv', d')"
    using assms(1) by (auto simp: handleFederationDeliver_def Let_def split: if_splits prod.splits dest: run_deliver)
  note r = relay_inv_store [OF assms(2,3) this ok]
  note f = federation_frame(1) [OF assms(1)]
  have "sv_prekeys sv' = sv_prekeys sv" "sv_sealedCA sv' = sv_sealedCA sv"
    by (subst f, simp)+
  with r show ?thesis by simp
qed

lemma serveHTTP_inv:
  assumes "serveHTTP cr drv env (sv, d) r = (res, sv', d')" "relay_inv cr drv si sv d" "site_ok si"
  shows "relay_inv cr drv si sv' d'"
  using assms handlePrekeysGet_inv [of cr "he_now env" "he_persist env" sv d "request.truncate r"]
    handleFederationDeliver_inv [of cr drv "he_deliver env" sv d "request.truncate r"]
    openConn_inv [of cr drv "hw_auth (he_ws env)" "hw_flush (he_ws env)" sv d "hw_conn (he_ws env)" "hw_addr (he_ws env)"]
  by (auto simp: serveHTTP_def handleWS_def Let_def split: muxResult.splits endpoint.splits prod.splits if_splits)

lemma serveHTTP_user:
  assumes "serveHTTP cr drv env (sv, d) r = (Upgraded (Some u) acts, sv', d')"
  shows "valid_utf8 u"
  using assms openConn_utf8
  by (auto simp: serveHTTP_def handleWS_def Let_def split: muxResult.splits endpoint.splits prod.splits if_splits)

lemma store_only_inv:
  assumes "store_step cr drv (sv_store sv, d) (st, d')" "relay_inv cr drv si sv d" "site_ok si"
  shows "relay_inv cr drv si (sv\<lparr>sv_store := st\<rparr>) d'"
  using relay_inv_store [OF assms(2,3) r_into_rtranclp [of "store_step cr drv", OF assms(1)], of "sv\<lparr>sv_store := st\<rparr>"]
    store_step_wf [OF assms(1)] assms(2) by (simp add: relay_inv_def relay_ok_def)

section \<open>Starting on existing files\<close>

text \<open>
  Nothing fails during a start; and the weaker assumption that no read reports a missing
  file that is there.
\<close>

definition clean_start :: "storeEnv \<Rightarrow> prekeyEnv \<Rightarrow> caEnv \<Rightarrow> bool" where
  "clean_start senv penv cenv \<longleftrightarrow> se_mkdir senv = None \<and> ke_read (se_key senv) = None
     \<and> se_open senv = None \<and> se_conn senv = None \<and> se_read senv = None
     \<and> ke_mkdirs penv = None \<and> ke_read (ke_key penv) = None \<and> ke_load penv = None
     \<and> ce_read cenv = None"

definition honest_start :: "storeEnv \<Rightarrow> prekeyEnv \<Rightarrow> caEnv \<Rightarrow> bool" where
  "honest_start senv penv cenv \<longleftrightarrow> honest senv \<and> honest_load penv \<and> ce_read cenv \<noteq> Some ErrNotExist"

lemma clean_honest: "clean_start senv penv cenv \<Longrightarrow> honest_start senv penv cenv"
  by (simp add: clean_start_def honest_start_def honest_def honest_load_def)

lemma NewStore_saved:
  assumes "gcm_correct cr" "driver_correct drv" "honest env" "saved cr drv path key d"
  obtains s where "life_inv cr drv path (s, d)" "st_key s = key"
    "NewStore cr drv env d path ttl = (Inr s, d) \<or>
     (\<exists>e. NewStore cr drv env d path ttl = (Inl e, d)) \<and> \<not> (se_mkdir env = None \<and> ke_read (se_key env) = None
       \<and> se_open env = None \<and> se_conn env = None \<and> se_read env = None)"
proof -
  from assms(4) obtain f g s0 where k: "d (path @ keyFileSuffix) = Some f" "fdata f = key"
    and q: "d path = Some g" "store_wf s0" "st_key s0 = key" "store_image cr drv s0 (fdata g)"
    by (auto simp: saved_def)
  let ?s0 = "\<lparr>st_clients = [], st_db = sqlCreate, st_queuePath = path,
       st_key = key, st_ttl = seconds ttl, st_stopped = False\<rparr>"
  have len: "length key = 32" using q(2,3) by (simp add: store_wf_def)
  have lk: "loadOrCreateKey (se_key env) d (path @ keyFileSuffix)
      = (case ke_read (se_key env) of None \<Rightarrow> Inr key | Some e \<Rightarrow> Inl e, d)"
    using key_file_loads [of d "path @ keyFileSuffix" f key "se_key env"] k len assms(3) by (simp add: honest_def)
  have ld: "store_loadFromDisk cr drv env ?s0 d
      = (case se_read env of None \<Rightarrow> (Inr (?s0\<lparr>st_db := st_db s0\<rparr>), d) | Some e \<Rightarrow> (Inl e, d))"
  proof (cases "se_read env")
    case None
    then show ?thesis using q by (simp add: load_image [OF assms(1,2) q(4) _ refl])
  next
    case (Some e)
    with assms(3) show ?thesis by (auto simp: store_loadFromDisk_def readFile_def honest_def)
  qed
  show ?thesis
  proof (rule that)
    show "life_inv cr drv path (?s0\<lparr>st_db := st_db s0\<rparr>, d)" using q assms(4) by (simp add: life_inv_def store_wf_def)
    show "st_key (?s0\<lparr>st_db := st_db s0\<rparr>) = key" by simp
    show "NewStore cr drv env d path ttl = (Inr (?s0\<lparr>st_db := st_db s0\<rparr>), d) \<or>
      (\<exists>e. NewStore cr drv env d path ttl = (Inl e, d)) \<and> \<not> (se_mkdir env = None \<and> ke_read (se_key env) = None
       \<and> se_open env = None \<and> se_conn env = None \<and> se_read env = None)"
      using ld by (auto simp: NewStore_def lk split: option.splits)
  qed
qed

lemma NewPrekeyStore_saved:
  assumes "gcm_correct cr" "honest_load env" "pk_saved cr path key d" "length key = 32"
  obtains ps where "pk_inv cr path (ps, d)" "ps_key ps = key"
    "NewPrekeyStore cr env d path = (Inr ps, d) \<or>
     (\<exists>e. NewPrekeyStore cr env d path = (Inl e, d))
       \<and> \<not> (ke_mkdirs env = None \<and> ke_read (ke_key env) = None \<and> ke_load env = None)"
proof -
  from assms(3) obtain f where k: "d (path @ keyFileSuffix) = Some f" "fdata f = key" by (auto simp: pk_saved_def)
  let ?ps0 = "\<lparr>ps_bundles = [], ps_storePath = path, ps_key = key\<rparr>"
  have lk: "loadOrCreateKey (ke_key env) d (path @ keyFileSuffix)
      = (case ke_read (ke_key env) of None \<Rightarrow> Inr key | Some e \<Rightarrow> Inl e, d)"
    using key_file_loads [of d "path @ keyFileSuffix" f key "ke_key env"] k assms(2,4) by (simp add: honest_load_def)
  have "\<exists>m. prekey_loadFromDisk cr env ?ps0 d
      = (case ke_load env of None \<Rightarrow> Inr (?ps0\<lparr>ps_bundles := m\<rparr>) | Some e \<Rightarrow> Inl e)
     \<and> pk_inv cr path (?ps0\<lparr>ps_bundles := m\<rparr>, d)"
  proof (cases "d path")
    case None
    with assms show ?thesis
      by (intro exI [of _ "[]"])
        (auto simp: prekey_loadFromDisk_def readFile_def honest_load_def pk_inv_def ps_wf_def split: option.split)
  next
    case (Some g)
    with assms(3) obtain ps0 where 0: "ps_wf ps0" "ps_key ps0 = key" "prekey_image cr ps0 (fdata g)"
      by (auto simp: pk_saved_def)
    obtain m where m: "prekey_loadFromDisk cr (env\<lparr>ke_load := None\<rparr>) ?ps0 d = Inr (?ps0\<lparr>ps_bundles := m\<rparr>)"
      "map_of m = map_of (ps_bundles ps0)" "gm_wf m"
      using load_prekeys [OF assms(1) 0(1,3), of d ?ps0 "env\<lparr>ke_load := None\<rparr>"] Some 0(2) by auto
    have "pk_inv cr path (?ps0\<lparr>ps_bundles := m\<rparr>, d)"
      using m 0 assms(3) by (simp add: pk_inv_def ps_wf_def)
    moreover have "prekey_loadFromDisk cr env ?ps0 d
      = (case ke_load env of None \<Rightarrow> Inr (?ps0\<lparr>ps_bundles := m\<rparr>) | Some e \<Rightarrow> Inl e)"
      using m(1) assms(2) by (cases "ke_load env") (simp_all add: prekey_loadFromDisk_def readFile_def honest_load_def)
    ultimately show ?thesis by blast
  qed
  then obtain m where ld: "prekey_loadFromDisk cr env ?ps0 d
      = (case ke_load env of None \<Rightarrow> Inr (?ps0\<lparr>ps_bundles := m\<rparr>) | Some e \<Rightarrow> Inl e)"
    and inv: "pk_inv cr path (?ps0\<lparr>ps_bundles := m\<rparr>, d)" by blast
  show ?thesis
  proof (rule that [OF inv])
    show "NewPrekeyStore cr env d path = (Inr (?ps0\<lparr>ps_bundles := m\<rparr>), d) \<or>
     (\<exists>e. NewPrekeyStore cr env d path = (Inl e, d))
       \<and> \<not> (ke_mkdirs env = None \<and> ke_read (ke_key env) = None \<and> ke_load env = None)"
      using ld by (auto simp: NewPrekeyStore_def lk split: option.splits)
  qed simp
qed

lemma NewSealedCA_saved:
  assumes "d path = Some f" "genuine cr (fdata f)" "ce_read env \<noteq> Some ErrNotExist"
  obtains ca where "ca_priv ca = fdata f" "ca_pub ca = keyPublic (fdata f)"
    "NewSealedCA cr env d path = (Inr ca, d) \<or>
     (\<exists>e. NewSealedCA cr env d path = (Inl e, d)) \<and> ce_read env \<noteq> None"
proof -
  let ?ca = "withRotation cr (readPrevKey (ce_prev env) d path)
      \<lparr>ca_priv = fdata f, ca_pub = keyPublic (fdata f), ca_prevPub = None, ca_rotationSig = []\<rparr>"
  show ?thesis
  proof (rule that [of ?ca])
    show "NewSealedCA cr env d path = (Inr ?ca, d) \<or> (\<exists>e. NewSealedCA cr env d path = (Inl e, d)) \<and> ce_read env \<noteq> None"
      using assms by (cases "ce_read env") (simp_all add: NewSealedCA_def readFile_def privateKeySize_def genuine_def)
  qed simp_all
qed

lemma New_saved:
  assumes "gcm_correct cr" "driver_correct drv" "honest_start senv penv cenv" "disk_ok cr drv si d" "site_ok si"
    and cfg: "OfflineQueuePath cfg = si_queue si" "PrekeyStorePath cfg = si_prekeys si" "SealedCAPath cfg = si_ca si"
  shows "(\<exists>sv. New cr drv senv penv cenv d cfg = (Inr sv, d) \<and> relay_inv cr drv si sv d \<and> sv_cfg sv = cfg)
    \<or> (\<exists>e. New cr drv senv penv cenv d cfg = (Inl e, d)) \<and> \<not> clean_start senv penv cenv"
proof -
  from assms(4) obtain f where f: "d (si_ca si) = Some f" "fdata f = si_caKey si" "genuine cr (fdata f)"
    by (auto simp: disk_ok_def)
  from assms(3,4) have h: "honest senv" "honest_load penv" "ce_read cenv \<noteq> Some ErrNotExist"
    "saved cr drv (si_queue si) (si_queueKey si) d" "pk_saved cr (si_prekeys si) (si_prekeyKey si) d"
    "length (si_prekeyKey si) = 32" by (auto simp: honest_start_def disk_ok_def)
  obtain st where st: "life_inv cr drv (si_queue si) (st, d)" "st_key st = si_queueKey si"
    "NewStore cr drv senv d (si_queue si) (MessageTTLSeconds cfg) = (Inr st, d) \<or>
     (\<exists>e. NewStore cr drv senv d (si_queue si) (MessageTTLSeconds cfg) = (Inl e, d)) \<and> \<not> clean_start senv penv cenv"
    by (rule NewStore_saved [OF assms(1,2) h(1,4), of "MessageTTLSeconds cfg"]) (auto simp: clean_start_def)
  obtain ps where ps: "pk_inv cr (si_prekeys si) (ps, d)" "ps_key ps = si_prekeyKey si"
    "NewPrekeyStore cr penv d (si_prekeys si) = (Inr ps, d) \<or>
     (\<exists>e. NewPrekeyStore cr penv d (si_prekeys si) = (Inl e, d)) \<and> \<not> clean_start senv penv cenv"
    by (rule NewPrekeyStore_saved [OF assms(1) h(2,5,6)]) (auto simp: clean_start_def)
  obtain ca where ca: "ca_priv ca = fdata f" "ca_pub ca = keyPublic (fdata f)"
    "NewSealedCA cr cenv d (si_ca si) = (Inr ca, d) \<or>
     (\<exists>e. NewSealedCA cr cenv d (si_ca si) = (Inl e, d)) \<and> \<not> clean_start senv penv cenv"
    by (rule NewSealedCA_saved [of d "si_ca si" f cr cenv]) (use f(1,3) h(3) in \<open>auto simp: clean_start_def\<close>)
  let ?sv = "\<lparr>sv_cfg = cfg, sv_store = st, sv_prekeys = ps,
      sv_router = NewRouter (MaxMessageSize cfg) (RateLimitPerMin cfg) (RelayID cfg),
      sv_auth = newAuthLimiter, sv_sealedCA = ca, sv_certLimiter = newRateLimiter certRequestsPerMin,
      sv_prekeyLimiter = newRateLimiter prekeyFetchesPerMinPerTarget\<rparr>"
  have "store_wf st" "entries_ok (ps_bundles ps)"
    using st(1) ps(1) by (auto simp: life_inv_def pk_inv_def ps_wf_def entries_ok_def entry_ok_def)
  then have "relay_inv cr drv si ?sv d"
    using st(1,2) ps(1,2) ca(1,2) f assms(5)
    by (simp add: relay_inv_def relay_ok_def queue_ok_def prekeys_ok_def ca_ok_def site_ok_def newRateLimiter_def NewRouter_def)
  with st(3) ps(3) ca(3) show ?thesis
    by (elim disjE conjE exE) (simp_all add: New_def cfg)
qed

section \<open>The first start\<close>

lemma loadOrCreateKey_untouched: "loadOrCreateKey env d path = (r, d') \<Longrightarrow> untouched {path} d d'"
  using loadOrCreateKey_frame [of _ path env d] by (auto simp: untouched_def)

lemma store_loadFromDisk_untouched:
  assumes "store_loadFromDisk cr drv env s d = (r, d')"
  shows "untouched {st_queuePath s} d d'"
proof -
  have "untouched {st_queuePath s} d d1" if "initSchema cr drv env s d = (r1, d1)" for r1 d1
    using that store_persist_untouched [of "s\<lparr>st_db := sqlCreate\<rparr>" d cr drv "se_persist env"]
    by (auto simp: initSchema_def Let_def split: option.splits prod.splits)
  with assms show ?thesis
    by (auto simp: store_loadFromDisk_def split: sum.splits if_splits option.splits)
qed

lemma NewStore_untouched:
  assumes "NewStore cr drv env d path ttl = (Inr s, d')"
  shows "untouched (queue_files path) d d'"
  using assms
proof (cases rule: NewStore_cases)
  case (1 key d1)
  from loadOrCreateKey_untouched [OF 1(1)] store_loadFromDisk_untouched [OF 1(2)] show ?thesis
    by (auto simp: queue_files_def untouched_def)
qed

lemma NewPrekeyStore_untouched:
  "NewPrekeyStore cr env d path = (Inr ps, d') \<Longrightarrow> untouched (queue_files path) d d'"
  by (auto simp: NewPrekeyStore_def queue_files_def split: option.splits prod.splits sum.splits
      dest!: loadOrCreateKey_untouched intro: untouched_more)

lemma NewSealedCA_untouched: "NewSealedCA cr env d path = (Inr ca, d') \<Longrightarrow> untouched {path} d d'"
  by (erule NewSealedCA_cases) (auto simp: untouched_def writeFile_def Let_def split: writeOutcome.splits)

lemma site_of_ok: "paths_ok (sv_cfg sv) \<Longrightarrow> site_ok (site_of sv)"
  by (auto simp: paths_ok_def site_ok_def site_of_def queue_files_def)

lemma New_first:
  assumes "gcm_correct cr" "ed25519_correct cr" "paths_ok cfg" "New cr drv senv penv cenv Map.empty cfg = (Inr sv, d)"
  shows "relay_inv cr drv (site_of sv) sv d \<and> sv_cfg sv = cfg"
proof -
  let ?Q = "OfflineQueuePath cfg" and ?P = "PrekeyStorePath cfg" and ?C = "SealedCAPath cfg"
  obtain st d1 ps d2 ca where
    st: "NewStore cr drv senv Map.empty ?Q (MessageTTLSeconds cfg) = (Inr st, d1)"
    and ps: "NewPrekeyStore cr penv d1 ?P = (Inr ps, d2)"
    and ca: "NewSealedCA cr cenv d2 ?C = (Inr ca, d)"
    and sv: "sv = \<lparr>sv_cfg = cfg, sv_store = st, sv_prekeys = ps,
      sv_router = NewRouter (MaxMessageSize cfg) (RateLimitPerMin cfg) (RelayID cfg),
      sv_auth = newAuthLimiter, sv_sealedCA = ca, sv_certLimiter = newRateLimiter certRequestsPerMin,
      sv_prekeyLimiter = newRateLimiter prekeyFetchesPerMinPerTarget\<rparr>"
    using assms(4) by (auto simp: New_def split: prod.splits sum.splits)
  have paths: "\<not> temp_file ?Q" "\<not> temp_file ?P" "\<not> temp_file ?C" "queue_files ?Q \<inter> queue_files ?P = {}"
    "?C \<notin> queue_files ?Q" "?C \<notin> queue_files ?P"
    using assms(3) by (auto simp: paths_ok_def queue_files_def)
  note u = NewStore_untouched [OF st] NewPrekeyStore_untouched [OF ps] NewSealedCA_untouched [OF ca]
  have none: "d1 p = None" if "p \<notin> queue_files ?Q" "\<not> temp_file p" for p using u(1) that by (simp add: untouched_def)
  have "d1 ?P = None" "d1 (?P @ keyFileSuffix) = None"
    using none key_not_temp paths by (auto simp: queue_files_def)
  then have pk: "pk_inv cr ?P (ps, d2)" by (intro NewPrekeyStore_inv [OF assms(1) ps]) simp
  have "d2 ?C = None" using u(2) none paths by (simp add: untouched_def)
  then have "genuine cr (ca_priv ca)" "ca_pub ca = keyPublic (ca_priv ca)"
    using NewSealedCA_genuine [OF ca assms(2)] by (simp_all add: key_file_ok_def)
  then have c: "ca_ok cr ?C (ca_priv ca) ca d" using NewSealedCA_file [OF ca] paths by (simp add: ca_ok_def)
  have "queue_ok cr drv ?Q (st_key st) st d1" using NewStore_first [OF st] paths by (simp add: queue_ok_def)
  then have "queue_ok cr drv ?Q (st_key st) st d2" by (rule qo.other_keeps [OF _ u(2)]) (use paths in auto)
  then have q: "queue_ok cr drv ?Q (st_key st) st d" by (rule qo.other_keeps [OF _ u(3)]) (use paths in auto)
  have "prekeys_ok cr ?P (ps_key ps) ps d2" using pk paths by (simp add: prekeys_ok_def)
  then have p: "prekeys_ok cr ?P (ps_key ps) ps d" by (rule po.other_keeps [OF _ u(3)]) (use paths in auto)
  have "relay_ok sv"
    using q p by (auto simp: relay_ok_def sv queue_ok_def prekeys_ok_def life_inv_def pk_inv_def ps_wf_def
        entries_ok_def entry_ok_def newRateLimiter_def NewRouter_def)
  with q p c show ?thesis by (simp add: relay_inv_def site_of_def sv)
qed

text \<open>A first start that succeeds leaves no other file behind.\<close>

lemma replaceFile_clean:
  assumes "replaceFile env disk path pre sealed = (None, disk')" "p \<noteq> path" "disk p = None"
  shows "disk' p = None"
  using assms by (auto simp: replaceFile_def renameFile_def Let_def split: option.splits if_splits)

lemma NewStore_files:
  assumes "NewStore cr drv env Map.empty path ttl = (Inr s, d)" "p \<noteq> path" "p \<noteq> path @ keyFileSuffix"
  shows "d p = None"
  using assms(1)
proof (cases rule: NewStore_cases)
  case (1 key d1)
  have none: "d1 p = None" "d1 path = None"
    using loadOrCreateKey_frame [of _ "path @ keyFileSuffix" "se_key env" Map.empty] 1(1) assms(3) by force+
  with 1(2) have "initSchema cr drv env \<lparr>st_clients = [], st_db = sqlCreate, st_queuePath = path,
       st_key = key, st_ttl = seconds ttl, st_stopped = False\<rparr> d1 = (Inr s, d)"
    by (auto simp: store_loadFromDisk_def readFile_def split: option.splits if_splits)
  then show ?thesis
    using replaceFile_clean [of _ d1 path _ _ d p] assms(2) none(1)
    by (auto simp: initSchema_def store_persistLocked_def Let_def
        split: option.splits prod.splits sum.splits if_splits)
qed

end
