(* ===== verification/Http_Props.thy ===== *)
theory Http_Props
  imports Http_Mux File_Owners
begin

text \<open>
  Requests end to end: through the routing of theory \<open>Http_Mux\<close> to the handlers of theory
  \<open>Server\<close>, with what an unauthenticated request can and cannot change.
\<close>

section \<open>Publishing and fetching prekeys\<close>

text \<open>The frame with which a client publishes its bundle, and the request for it.\<close>

definition upload :: "PrekeyBundle \<Rightarrow> bytes" where
  "upload b = jprint (JObj [(''type'', JStr ''register_prekeys''), (''bundle'', jsonBundle b)])"

text \<open>
  The name is escaped the way \<^verbatim>\<open>url.PathEscape\<close> does it, and the server sees both forms.
\<close>

definition unreserved :: "char \<Rightarrow> bool" where
  "unreserved c \<longleftrightarrow> (CHR ''a'' \<le> c \<and> c \<le> CHR ''z'') \<or> (CHR ''A'' \<le> c \<and> c \<le> CHR ''Z'')
     \<or> (CHR ''0'' \<le> c \<and> c \<le> CHR ''9'') \<or> c \<in> set ''-_.~$&+=:@''"

definition hexUpper :: "nat \<Rightarrow> char" where
  "hexUpper n = ''0123456789ABCDEF'' ! n"

fun urlEscape :: "string \<Rightarrow> string" where
  "urlEscape [] = []"
| "urlEscape (c # cs) =
     (if unreserved c then [c] else [CHR ''%'', hexUpper (code c div 16), hexUpper (code c mod 16)]) @ urlEscape cs"

definition fetch :: "string \<Rightarrow> httpInput" where
  "fetch u = \<lparr>rq_method = ''GET'', rq_path = ''/prekeys/'' @ u, rq_relayID = [], rq_body = [],
     hi_uri = ''/prekeys/'' @ urlEscape u, hi_escapedPath = ''/prekeys/'' @ urlEscape u\<rparr>"

definition urlSafe :: "string \<Rightarrow> bool" where
  "urlSafe u \<longleftrightarrow> u \<noteq> [] \<and> u \<noteq> ''.'' \<and> u \<noteq> ''..'' \<and> \<not> containsAny u ''/?#''"

lemma upload_keys_utf8 [simp]: "valid_utf8 ''type''" "valid_utf8 ''register_prekeys''" "valid_utf8 ''bundle''"
  by (rule valid_utf8_key, simp add: code_def)+

lemma header_skips_bundle: "fieldOf [''type''] ''bundle'' = None" "fieldOf [''bundle''] ''type'' = None"
  by code_simp+

lemma upload_fits: "bundle_utf8 b \<Longrightarrow> jfits maxNestingDepth (JObj [(''type'', JStr ''register_prekeys''), (''bundle'', jsonBundle b)])"
  using jsonBundle_fits [of b] by (simp add: maxNestingDepth_def numeral_eq_Suc)

lemma upload_decodes:
  assumes "bundle_utf8 b"
  shows "unmarshalHeader (upload b) = (False, ''register_prekeys'')" "unmarshalBundleMsg (upload b) = (False, asDecoded b)"
proof -
  note f = upload_fits [OF assms]
  show "unmarshalHeader (upload b) = (False, ''register_prekeys'')"
    unfolding unmarshalHeader_def upload_def unmarshal_jprint [OF f]
    by (simp add: decode_simps setHeader_def header_skips_bundle)
  show "unmarshalBundleMsg (upload b) = (False, asDecoded b)"
    unfolding unmarshalBundleMsg_def upload_def unmarshal_jprint [OF f]
    by (simp add: decStruct_Obj setBundleMsg_def header_skips_bundle fieldOf_exact decBundle_json)
qed

lemma splitOn_none: "c \<notin> set q \<Longrightarrow> splitOn c q = [q]"
  by (induction q) auto

lemma prekeys_clean:
  assumes "urlSafe u"
  shows "muxCleanPath (''/prekeys/'' @ u) = ''/prekeys/'' @ u" "splitOn CHR ''/'' (tl (''/prekeys/'' @ u)) = [''prekeys'', u]"
proof -
  have u: "CHR ''/'' \<notin> set u" "u \<noteq> []" "u \<noteq> ''.''" "u \<noteq> ''..''"
    using assms by (auto simp: urlSafe_def containsAny_def)
  have s: "splitOn CHR ''/'' u = [u]" using u(1) by (rule splitOn_none)
  then show "splitOn CHR ''/'' (tl (''/prekeys/'' @ u)) = [''prekeys'', u]" by simp
  have "splitOn CHR ''/'' (''/prekeys/'' @ u) = [[], ''prekeys'', u]" using s by simp
  then have "cleanPath (''/prekeys/'' @ u) = ''/prekeys/'' @ u"
    using u by (simp add: cleanPath_def cleanStep_def Let_def)
  moreover have "last (''/prekeys/'' @ u) \<noteq> CHR ''/''" using u(1,2) last_in_set by fastforce
  ultimately show "muxCleanPath (''/prekeys/'' @ u) = ''/prekeys/'' @ u"
    by (simp add: muxCleanPath_def Let_def)
qed

text \<open>The escaped path decodes to the path, and has no other slashes than the path.\<close>

lemma hexUpper_cases: "n < 16 \<Longrightarrow> hex_val (hexUpper n) = Some n \<and> hexUpper n \<notin> set ''%/?#.''"
proof -
  have "\<forall>n \<in> set [0..<16]. hex_val (hexUpper n) = Some n \<and> hexUpper n \<notin> set ''%/?#.''" by code_simp
  then show "n < 16 \<Longrightarrow> hex_val (hexUpper n) = Some n \<and> hexUpper n \<notin> set ''%/?#.''" by simp
qed

lemma unreserved_plain: "unreserved c \<Longrightarrow> c \<notin> set ''%/?#''"
  by (auto simp: unreserved_def less_eq_char_def)

lemma escape_decodes: "percentDecode (urlEscape u) = Some u"
proof (induction u)
  case (Cons c cs)
  have "code c div 16 < 16" "code c mod 16 < 16" by (simp_all add: code_def less_mult_imp_div_less)
  with hexUpper_cases unreserved_plain [of c] Cons show ?case by (auto simp: mult.commute)
qed simp

lemma escape_chars: "x \<in> set (urlEscape u) \<Longrightarrow> x \<notin> set ''/?#''"
proof (induction u)
  case (Cons c cs)
  have "code c div 16 < 16" "code c mod 16 < 16" by (simp_all add: code_def less_mult_imp_div_less)
  with hexUpper_cases [of "code c div 16"] hexUpper_cases [of "code c mod 16"] unreserved_plain [of c] Cons show ?case
    by (auto split: if_splits)
qed simp

lemma escape_dots: "urlEscape u = ''.'' \<Longrightarrow> u = ''.''" "urlEscape u = ''..'' \<Longrightarrow> u = ''..''" "urlEscape u = [] \<Longrightarrow> u = []"
  using escape_decodes [of u] by auto

lemma escape_safe: "urlSafe u \<Longrightarrow> urlSafe (urlEscape u)"
  using escape_dots [of u] escape_chars [of _ u] by (auto simp: urlSafe_def containsAny_def)

lemma fetch_decodes: "pathUnescape (hi_escapedPath (fetch u)) = rq_path (fetch u)"
  using escape_decodes [of u] by (simp add: fetch_def pathUnescape_def)

lemma fetch_routed: "urlSafe u \<Longrightarrow> muxServe (hi_uri (fetch u)) (rq_method (fetch u)) (hi_escapedPath (fetch u)) = Dispatch Prekeys"
  using prekeys_clean [OF escape_safe, of u] by (simp add: fetch_def muxServe_def route_table routeTable_def pathUnescape_def)

lemma upload_registers:
  assumes "bundle_ok b" "u \<noteq> []" "handleAuthedFrame cr drv env (sv, d) u c (upload b) = (acts, sv1, d1)"
  obtains ps where "sv1 = sv\<lparr>sv_prekeys := ps\<rparr>" "map_of (ps_bundles ps) u = Some (copyBundle b)" "acts = []"
proof -
  obtain e ps where reg: "registerBundle cr (fr_persist env) (sv_prekeys sv, d) u (asDecoded b) = (e, ps, d1)"
    and sv1: "sv1 = sv\<lparr>sv_prekeys := ps\<rparr>" "acts = []"
    using assms(3) upload_decodes [OF bundle_ok_utf8 [OF assms(1)]]
    by (auto simp: handleAuthedFrame_def split: prod.splits)
  have "validatePrekeyBundle (asDecoded b) = None" using assms(1) by (simp add: validate_iff)
  with reg assms(2) have "map_of (ps_bundles ps) u = Some (copyBundle b)"
    by (auto simp: registerBundle_def Let_def split: prod.splits)
  with sv1 that show ?thesis by blast
qed

section \<open>What a request may touch\<close>

lemma store_run_untouched:
  "store_run cr drv w w' \<Longrightarrow> untouched {st_queuePath (fst w)} (snd w) (snd w') \<and> st_queuePath (fst w') = st_queuePath (fst w)"
proof (induction rule: rtranclp_induct)
  case (step w1 w2)
  have "untouched {st_queuePath (fst w2)} (snd w1) (snd w2)" "st_queuePath (fst w2) = st_queuePath (fst w1)"
    using store_step_disk [OF step(2)] store_persist_untouched [of "fst w2" "snd w1" cr drv] by auto
  with step(3) show ?case by (auto intro: untouched_trans)
qed simp

lemma post_untouched:
  assumes "handleFederationDeliver cr drv env (sv, d) r = (resp, acts, sv', d')"
  shows "untouched {st_queuePath (sv_store sv)} d d'"
proof -
  have "untouched {st_queuePath (sv_store sv)} d d''"
    if "deliver cr drv env (sv_router sv) (sv_store sv, d) rid m = (acts', st, d'')" for rid m acts' st d''
    using store_run_untouched [OF run_deliver [OF that]] by simp
  with assms show ?thesis by (auto simp: handleFederationDeliver_def Let_def split: if_splits prod.splits)
qed

lemma get_untouched:
  assumes "handlePrekeysGet cr now env (sv, d) r = (resp, sv', d')"
  shows "untouched {ps_storePath (sv_prekeys sv)} d d'"
proof -
  have "untouched {ps_storePath ps} d d''" if "getBundleWithOTPK cr env (ps, d) u consume = (b, ps', d'')" for ps u consume b ps' d''
    using that prekey_persist_untouched [of "ps\<lparr>ps_bundles := bs\<rparr>" d cr env for bs]
    by (auto simp: getBundleWithOTPK_def Let_def split: option.splits bool.splits list.splits)
  with assms show ?thesis
    by (auto simp: handlePrekeysGet_def Let_def split: if_splits prod.splits option.splits)
qed

text \<open>What a request writes to connections before anybody is authenticated.\<close>

fun harmless :: "wsEnv \<Rightarrow> served \<Rightarrow> bool" where
  "harmless env (Answered resp acts) = (acts = [])"
| "harmless env (Upgraded uid acts) = (uid \<noteq> None \<or> set acts \<subseteq>
     {Sent (hw_conn env) (marshalChallenge (take 32 (au_rand (hw_auth env)))), CloseConn (hw_conn env) 1008})"
| "harmless env res = True"

lemma ws_frame:
  assumes "handleWS cr drv env (sv, d) = (res, sv', d')"
  shows "harmless env res" "(\<exists>u acts. res = Upgraded (Some u) acts) \<or> (sv' = sv\<lparr>sv_auth := sv_auth sv'\<rparr> \<and> d' = d)"
proof -
  obtain uid acts sv1 d1 where o: "openConn cr drv (hw_auth env) (hw_flush env) (sv, d) (hw_conn env) (hw_addr env) = (uid, acts, sv1, d1)"
    by (metis prod_cases4)
  have "harmless env res \<and> ((\<exists>u acts. res = Upgraded (Some u) acts) \<or> (sv' = sv\<lparr>sv_auth := sv_auth sv'\<rparr> \<and> d' = d))"
  proof (cases uid)
    case None
    with failed_auth_is_harmless [of cr drv "hw_auth env" "hw_flush env" sv d "hw_conn env" "hw_addr env"] o assms
    show ?thesis by (auto simp: handleWS_def split: if_splits)
  qed (use o assms in \<open>auto simp: handleWS_def split: if_splits\<close>)
  then show "harmless env res" "(\<exists>u acts. res = Upgraded (Some u) acts) \<or> (sv' = sv\<lparr>sv_auth := sv_auth sv'\<rparr> \<and> d' = d)"
    by blast+
qed

section \<open>Properties\<close>

text \<open>
  C25: Without authentication only three requests can change the relay: a GET that reaches
  the prekey endpoint, which changes nothing but the prekeys, their limiter and their file; a
  POST that reaches the federation endpoint, which changes nothing but the queue, the
  registry and the queue file; and a request for the WebSocket endpoint, which changes
  nothing but the limiter of handshakes unless it authenticates.  (Temporary files are left
  out of account.)  Every other request leaves the server and its files exactly as they were.
  And unless a federation request delivers or a client authenticates, nothing is written to
  any connection but the challenge to the one being opened.
\<close>

theorem public_requests_confined:
  assumes "serveHTTP cr drv env (sv, d) r = (res, sv', d')"
    and "goes = muxServe (hi_uri r) (rq_method r) (hi_escapedPath r)"
    and "isFetch = (goes = Dispatch Prekeys \<and> rq_method r = ''GET'')"
    and "isPost = (goes = Dispatch FederationDeliver \<and> rq_method r = ''POST'')"
    and "\<nexists>u acts. res = Upgraded (Some u) acts"
  shows "(isFetch \<longrightarrow> sv' = sv\<lparr>sv_prekeys := sv_prekeys sv', sv_prekeyLimiter := sv_prekeyLimiter sv'\<rparr>
           \<and> untouched {ps_storePath (sv_prekeys sv)} d d')
    \<and> (isPost \<longrightarrow> sv' = sv\<lparr>sv_store := sv_store sv'\<rparr> \<and> untouched {st_queuePath (sv_store sv)} d d')
    \<and> (goes = Dispatch WS \<longrightarrow> sv' = sv\<lparr>sv_auth := sv_auth sv'\<rparr> \<and> d' = d)
    \<and> (\<not> isFetch \<and> \<not> isPost \<and> goes \<noteq> Dispatch WS \<longrightarrow> sv' = sv \<and> d' = d)
    \<and> (\<not> isPost \<longrightarrow> harmless (he_ws env) res)"
proof (cases goes)
  case (Dispatch e)
  note frames = prekeys_get_frame [of cr "he_now env" "he_persist env" sv d "request.truncate r"]
    get_untouched [of cr "he_now env" "he_persist env" sv d "request.truncate r"]
    federation_frame [of cr drv "he_deliver env" sv d "request.truncate r"]
    post_untouched [of cr drv "he_deliver env" sv d "request.truncate r"] ws_frame [of cr drv "he_ws env" sv d]
  show ?thesis
  proof (cases e)
    case Prekeys
    with Dispatch assms frames(1-3) show ?thesis by (auto simp: serveHTTP_def Let_def request.truncate_def split: prod.splits)
  next
    case FederationDeliver
    with Dispatch assms frames(4-6) show ?thesis by (auto simp: serveHTTP_def Let_def request.truncate_def split: prod.splits)
  next
    case WS
    with Dispatch assms frames(7,8) show ?thesis by (auto simp: serveHTTP_def Let_def)
  qed (use Dispatch assms in \<open>auto simp: serveHTTP_def Let_def\<close>)
qed (use assms in \<open>auto simp: serveHTTP_def Let_def\<close>)

text \<open>
  C22: What an authenticated client publishes over its connection is what the public endpoint
  then serves for that user: the identity key, the signed prekey with its signature and
  id, and the first one-time prekey, as one JSON object, if the user is within its budget.
\<close>

theorem published_bundle_is_served:
  assumes "bundle_ok b" "urlSafe u" "fst (rateLimiter_allow (sv_prekeyLimiter sv) u (he_now env))"
    and "handleAuthedFrame cr drv fenv (sv, d) u c (upload b) = (acts, sv1, d1)"
  shows "acts = [] \<and> fst (serveHTTP cr drv env (sv1, d1) (fetch u)) =
    Answered (jsonReply (jsonResponse \<lparr>pr_IdentityKey = pb_IdentityKey b, pr_SignedPrekey = pb_SignedPrekey b,
       pr_SignedPrekeySig = pb_SignedPrekeySig b, pr_SignedPrekeyID = pb_SignedPrekeyID b,
       pr_OneTimePrekey = (case pb_OneTimePrekeys b of [] \<Rightarrow> None | k # ks \<Rightarrow> Some k)\<rparr>)) []"
proof -
  have u: "u \<noteq> []" "\<not> containsAny u ''/?#''" using assms(2) by (simp_all add: urlSafe_def)
  obtain ps1 where sv1: "sv1 = sv\<lparr>sv_prekeys := ps1\<rparr>" "acts = []" and b: "map_of (ps_bundles ps1) u = Some (copyBundle b)"
    using upload_registers [OF assms(1) u(1) assms(4)] by blast
  obtain l where l: "rateLimiter_allow (sv_prekeyLimiter sv) u (he_now env) = (True, l)"
    using assms(3) by (cases "rateLimiter_allow (sv_prekeyLimiter sv) u (he_now env)") auto
  have "rq_method (request.truncate (fetch u)) = ''GET''" "rq_path (request.truncate (fetch u)) = ''/prekeys/'' @ u"
    by (simp_all add: fetch_def request.truncate_def)
  with fetch_routed [OF assms(2)] sv1 b l u show ?thesis
    by (cases "pb_OneTimePrekeys b")
      (simp_all add: serveHTTP_def handlePrekeysGet_def trimPrefix_def getBundleWithOTPK_def staticResponse_def Let_def)
qed

section \<open>Witnesses\<close>

definition demo_http :: httpEnv where
  "demo_http = \<lparr>he_now = 0, he_persist = demo_save_env, he_deliver = demo_deliver,
     he_ws = \<lparr>hw_active = 0, hw_accept = True, hw_conn = 7, hw_addr = ''1.2.3.4:5'',
       hw_auth = (demo_auth zeroAuthRequest)\<lparr>au_reply := None\<rparr>, hw_flush = demo_flush\<rparr>\<rparr>"

lemma demo_safe: "urlSafe ''bob''"
  by (simp add: urlSafe_def containsAny_def)

text \<open>A client that connects and says nothing.\<close>

definition demo_ws_request :: httpInput where
  "demo_ws_request = \<lparr>rq_method = ''GET'', rq_path = ''/ws'', rq_relayID = [], rq_body = [],
     hi_uri = ''/ws'', hi_escapedPath = ''/ws''\<rparr>"

theorem public_requests_confined_witness:
  "\<exists>acts l. serveHTTP plainCrypto demo_drv demo_http (demo_server, Map.empty) demo_ws_request
     = (Upgraded None acts, demo_server\<lparr>sv_auth := l\<rparr>, Map.empty)
     \<and> set acts \<subseteq> {Sent 7 (marshalChallenge demo_nonce), CloseConn 7 1008}"
proof -
  obtain res sv' d' where r: "serveHTTP plainCrypto demo_drv demo_http (demo_server, Map.empty) demo_ws_request = (res, sv', d')"
    by (metis prod_cases3)
  have "muxServe ''/ws'' ''GET'' ''/ws'' = Dispatch WS" by code_simp
  then have m: "muxServe (hi_uri demo_ws_request) (rq_method demo_ws_request) (hi_escapedPath demo_ws_request) = Dispatch WS"
    "rq_method demo_ws_request = ''GET''" by (simp_all add: demo_ws_request_def)
  have w: "serveHTTP plainCrypto demo_drv demo_http (demo_server, Map.empty) demo_ws_request
      = handleWS plainCrypto demo_drv (he_ws demo_http) (demo_server, Map.empty)" using m by (simp add: serveHTTP_def)
  have "\<exists>acts. res = Upgraded None acts"
    using r unfolding w
    by (auto simp: handleWS_def demo_http_def demo_server_def demo_cfg_def openConn_def Authenticate_def Let_def
        split: prod.splits bool.splits if_splits)
  then obtain acts where res: "res = Upgraded None acts" by blast
  with public_requests_confined [OF r refl refl refl] m(1)
  have "sv' = demo_server\<lparr>sv_auth := sv_auth sv'\<rparr>" "d' = Map.empty" "harmless (he_ws demo_http) res" by simp_all
  then show ?thesis using r res by (auto simp: demo_http_def demo_nonce_def)
qed

theorem published_bundle_is_served_witness:
  "\<exists>body. fst (serveHTTP plainCrypto demo_drv demo_http
      (snd (handleAuthedFrame plainCrypto demo_drv demo_frame (demo_server, Map.empty) ''bob'' 7 (upload demo_bundle))) (fetch ''bob''))
     = Answered (jsonReply body) []"
proof -
  obtain acts sv1 d1 where h: "handleAuthedFrame plainCrypto demo_drv demo_frame (demo_server, Map.empty) ''bob'' 7 (upload demo_bundle)
      = (acts, sv1, d1)" by (metis prod_cases3)
  have "fst (rateLimiter_allow (sv_prekeyLimiter demo_server) ''bob'' (he_now demo_http))"
    by (rule rl.resets) (simp_all add: demo_server_def newRateLimiter_def prekeyFetchesPerMinPerTarget_def
        rateLimiter_hist_def window_of_def)
  from published_bundle_is_served [OF demo_bundle_ok demo_safe this h] h show ?thesis by auto
qed

end
