(* ===== verification/Relay_Life.thy ===== *)
theory Relay_Life
  imports Relay_Files Http_Props
begin

text \<open>
  Lives of the whole relay: a first start on an empty disk, then any interleaving of
  connections, frames of authenticated connections, HTTP requests, purges and shutdowns
  under any faults, and crashes and restarts, failed ones included.  A crash may come at
  any moment: in the middle of a save it leaves what a save whose remaining calls fail
  leaves, and otherwise it may only leave or remove temporary files.

  Shown: a relay that came up once comes up again whenever the machine lets it, with all
  its invariants and the same keys, and every certificate it ever sends verifies under
  the key that was served at its first start.
\<close>

section \<open>Lives\<close>

datatype process = Running Server "(conn \<times> string) list" | Exited

text \<open>A running process with its authenticated sessions, or none; and the disk.\<close>

inductive relay_next :: "crypto \<Rightarrow> sqliteDriver \<Rightarrow> Config \<Rightarrow> process \<times> fs \<Rightarrow> process \<times> fs \<Rightarrow> bool"
  for cr drv cfg where
  opens: "openConn cr drv aenv fenv (sv, d) c addr = (res, acts, sv', d') \<Longrightarrow>
    relay_next cr drv cfg (Running sv ss, d)
      (Running sv' (case res of None \<Rightarrow> ss | Some u \<Rightarrow> (c, u) # ss), d')"
| frame: "(c, u) \<in> set ss \<Longrightarrow> handleAuthedFrame cr drv env (sv, d) u c data = (acts, sv', d') \<Longrightarrow>
    relay_next cr drv cfg (Running sv ss, d) (Running sv' ss, d')"
| closes: "(c, u) \<in> set ss \<Longrightarrow> closeConn (sv, d) u c = (sv', d') \<Longrightarrow>
    relay_next cr drv cfg (Running sv ss, d) (Running sv' (remove1 (c, u) ss), d')"
| request: "serveHTTP cr drv henv (sv, d) r = (answer, sv', d') \<Longrightarrow>
    relay_next cr drv cfg (Running sv ss, d)
      (Running sv' (case answer of Upgraded (Some u) acts \<Rightarrow> (hw_conn (he_ws henv), u) # ss | _ \<Rightarrow> ss), d')"
| purges: "purgeExpired cr drv penv (sv_store sv, d) = (st, d') \<Longrightarrow>
    relay_next cr drv cfg (Running sv ss, d) (Running (sv\<lparr>sv_store := st\<rparr>) ss, d')"
| stops: "Run how sv = (err, sv') \<Longrightarrow> relay_next cr drv cfg (Running sv ss, d) (Running sv' ss, d)"
| crashes: "untouched {} d d' \<Longrightarrow> relay_next cr drv cfg (p, d) (Exited, d')"
| starts: "same_paths cfg cfg' \<Longrightarrow> honest_start senv kenv cenv \<Longrightarrow>
    New cr drv senv kenv cenv d cfg' = (res, d') \<Longrightarrow>
    relay_next cr drv cfg (Exited, d) (case res of Inl e \<Rightarrow> Exited | Inr sv \<Rightarrow> Running sv [], d')"

inductive_cases relay_nextE: "relay_next cr drv cfg w w'"

definition relay_lives :: "crypto \<Rightarrow> sqliteDriver \<Rightarrow> Config \<Rightarrow> Server \<Rightarrow> process \<Rightarrow> fs \<Rightarrow> bool" where
  "relay_lives cr drv cfg sv0 p d \<longleftrightarrow>
     (\<exists>senv kenv cenv d0. New cr drv senv kenv cenv Map.empty cfg = (Inr sv0, d0)
        \<and> (relay_next cr drv cfg)\<^sup>*\<^sup>* (Running sv0 [], d0) (p, d))"

section \<open>The invariant\<close>

fun process_ok :: "crypto \<Rightarrow> sqliteDriver \<Rightarrow> site \<Rightarrow> process \<times> fs \<Rightarrow> bool" where
  "process_ok cr drv si (Exited, d) = disk_ok cr drv si d"
| "process_ok cr drv si (Running sv ss, d) = (relay_inv cr drv si sv d \<and> (\<forall>(c, u) \<in> set ss. valid_utf8 u))"

lemma process_disk: "process_ok cr drv si (p, d) \<Longrightarrow> disk_ok cr drv si d"
  by (cases p) (auto dest: relay_inv_disk)

lemma stops_inv: "Run how sv = (err, sv') \<Longrightarrow> relay_inv cr drv si sv d \<Longrightarrow> site_ok si \<Longrightarrow> relay_inv cr drv si sv' d"
  using store_only_inv [OF store_step.stops] by (cases how) (auto simp: Run_def)

lemma closeConn_inv:
  "closeConn (sv, d) u c = (sv', d') \<Longrightarrow> relay_inv cr drv si sv d \<Longrightarrow> site_ok si \<Longrightarrow> relay_inv cr drv si sv' d'"
  using store_only_inv [OF store_step.leaves] by (auto simp: closeConn_def)

lemma purge_inv:
  assumes "purgeExpired cr drv env (sv_store sv, d) = (st, d')" "relay_inv cr drv si sv d" "site_ok si"
  shows "relay_inv cr drv si (sv\<lparr>sv_store := st\<rparr>) d'"
  using store_only_inv [OF _ assms(2,3)] store_step.purge [of cr drv "(sv_store sv, d)" env] assms(1) by simp

definition site_for :: "Config \<Rightarrow> site \<Rightarrow> bool" where
  "site_for cfg si \<longleftrightarrow> site_ok si \<and> OfflineQueuePath cfg = si_queue si
     \<and> PrekeyStorePath cfg = si_prekeys si \<and> SealedCAPath cfg = si_ca si"

lemma relay_next_ok:
  assumes "gcm_correct cr" "driver_correct drv" "site_for cfg si"
    and "relay_next cr drv cfg w w'" "process_ok cr drv si w"
  shows "process_ok cr drv si w'"
  using assms(4,5)
proof (cases rule: relay_next.cases)
  case (opens aenv fenv sv d c addr res acts sv' d' ss)
  have "relay_inv cr drv si sv' d'" using openConn_inv [OF opens(3)] opens(1) assms(3,5) by (simp add: site_for_def)
  moreover have "valid_utf8 u" if "res = Some u" for u using openConn_utf8 opens(3) that by blast
  ultimately show ?thesis using opens(1,2) assms(5) by (auto split: option.split)
next
  case (frame c u ss env sv d data acts sv' d')
  then show ?thesis using handleAuthedFrame_inv [OF frame(4)] assms(3,5) by (auto simp: site_for_def)
next
  case (closes c u ss sv d sv' d')
  then show ?thesis using closeConn_inv [OF closes(4)] assms(3,5) by (auto simp: site_for_def dest!: subsetD [OF set_remove1_subset])
next
  case (request henv sv d r answer sv' d' ss)
  have "valid_utf8 u" if "answer = Upgraded (Some u) acts" for u acts using serveHTTP_user request(3) that by blast
  with request show ?thesis using serveHTTP_inv [OF request(3)] assms(3,5)
    by (auto simp: site_for_def split: served.split option.split)
next
  case (purges penv sv d st d' ss)
  then show ?thesis using purge_inv [OF purges(3)] assms(3,5) by (auto simp: site_for_def)
next
  case (stops how sv err sv' ss d)
  then show ?thesis using stops_inv [OF stops(3)] assms(3,5) by (auto simp: site_for_def)
next
  case (crashes d d' p)
  then show ?thesis using disk_ok_crash [OF process_disk] assms(3,5) by (auto simp: site_for_def)
next
  case (starts cfg' senv kenv cenv d res d')
  have cfg': "OfflineQueuePath cfg' = si_queue si" "PrekeyStorePath cfg' = si_prekeys si" "SealedCAPath cfg' = si_ca si"
    using starts(3) assms(3) by (simp_all add: site_for_def same_paths_def)
  have "disk_ok cr drv si d" using assms(5) starts(1) by simp
  moreover have "site_ok si" using assms(3) by (simp add: site_for_def)
  ultimately show ?thesis
    using New_saved [OF assms(1,2) starts(4) _ _ cfg'] starts(2,5) by fastforce
qed

lemma relay_lives_ok:
  assumes "gcm_correct cr" "driver_correct drv" "ed25519_correct cr" "paths_ok cfg" "relay_lives cr drv cfg sv0 p d"
  shows "process_ok cr drv (site_of sv0) (p, d)" "site_for cfg (site_of sv0)" "sv_cfg sv0 = cfg"
proof -
  obtain senv kenv cenv d0 where new: "New cr drv senv kenv cenv Map.empty cfg = (Inr sv0, d0)"
    and run: "(relay_next cr drv cfg)\<^sup>*\<^sup>* (Running sv0 [], d0) (p, d)"
    using assms(5) by (auto simp: relay_lives_def)
  note first = New_first [OF assms(1,3,4) new]
  then show "sv_cfg sv0 = cfg" by simp
  then show site: "site_for cfg (site_of sv0)" using site_of_ok [of sv0] assms(4) by (simp add: site_for_def site_of_def)
  from run show "process_ok cr drv (site_of sv0) (p, d)"
  proof (induction rule: rtranclp_induct)
    case base
    show ?case using first by simp
  next
    case (step w w')
    show ?case by (rule relay_next_ok [OF assms(1,2) site step(2,3)])
  qed
qed

lemma relay_lives_ca:
  assumes "gcm_correct cr" "ed25519_correct cr" "paths_ok cfg" "relay_lives cr drv cfg sv0 p d"
  shows "ca_pub (sv_sealedCA sv0) = keyPublic (si_caKey (site_of sv0))"
  using New_first [OF assms(1-3)] assms(4) by (auto simp: relay_lives_def relay_inv_def ca_ok_def)

section \<open>Properties\<close>

text \<open>
  C1: The relay keeps its invariant over its whole life, over any interleaving of
  connections, frames, requests, purges, crashes and restarts under any faults: every
  mailbox within the cap of 500, one connection per user, every stored prekey bundle
  well-formed under a non-empty name, the limiters at their budgets (6 certificates and 10
  prekey fetches a minute, and the configured rate of the router), every session under a
  valid UTF-8 name, though possibly the empty one.
\<close>

theorem invariant_for_life:
  assumes "gcm_correct cr" "driver_correct drv" "ed25519_correct cr" "paths_ok cfg"
    and "relay_lives cr drv cfg sv0 (Running sv ss) d"
  shows "length (mailbox (st_db (sv_store sv)) rid) \<le> 500
    \<and> distinct (map fst (st_clients (sv_store sv)))
    \<and> (map_of (ps_bundles (sv_prekeys sv)) u = Some b \<longrightarrow> u \<noteq> [] \<and> validatePrekeyBundle b = None)
    \<and> perMin (sv_certLimiter sv) = 6 \<and> perMin (sv_prekeyLimiter sv) = 10
    \<and> rt_ratePerMin (sv_router sv) = RateLimitPerMin (sv_cfg sv)
    \<and> ((c, v) \<in> set ss \<longrightarrow> valid_utf8 v)"
proof -
  have inv: "relay_inv cr drv (site_of sv0) sv d" "\<forall>(c, u) \<in> set ss. valid_utf8 u"
    using relay_lives_ok(1) [OF assms] by simp_all
  then have ok: "relay_ok sv" by (simp add: relay_inv_def)
  then have "int (length (mailbox (st_db (sv_store sv)) rid)) \<le> 500"
    by (simp add: relay_ok_def store_wf_def maxQueuePerRecipient_def)
  with ok inv(2) show ?thesis
    by (auto simp: relay_ok_def store_wf_def gm_wf_def validate_iff certRequestsPerMin_def
        prekeyFetchesPerMinPerTarget_def dest: entries_ok_get)
qed

text \<open>
  C7: A relay that came up once can always be restarted: whatever happened in the meantime
  (faults, crashes at any moment, failed starts), a start during which nothing fails
  succeeds, writes nothing, and comes up with the same three keys.
\<close>

theorem relay_restarts:
  assumes "gcm_correct cr" "driver_correct drv" "ed25519_correct cr" "paths_ok cfg"
    and "relay_lives cr drv cfg sv0 p d" "same_paths cfg cfg'" "clean_start senv kenv cenv"
  shows "\<exists>sv. New cr drv senv kenv cenv d cfg' = (Inr sv, d) \<and> sv_cfg sv = cfg'
    \<and> st_key (sv_store sv) = st_key (sv_store sv0) \<and> ps_key (sv_prekeys sv) = ps_key (sv_prekeys sv0)
    \<and> PublicKeyB64 (sv_sealedCA sv) = PublicKeyB64 (sv_sealedCA sv0)"
proof -
  note lives = relay_lives_ok [OF assms(1-5)]
  have site: "site_ok (site_of sv0)" "OfflineQueuePath cfg' = si_queue (site_of sv0)"
    "PrekeyStorePath cfg' = si_prekeys (site_of sv0)" "SealedCAPath cfg' = si_ca (site_of sv0)"
    using lives(2) assms(6) by (simp_all add: site_for_def same_paths_def)
  note ca0 = relay_lives_ca [OF assms(1,3-5)]
  obtain sv where "New cr drv senv kenv cenv d cfg' = (Inr sv, d)" "relay_inv cr drv (site_of sv0) sv d" "sv_cfg sv = cfg'"
    using New_saved [OF assms(1,2) clean_honest [OF assms(7)] process_disk [OF lives(1)] site] assms(7) by blast
  then show ?thesis
    using ca0 by (auto simp: relay_inv_def queue_ok_def prekeys_ok_def ca_ok_def site_of_def PublicKeyB64_def)
qed

text \<open>
  C14: A client that pinned the authority's public key at the relay's first start can verify
  every certificate the relay ever sends, through all crashes and restarts.  A certificate
  is sent only on the connection that asked for it, and binds the user of that session to
  the identity key this user registered, for 24 hours, whatever the frame contains.
\<close>

theorem certificates_verify_forever:
  assumes "gcm_correct cr" "driver_correct drv" "ed25519_correct cr" "paths_ok cfg"
    and "relay_lives cr drv cfg sv0 (Running sv ss) d" "(c, u) \<in> set ss"
    and "handleAuthedFrame cr drv env (sv, d) u c data = (acts, sv', d')"
    and "unmarshalHeader data = (False, ''request_sender_cert'')" "Sent c' raw \<in> set acts"
    and "valid_utf8 (RelayID (sv_cfg sv))" "int64_ok (unixMilli (ct_issue (fr_cert env)) + 86400000)"
  shows "\<exists>ik cert sig. c' = c \<and> identityKeyOf (sv_prekeys sv) u = Some ik \<and> b64_of_len ik 32
    \<and> raw = jprint (jsonCertReply cert sig) \<and> edVerify cr (ca_pub (sv_sealedCA sv0)) cert sig
    \<and> unmarshalCert cert = (False, \<lparr>sc_Iss = RelayID (sv_cfg sv), sc_UID = u, sc_IK = ik,
         sc_Exp = unixMilli (ct_issue (fr_cert env)) + 86400000\<rparr>)"
proof -
  note lives = relay_lives_ok [OF assms(1-5)]
  have inv: "relay_inv cr drv (site_of sv0) sv d" and u: "valid_utf8 u" using lives(1) assms(6) by auto
  have ca: "genuine cr (ca_priv (sv_sealedCA sv))" "ca_pub (sv_sealedCA sv) = keyPublic (ca_priv (sv_sealedCA sv))"
    "ca_pub (sv_sealedCA sv) = ca_pub (sv_sealedCA sv0)"
    using inv relay_lives_ca [OF assms(1,3,4,5)] by (simp_all add: relay_inv_def ca_ok_def)
  have ik: "b64_of_len ik 32" if "identityKeyOf (sv_prekeys sv) u = Some ik" for ik
    using inv that by (auto simp: relay_inv_def relay_ok_def identityKeyOf_def bundle_ok_def dest: entries_ok_get)
  then have "\<forall>ik. identityKeyOf (sv_prekeys sv) u = Some ik \<longrightarrow> valid_utf8 ik"
    using b64_valid_utf8 by (auto simp: b64_of_len_def)
  from certificate_binds_session [OF assms(3) ca(1,2) assms(8,7,9) u assms(10,11) this] ca(3) ik show ?thesis
    by auto
qed

section \<open>A concrete life\<close>

lemma demo_new:
  "\<exists>sv d. New plainCrypto demo_drv demo_start demo_prekey_start demo_ca_env Map.empty demo_cfg = (Inr sv, d)"
proof -
  let ?d1 = "snd demo_first"
  let ?d2 = "?d1(''p.key'' \<mapsto> \<lparr>fdata = replicate 32 CHR ''k'', fmode = mode0600\<rparr>)"
  have none: "?d1 p = None" if "p \<noteq> ''q''" "p \<noteq> ''q.key''" for p
    using NewStore_files [OF demo_first_start(1), of p] that by (simp add: keyFileSuffix_def)
  have ps: "NewPrekeyStore plainCrypto demo_prekey_start ?d1 ''p'' = (Inr demo_ps0, ?d2)"
    by (simp add: NewPrekeyStore_def demo_prekey_start_def loadOrCreateKey_def readFile_def writeFile_def
        keyFileSuffix_def prekey_loadFromDisk_def demo_ps0_def Let_def none)
  have "\<exists>ca d3. NewSealedCA plainCrypto demo_ca_env ?d2 ''ca'' = (Inr ca, d3)"
    by (simp add: NewSealedCA_def readFile_def demo_ca_env_def generateKey_def writeFile_def Let_def none)
  with demo_first_start(1) ps show ?thesis
    by (auto simp: New_def demo_cfg_def)
qed

lemma demo_paths: "paths_ok demo_cfg"
  by (simp add: paths_ok_def demo_cfg_def temp_file_def keyFileSuffix_def suffix_def)

text \<open>Alice connects and publishes a bundle.\<close>

lemma demo_session:
  obtains sv0 sv d where "relay_lives plainCrypto demo_drv demo_cfg sv0 (Running sv [(7, ''alice'')]) d"
    "map_of (ps_bundles (sv_prekeys sv)) ''alice'' = Some demo_bundle" "sv_cfg sv = demo_cfg"
    "sv_certLimiter sv = newRateLimiter certRequestsPerMin"
proof -
  let ?q = "honest_request plainCrypto demo_seed ''alice'' demo_nonce"
  obtain sv0 d0 where new: "New plainCrypto demo_drv demo_start demo_prekey_start demo_ca_env Map.empty demo_cfg = (Inr sv0, d0)"
    using demo_new by blast
  then have sv0: "sv_auth sv0 = newAuthLimiter" "sv_cfg sv0 = demo_cfg" "sv_certLimiter sv0 = newRateLimiter certRequestsPerMin"
    by (auto simp: New_def split: prod.splits sum.splits)
  obtain res acts sv1 d1 where o: "openConn plainCrypto demo_drv (demo_auth ?q) demo_flush (sv0, d0) 7 ''ip'' = (res, acts, sv1, d1)"
    by (metis prod_cases4)
  have "request_wf ?q" using alice_utf8 by (simp add: request_wf_def honest_request_def)
  moreover have "checkRequest plainCrypto demo_nonce ?q" by (rule checkRequest_honest [OF plainCrypto_ed]) simp_all
  ultimately have "fst (Authenticate plainCrypto (demo_auth ?q) newAuthLimiter ip) = Some ''alice''" for ip
    using Authenticate_reply [of newAuthLimiter ip "demo_auth ?q"] demo_auth_allowed by (simp add: honest_request_def)
  moreover have "normalizeUser (RelayID demo_cfg) ''alice'' = ''alice''" by (simp add: normalizeUser_def splitN2_none)
  ultimately have r: "res = Some ''alice''" "sv_cfg sv1 = demo_cfg" "sv_certLimiter sv1 = newRateLimiter certRequestsPerMin"
    using o sv0 by (auto simp: openConn_def Let_def split: prod.splits option.splits) (metis fst_conv option.inject option.distinct(1))+
  obtain acts' sv2 d2 where f: "handleAuthedFrame plainCrypto demo_drv demo_frame (sv1, d1) ''alice'' 7 (upload demo_bundle) = (acts', sv2, d2)"
    by (metis prod_cases3)
  obtain ps where sv2: "sv2 = sv1\<lparr>sv_prekeys := ps\<rparr>" "map_of (ps_bundles ps) ''alice'' = Some demo_bundle"
    by (rule upload_registers [OF demo_bundle_ok _ f]) (simp_all add: demo_copy)
  have "relay_next plainCrypto demo_drv demo_cfg (Running sv0 [], d0) (Running sv1 [(7, ''alice'')], d1)"
    using relay_next.opens [OF o, where cfg = demo_cfg and ss = "[]"] r(1) by simp
  moreover have "relay_next plainCrypto demo_drv demo_cfg (Running sv1 [(7, ''alice'')], d1) (Running sv2 [(7, ''alice'')], d2)"
    by (rule relay_next.frame [OF _ f]) simp
  ultimately have "relay_lives plainCrypto demo_drv demo_cfg sv0 (Running sv2 [(7, ''alice'')]) d2"
    using new unfolding relay_lives_def by (meson converse_rtranclp_into_rtranclp r_into_rtranclp)
  then show ?thesis using that sv2 r by simp
qed

section \<open>Witnesses\<close>

theorem invariant_for_life_witness:
  "\<exists>sv0 sv d. relay_lives plainCrypto demo_drv demo_cfg sv0 (Running sv [(7, ''alice'')]) d
    \<and> validatePrekeyBundle demo_bundle = None \<and> perMin (sv_prekeyLimiter sv) = 10"
proof -
  obtain sv0 sv d where l: "relay_lives plainCrypto demo_drv demo_cfg sv0 (Running sv [(7, ''alice'')]) d"
    "map_of (ps_bundles (sv_prekeys sv)) ''alice'' = Some demo_bundle" by (rule demo_session)
  from invariant_for_life [OF plainCrypto_gcm demo_drv_correct plainCrypto_ed demo_paths l(1)] l show ?thesis by blast
qed

theorem relay_restarts_witness:
  "\<exists>sv0 sv d. relay_lives plainCrypto demo_drv demo_cfg sv0 Exited d
    \<and> New plainCrypto demo_drv demo_start demo_prekey_start demo_ca_env d demo_cfg = (Inr sv, d)
    \<and> PublicKeyB64 (sv_sealedCA sv) = PublicKeyB64 (sv_sealedCA sv0)"
proof -
  obtain sv0 sv d where "relay_lives plainCrypto demo_drv demo_cfg sv0 (Running sv [(7, ''alice'')]) d" by (rule demo_session)
  then have l: "relay_lives plainCrypto demo_drv demo_cfg sv0 Exited d"
    unfolding relay_lives_def by (meson relay_next.crashes rtranclp.rtrancl_into_rtrancl untouched_refl)
  have "clean_start demo_start demo_prekey_start demo_ca_env" "same_paths demo_cfg demo_cfg"
    by (simp_all add: clean_start_def demo_start_def demo_prekey_start_def demo_ca_env_def same_paths_def)
  with relay_restarts [OF plainCrypto_gcm demo_drv_correct plainCrypto_ed demo_paths l] l show ?thesis by blast
qed

theorem certificates_verify_forever_witness:
  "\<exists>sv0 sv d cert sig. relay_lives plainCrypto demo_drv demo_cfg sv0 (Running sv [(7, ''alice'')]) d
    \<and> fst (handleAuthedFrame plainCrypto demo_drv demo_frame (sv, d) ''alice'' 7 cert_request) = [Sent 7 (jprint (jsonCertReply cert sig))]
    \<and> edVerify plainCrypto (ca_pub (sv_sealedCA sv0)) cert sig"
proof -
  obtain sv0 sv d where l: "relay_lives plainCrypto demo_drv demo_cfg sv0 (Running sv [(7, ''alice'')]) d"
    "map_of (ps_bundles (sv_prekeys sv)) ''alice'' = Some demo_bundle" "sv_cfg sv = demo_cfg"
    "sv_certLimiter sv = newRateLimiter certRequestsPerMin" by (rule demo_session)
  have "fst (rateLimiter_allow (newRateLimiter certRequestsPerMin) ''alice'' 0)"
    by (rule rl.resets) (simp_all add: newRateLimiter_def certRequestsPerMin_def rateLimiter_hist_def window_of_def)
  then obtain lim where "rateLimiter_allow (newRateLimiter certRequestsPerMin) ''alice'' 0 = (True, lim)"
    by (cases "rateLimiter_allow (newRateLimiter certRequestsPerMin) ''alice'' 0") auto
  with l obtain raw sv' where f: "handleAuthedFrame plainCrypto demo_drv demo_frame (sv, d) ''alice'' 7 cert_request = ([Sent 7 raw], sv', d)"
    by (auto simp: handleAuthedFrame_def cert_request_header issueSenderCert_def demo_frame_def
        buildSenderCert_def identityKeyOf_def IssueCert_def Let_def)
  have "valid_utf8 (RelayID (sv_cfg sv))" using l(3) by (simp add: demo_cfg_def) (rule valid_utf8_key, simp add: code_def)
  moreover have "int64_ok (unixMilli (ct_issue (fr_cert demo_frame)) + 86400000)"
    by (simp add: demo_frame_def unixMilli_def int64_ok_def)
  ultimately obtain cert sig where "raw = jprint (jsonCertReply cert sig)" "edVerify plainCrypto (ca_pub (sv_sealedCA sv0)) cert sig"
    using certificates_verify_forever [OF plainCrypto_gcm demo_drv_correct plainCrypto_ed demo_paths l(1) _ f cert_request_header, of 7 raw]
    by auto
  with l(1) f have "relay_lives plainCrypto demo_drv demo_cfg sv0 (Running sv [(7, ''alice'')]) d
    \<and> fst (handleAuthedFrame plainCrypto demo_drv demo_frame (sv, d) ''alice'' 7 cert_request) = [Sent 7 (jprint (jsonCertReply cert sig))]
    \<and> edVerify plainCrypto (ca_pub (sv_sealedCA sv0)) cert sig" by simp
  then show ?thesis by blast
qed

end
