(* ===== verification/Logging.thy ===== *)
theory Logging
  imports Relay_Life
begin

text \<open>
  What the relay logs.  The log handler of \<^verbatim>\<open>main.go\<close> drops lines below its floor; each
  operation that logs has a function that gives its lines, branch by branch, next to the
  definition of the operation itself (\<^verbatim>\<open>Authenticator.dbg\<close> with the trace of the
  handshake, \<^verbatim>\<open>store.go\<close>, \<^verbatim>\<open>prekey_store.go\<close>, \<^verbatim>\<open>server.go\<close>).

  Shown: the relay never logs what it relays.  Every line is one of a fixed list, with an
  error class as its only attribute, except that the debug trace of the handshake gives
  three lengths and the start-up line the configuration summary; the trace and the floor
  of the handler are switched together; and a message that is not stored is not lost in
  silence unless the mailbox is full.
\<close>

section \<open>Levels and lines\<close>

datatype level = LevelDebug | LevelInfo | LevelWarn | LevelError

fun levelValue :: "level \<Rightarrow> int" where
  "levelValue LevelDebug = - 4"
| "levelValue LevelInfo = 0"
| "levelValue LevelWarn = 4"
| "levelValue LevelError = 8"

lemma levelValue_inj: "levelValue a = levelValue b \<longleftrightarrow> a = b"
  by (cases a; cases b) auto

instantiation level :: linorder
begin

definition less_eq_level :: "level \<Rightarrow> level \<Rightarrow> bool" where
  "a \<le> b \<longleftrightarrow> levelValue a \<le> levelValue b"

definition less_level :: "level \<Rightarrow> level \<Rightarrow> bool" where
  "a < b \<longleftrightarrow> levelValue a < levelValue b"

instance
  by standard (auto simp: less_eq_level_def less_level_def levelValue_inj)

end

datatype logValue = StrVal string | IntVal int

record logLine =
  ll_level :: level
  ll_msg :: string
  ll_attrs :: "(string \<times> logValue) list"

definition line :: "level \<Rightarrow> string \<Rightarrow> logLine" where
  "line lv msg = \<lparr>ll_level = lv, ll_msg = msg, ll_attrs = []\<rparr>"

definition classLine :: "level \<Rightarrow> string \<Rightarrow> string \<Rightarrow> logLine" where
  "classLine lv msg cls = \<lparr>ll_level = lv, ll_msg = msg, ll_attrs = [(''err_type'', StrVal cls)]\<rparr>"

text \<open>\<^verbatim>\<open>log.Error(msg, "err_type", classifyErr(err))\<close>, where an error occurred.\<close>

definition errLine :: "string \<Rightarrow> goErr \<Rightarrow> logLine" where
  "errLine msg e = classLine LevelError msg (classifyErr (Some e))"

definition logErr :: "string \<Rightarrow> goErr option \<Rightarrow> logLine list" where
  "logErr msg err = (case err of None \<Rightarrow> [] | Some e \<Rightarrow> [errLine msg e])"

text \<open>The handler of \<^verbatim>\<open>main\<close> and what reaches standard output.\<close>

definition handlerLevel :: "(string \<Rightarrow> string) \<Rightarrow> level" where
  "handlerLevel env = (if env ''SPECTRE_DEBUG'' = ''true'' then LevelDebug else LevelInfo)"

definition emitted :: "level \<Rightarrow> logLine list \<Rightarrow> logLine list" where
  "emitted floor ls = filter (\<lambda>l. floor \<le> ll_level l) ls"

section \<open>The handshake\<close>

record Authenticator =
  a_limiter :: authLimiter
  a_hasLog :: bool
  a_debug :: bool

definition NewAuthenticator :: "(string \<Rightarrow> string) \<Rightarrow> bool \<Rightarrow> Authenticator" where
  "NewAuthenticator env hasLog =
     \<lparr>a_limiter = newAuthLimiter, a_hasLog = hasLog, a_debug = (env ''SPECTRE_DEBUG'' = ''true'')\<rparr>"

definition dbg :: "Authenticator \<Rightarrow> string \<Rightarrow> (string \<times> logValue) list \<Rightarrow> logLine list" where
  "dbg a msg args =
     (if \<not> a_debug a \<or> \<not> a_hasLog a then []
      else [\<lparr>ll_level = LevelDebug, ll_msg = msg, ll_attrs = args\<rparr>])"

definition request_log :: "crypto \<Rightarrow> Authenticator \<Rightarrow> bytes \<Rightarrow> AuthRequest \<Rightarrow> logLine list" where
  "request_log cr a nonce req =
     (let pub = fst (b64_decode (ar_IdentityPublicKey req));
          sig = fst (b64_decode (ar_Signature req))
      in dbg a ''auth: request received''
           [(''user_id_len'', IntVal (int (length (ar_UserID req)))),
            (''pub_key_len'', IntVal (int (length pub))),
            (''sig_len'', IntVal (int (length sig)))] @
         (if length pub \<noteq> publicKeySize then []
          else dbg a ''auth: pub key decoded'' [] @
            (if length sig \<noteq> signatureSize then []
             else dbg a ''auth: sig decoded'' [] @
               (if \<not> edVerify cr pub nonce sig then dbg a ''auth: signature FAILED'' []
                else dbg a ''auth: signature verified'' []))))"

definition Authenticate_log :: "crypto \<Rightarrow> authEnv \<Rightarrow> Authenticator \<Rightarrow> string \<Rightarrow> logLine list" where
  "Authenticate_log cr env a remoteIP =
     (if \<not> fst (authLimiter_allow (a_limiter a) remoteIP (au_now env)) then []
      else dbg a ''auth: rate limit check passed'' [] @
        (if length (au_rand env) < 32 then []
         else dbg a ''auth: nonce generated'' [] @
           (if \<not> au_challenge env then []
            else dbg a ''auth: challenge sent'' [] @
              (case au_reply env of
                 None \<Rightarrow> []
               | Some data \<Rightarrow>
                   (case unmarshalAuthRequest data of
                      (True, _) \<Rightarrow> []
                    | (False, req) \<Rightarrow> request_log cr a (take 32 (au_rand env)) req)))))"

section \<open>The offline queue\<close>

text \<open>
  A statement on a closed connection fails with an error of the class of other I/O errors.
  The line for a message that does not marshal is left out: a message is made of strings,
  byte strings and integers, for which \<^verbatim>\<open>json.Marshal\<close> does not fail.
\<close>

definition Enqueue_log :: "crypto \<Rightarrow> sqliteDriver \<Rightarrow> enqEnv \<Rightarrow> Store \<times> fs \<Rightarrow> string \<Rightarrow> queuedMessage
    \<Rightarrow> logLine list" where
  "Enqueue_log cr drv env w rid msg =
     (case w of (s, disk) \<Rightarrow>
      if st_stopped s then [errLine ''queue delete expired failed'' ErrIO]
      else if ee_delete env \<noteq> None then logErr ''queue delete expired failed'' (ee_delete env)
      else
        let db1 = sqlDeleteExpiredFor rid (ee_epoch env) (st_db s) in
        if ee_count env \<noteq> None then logErr ''queue count failed'' (ee_count env)
        else if maxQueuePerRecipient \<le> sqlCountFor rid db1 then []
        else
          let msg' = msg\<lparr>qm_ExpiresAt := unix (time_add (ee_now env) (st_ttl s))\<rparr> in
          (case encrypt cr (st_key s) (ee_rand env) (marshalMessage msg') of
             Inl e \<Rightarrow> [errLine ''queue encrypt failed'' e]
           | Inr ciphertext \<Rightarrow>
               if ee_insert env \<noteq> None then logErr ''queue insert failed'' (ee_insert env)
               else (case sqlInsert rid ciphertext (qm_ExpiresAt msg') db1 of
                       Inl e \<Rightarrow> [errLine ''queue insert failed'' e]
                     | Inr db2 \<Rightarrow> logErr ''queue persist failed''
                         (fst (store_persistLocked cr drv (ee_persist env) (s\<lparr>st_db := db2\<rparr>) disk)))))"

fun drainRows_log :: "crypto \<Rightarrow> bytes \<Rightarrow> int \<Rightarrow> (nat \<Rightarrow> bool) \<Rightarrow> nat \<Rightarrow> (bytes \<times> int) list \<Rightarrow> logLine list" where
  "drainRows_log cr key now scan i [] = []"
| "drainRows_log cr key now scan i ((ciphertext, expiresAt) # rows) =
     (if scan i then [errLine ''queue scan failed'' ErrIO]
      else if expiresAt < now then []
      else (case decrypt cr key ciphertext of
              Inl e \<Rightarrow> [errLine ''queue decrypt failed'' e]
            | Inr plaintext \<Rightarrow>
                if fst (unmarshalQueued plaintext) then [errLine ''queue unmarshal failed'' (ErrMsg ''json'')]
                else [])) @ drainRows_log cr key now scan (Suc i) rows"

definition DrainQueue_log :: "crypto \<Rightarrow> sqliteDriver \<Rightarrow> drainEnv \<Rightarrow> Store \<times> fs \<Rightarrow> string \<Rightarrow> logLine list" where
  "DrainQueue_log cr drv env w rid =
     (case w of (s, disk) \<Rightarrow>
      if st_stopped s then [errLine ''queue tx begin failed'' ErrIO]
      else if de_begin env \<noteq> None then logErr ''queue tx begin failed'' (de_begin env)
      else if de_query env \<noteq> None then logErr ''queue query failed'' (de_query env)
      else
        let rows = sqlSelectFor rid (st_db s);
            seen = (case de_rows env of None \<Rightarrow> rows | Some n \<Rightarrow> take n rows) in
        drainRows_log cr (st_key s) (unix (de_now env)) (de_scan env) 0 seen @
        (if de_delete env \<noteq> None then logErr ''queue delete failed'' (de_delete env)
         else if de_commit env \<noteq> None then logErr ''queue commit failed'' (de_commit env)
         else logErr ''queue persist failed'' (fst (store_persistLocked cr drv (de_persist env)
                (s\<lparr>st_db := sqlDeleteFor rid (st_db s)\<rparr>) disk))))"

definition QueuedMessages_log :: "goErr option \<Rightarrow> Store \<Rightarrow> logLine list" where
  "QueuedMessages_log fault s =
     (if st_stopped s then [errLine ''queue count failed'' ErrIO] else logErr ''queue count failed'' fault)"

definition purgeExpired_log :: "crypto \<Rightarrow> sqliteDriver \<Rightarrow> purgeEnv \<Rightarrow> Store \<times> fs \<Rightarrow> logLine list" where
  "purgeExpired_log cr drv env w =
     (case w of (s, disk) \<Rightarrow>
      if st_stopped s then [errLine ''queue purge failed'' ErrIO]
      else if pu_delete env \<noteq> None then logErr ''queue purge failed'' (pu_delete env)
      else logErr ''queue persist failed'' (fst (store_persistLocked cr drv (pu_persist env)
             (s\<lparr>st_db := sqlDeleteExpired (pu_epoch env) (st_db s)\<rparr>) disk)))"

section \<open>The prekey store\<close>

definition registerBundle_log :: "crypto \<Rightarrow> persistEnv \<Rightarrow> PrekeyStore \<times> fs \<Rightarrow> string \<Rightarrow> PrekeyBundle \<Rightarrow> logLine list" where
  "registerBundle_log cr env w userID bundle =
     (case w of (ps, disk) \<Rightarrow>
      if userID = [] \<or> validatePrekeyBundle bundle \<noteq> None then []
      else logErr ''prekey persist failed'' (fst (prekey_persistLocked cr env
             (ps\<lparr>ps_bundles := gm_put userID (copyBundle bundle) (ps_bundles ps)\<rparr>) disk)))"

definition getBundleWithOTPK_log :: "crypto \<Rightarrow> persistEnv \<Rightarrow> PrekeyStore \<times> fs \<Rightarrow> string \<Rightarrow> bool \<Rightarrow> logLine list" where
  "getBundleWithOTPK_log cr env w userID consumeOTPK =
     (case w of (ps, disk) \<Rightarrow>
      case map_of (ps_bundles ps) userID of
        None \<Rightarrow> []
      | Some b \<Rightarrow>
          (case (consumeOTPK, pb_OneTimePrekeys b) of
             (True, consumed # rest) \<Rightarrow> logErr ''prekey persist failed'' (fst (prekey_persistLocked cr env
                (ps\<lparr>ps_bundles := gm_put userID (b\<lparr>pb_OneTimePrekeys := rest\<rparr>) (ps_bundles ps)\<rparr>) disk))
           | _ \<Rightarrow> []))"

definition consumeOneTimePrekey_log :: "crypto \<Rightarrow> persistEnv \<Rightarrow> PrekeyStore \<times> fs \<Rightarrow> string \<Rightarrow> logLine list" where
  "consumeOneTimePrekey_log cr env w userID = getBundleWithOTPK_log cr env w userID True"

section \<open>The router\<close>

definition deliverLocal_log :: "crypto \<Rightarrow> sqliteDriver \<Rightarrow> deliverEnv \<Rightarrow> Store \<times> fs \<Rightarrow> string \<Rightarrow> queuedMessage
    \<Rightarrow> logLine list" where
  "deliverLocal_log cr drv env w recipientID m =
     (case LookupClient (fst w) recipientID of
        None \<Rightarrow> Enqueue_log cr drv (dv_enq env) w recipientID m
      | Some c \<Rightarrow>
          (case marshalQueued m of
             Inl e \<Rightarrow> Enqueue_log cr drv (dv_enq env) w recipientID m
           | Inr raw \<Rightarrow> if dv_write env then [] else Enqueue_log cr drv (dv_enq env) w recipientID m))"

definition deliver_log :: "crypto \<Rightarrow> sqliteDriver \<Rightarrow> deliverEnv \<Rightarrow> Router \<Rightarrow> Store \<times> fs \<Rightarrow> string
    \<Rightarrow> queuedMessage \<Rightarrow> logLine list" where
  "deliver_log cr drv env r w recipientID m =
     (case splitN2 CHR ''@'' recipientID of
        [user, domain] \<Rightarrow>
          if \<not> isLocalRelay domain (rt_relayID r) then [] else deliverLocal_log cr drv env w user m
      | _ \<Rightarrow> deliverLocal_log cr drv env w recipientID m)"

definition Route_log :: "crypto \<Rightarrow> sqliteDriver \<Rightarrow> time \<Rightarrow> deliverEnv \<Rightarrow> Router \<Rightarrow> Store \<times> fs \<Rightarrow> string
    \<Rightarrow> bytes \<Rightarrow> logLine list" where
  "Route_log cr drv now env r w senderID payload =
     (if rt_maxMessageSize r < int (length payload) then []
      else (case Router_allow r senderID now of
              (False, r') \<Rightarrow> []
            | (True, r') \<Rightarrow>
                (case classify payload of
                   None \<Rightarrow> []
                 | Some (rid, m) \<Rightarrow> deliver_log cr drv env r' w rid m)))"

fun reenqueue_log :: "crypto \<Rightarrow> sqliteDriver \<Rightarrow> (nat \<Rightarrow> enqEnv) \<Rightarrow> nat \<Rightarrow> string \<Rightarrow> queuedMessage list
    \<Rightarrow> Store \<times> fs \<Rightarrow> logLine list" where
  "reenqueue_log cr drv enq j userID [] w = []"
| "reenqueue_log cr drv enq j userID (m # ms) w =
     Enqueue_log cr drv (enq j) w userID m @
     reenqueue_log cr drv enq (Suc j) userID ms (Enqueue cr drv (enq j) w userID m)"

fun flushLoop_log :: "crypto \<Rightarrow> sqliteDriver \<Rightarrow> (nat \<Rightarrow> bool) \<Rightarrow> (nat \<Rightarrow> enqEnv) \<Rightarrow> nat \<Rightarrow> string
    \<Rightarrow> queuedMessage list \<Rightarrow> Store \<times> fs \<Rightarrow> logLine list" where
  "flushLoop_log cr drv wr enq i userID [] w = []"
| "flushLoop_log cr drv wr enq i userID (m # ms) w =
     (case marshalQueued m of
        Inl e \<Rightarrow> flushLoop_log cr drv wr enq (Suc i) userID ms w
      | Inr raw \<Rightarrow>
          if wr i then flushLoop_log cr drv wr enq (Suc i) userID ms w
          else reenqueue_log cr drv enq 0 userID (m # ms) w)"

definition FlushQueue_log :: "crypto \<Rightarrow> sqliteDriver \<Rightarrow> flushEnv \<Rightarrow> Store \<times> fs \<Rightarrow> string \<Rightarrow> logLine list" where
  "FlushQueue_log cr drv env w userID =
     DrainQueue_log cr drv (fl_drain env) w userID @
     (case DrainQueue cr drv (fl_drain env) w userID of (msgs, w') \<Rightarrow>
        flushLoop_log cr drv (fl_write env) (fl_enq env) 0 userID msgs w')"

section \<open>The server\<close>

text \<open>The authenticator of a server: its limiter, and whether its trace is on.\<close>

definition authenticator :: "bool \<Rightarrow> Server \<Rightarrow> Authenticator" where
  "authenticator debug sv = \<lparr>a_limiter = sv_auth sv, a_hasLog = True, a_debug = debug\<rparr>"

definition openConn_log :: "crypto \<Rightarrow> sqliteDriver \<Rightarrow> authEnv \<Rightarrow> flushEnv \<Rightarrow> bool \<Rightarrow> Server \<times> fs \<Rightarrow> conn \<Rightarrow> string
    \<Rightarrow> logLine list" where
  "openConn_log cr drv aenv fenv debug w c remoteAddr =
     (case w of (sv, disk) \<Rightarrow>
      let ip = ExtractIP remoteAddr in
      Authenticate_log cr aenv (authenticator debug sv) ip @
      (case fst (Authenticate cr aenv (sv_auth sv) ip) of
         None \<Rightarrow> [line LevelWarn ''auth failed'']
       | Some uid \<Rightarrow>
           let userID = normalizeUser (RelayID (sv_cfg sv)) uid in
           FlushQueue_log cr drv fenv (snd (Register (sv_store sv) userID c), disk) userID))"

text \<open>
  The line for a certificate that cannot be issued is left out: the certificate is made of
  strings and integers, for which \<^verbatim>\<open>json.Marshal\<close> does not fail.
\<close>

definition handleAuthedFrame_log :: "crypto \<Rightarrow> sqliteDriver \<Rightarrow> frameEnv \<Rightarrow> Server \<times> fs \<Rightarrow> string \<Rightarrow> bytes
    \<Rightarrow> logLine list" where
  "handleAuthedFrame_log cr drv env w userID data =
     (case w of (sv, disk) \<Rightarrow>
      case unmarshalHeader data of (err, typ) \<Rightarrow>
        if \<not> err \<and> typ = ''request_sender_cert'' then []
        else if typ = ''register_prekeys''
        then (case unmarshalBundleMsg data of
                (True, _) \<Rightarrow> []
              | (False, bundle) \<Rightarrow>
                  registerBundle_log cr (fr_persist env) (sv_prekeys sv, disk) userID bundle @
                  (if fst (registerBundle cr (fr_persist env) (sv_prekeys sv, disk) userID bundle) \<noteq> None
                   then [classLine LevelWarn ''prekey register rejected'' ''validate'']
                   else [line LevelDebug ''prekey bundle registered'']))
        else Route_log cr drv (fr_now env) (fr_deliver env) (sv_router sv) (sv_store sv, disk) userID data)"

text \<open>\<open>werr\<close> is the error of writing the response.\<close>

definition handlePrekeysGet_log :: "crypto \<Rightarrow> time \<Rightarrow> persistEnv \<Rightarrow> goErr option \<Rightarrow> Server \<times> fs \<Rightarrow> request
    \<Rightarrow> logLine list" where
  "handlePrekeysGet_log cr now env werr w r =
     (case w of (sv, disk) \<Rightarrow>
      if rq_method r \<noteq> ''GET'' then []
      else
        let userID = trimPrefix (rq_path r) ''/prekeys/'' in
        if userID = [] \<or> containsAny userID ''/?#'' then []
        else
          let consumeOTPK = fst (rateLimiter_allow (sv_prekeyLimiter sv) userID now) in
          getBundleWithOTPK_log cr env (sv_prekeys sv, disk) userID consumeOTPK @
          (case map_of (ps_bundles (sv_prekeys sv)) userID of
             None \<Rightarrow> []
           | Some b \<Rightarrow> logErr ''prekey response write failed'' werr))"

definition handleSealedCA_log :: "goErr option \<Rightarrow> request \<Rightarrow> logLine list" where
  "handleSealedCA_log werr r =
     (if rq_method r \<noteq> ''GET'' then [] else logErr ''sealed-ca response write failed'' werr)"

definition handleFederationDeliver_log :: "crypto \<Rightarrow> sqliteDriver \<Rightarrow> deliverEnv \<Rightarrow> Server \<times> fs \<Rightarrow> request
    \<Rightarrow> logLine list" where
  "handleFederationDeliver_log cr drv env w r =
     (case w of (sv, disk) \<Rightarrow>
      if rq_method r \<noteq> ''POST'' \<or> rq_relayID r = [] then []
      else (case decodeFirst decSealed zeroSealed (rq_body r) of (err, sealed) \<Rightarrow>
        if err \<or> se_RecipientID sealed = [] \<or> length (se_Ciphertext sealed) = 0 then []
        else
          let parts = splitN2 CHR ''@'' (se_RecipientID sealed) in
          if length parts = 2 \<and> \<not> isLocalRelay (parts ! 1) (RelayID (sv_cfg sv)) then []
          else deliver_log cr drv env (sv_router sv) (sv_store sv, disk) (parts ! 0)
            \<lparr>qm_Sealed = Some (sealed\<lparr>se_FederationSenderRelay := rq_relayID r\<rparr>), qm_Open = None, qm_ExpiresAt = 0\<rparr>))"

text \<open>The other lines of a connection: a failed upgrade, the end of reading, a panic.\<close>

definition upgrade_log :: "bool \<Rightarrow> logLine list" where
  "upgrade_log accepted = (if accepted then [] else [classLine LevelWarn ''ws upgrade failed'' ''upgrade''])"

definition readEnd_log :: "wsErr \<Rightarrow> logLine list" where
  "readEnd_log err = [classLine LevelDebug ''read end'' (classifyWSErr (Some err))]"

definition panic_log :: "bool \<Rightarrow> logLine list" where
  "panic_log panics = (if panics then [classLine LevelError ''connection panic'' ''panic''] else [])"

definition Run_log :: "Config \<Rightarrow> runEnd \<Rightarrow> logLine list" where
  "Run_log cfg ending =
     \<lparr>ll_level = LevelInfo, ll_msg = ''relay starting'', ll_attrs = [(''config'', StrVal (SafeSummary cfg))]\<rparr> #
     (case ending of Cancelled e \<Rightarrow> [line LevelInfo ''relay shutdown initiated''] | _ \<Rightarrow> [])"

section \<open>The program\<close>

text \<open>The banner on standard error; 8212 is the dash of the warning.\<close>

definition banner :: "Config \<Rightarrow> string list" where
  "banner cfg =
     [replicate 46 CHR ''='', ''spectre-relay'', SafeSummary cfg] @
     (if DevMode cfg then [''WARNING: dev mode enabled '' @ utf8_enc 8212 @ '' DO NOT USE IN PRODUCTION''] else []) @
     [replicate 46 CHR ''='']"

text \<open>\<^verbatim>\<open>main\<close> with all its output: standard error, the log before the handler, the exit status.\<close>

definition main_output :: "crypto \<Rightarrow> sqliteDriver \<Rightarrow> storeEnv \<Rightarrow> prekeyEnv \<Rightarrow> caEnv \<Rightarrow> fs \<Rightarrow> (string \<Rightarrow> string)
    \<Rightarrow> runEnd \<Rightarrow> string list \<times> logLine list \<times> int" where
  "main_output cr drv senv penv cenv disk env ending =
     (case Load env of
        Inl e \<Rightarrow> ([], [classLine LevelError ''config load failed'' ''config''], 1)
      | Inr cfg \<Rightarrow>
          (banner cfg,
           case fst (New cr drv senv penv cenv disk cfg) of
             Inl e \<Rightarrow> ([classLine LevelError ''server init failed'' ''init''], 1)
           | Inr sv \<Rightarrow>
               (case fst (Run ending sv) of
                  Some e \<Rightarrow> (Run_log cfg ending @ [classLine LevelError ''server exit'' ''run''], 1)
                | None \<Rightarrow> (Run_log cfg ending @ [line LevelInfo ''relay stopped cleanly''], 0))))"

section \<open>The vocabulary of the log\<close>

definition errorTexts :: "string list" where
  "errorTexts = [''queue delete expired failed'', ''queue count failed'', ''queue encrypt failed'',
     ''queue insert failed'', ''queue persist failed'', ''queue tx begin failed'', ''queue query failed'',
     ''queue scan failed'', ''queue decrypt failed'', ''queue unmarshal failed'', ''queue delete failed'',
     ''queue commit failed'', ''queue purge failed'', ''prekey persist failed'',
     ''prekey response write failed'', ''sealed-ca response write failed'']"

definition errClasses :: "string list" where
  "errClasses = [''not_exist'', ''permission'', ''io'']"

definition traceTexts :: "string list" where
  "traceTexts = [''auth: rate limit check passed'', ''auth: nonce generated'', ''auth: challenge sent'',
     ''auth: pub key decoded'', ''auth: sig decoded'', ''auth: signature FAILED'', ''auth: signature verified'']"

definition fixedLines :: "logLine list" where
  "fixedLines =
     [line LevelWarn ''auth failed'', line LevelDebug ''prekey bundle registered'',
      classLine LevelWarn ''prekey register rejected'' ''validate'',
      classLine LevelWarn ''ws upgrade failed'' ''upgrade'',
      classLine LevelError ''connection panic'' ''panic'',
      classLine LevelDebug ''read end'' ''ctx'', classLine LevelDebug ''read end'' ''net'',
      classLine LevelDebug ''read end'' ''ws'']"

definition lengthsLine :: "nat \<Rightarrow> nat \<Rightarrow> nat \<Rightarrow> logLine" where
  "lengthsLine a b c = \<lparr>ll_level = LevelDebug, ll_msg = ''auth: request received'',
     ll_attrs = [(''user_id_len'', IntVal (int a)), (''pub_key_len'', IntVal (int b)), (''sig_len'', IntVal (int c))]\<rparr>"

definition safe_line :: "logLine \<Rightarrow> bool" where
  "safe_line l \<longleftrightarrow> (\<exists>m \<in> set errorTexts. \<exists>t \<in> set errClasses. l = classLine LevelError m t)
     \<or> (\<exists>m \<in> set traceTexts. l = line LevelDebug m) \<or> l \<in> set fixedLines \<or> (\<exists>a b c. l = lengthsLine a b c)"

abbreviation safe_log :: "logLine list \<Rightarrow> bool" where
  "safe_log \<equiv> list_all safe_line"

lemma classifyErr_class: "classifyErr (Some e) \<in> set errClasses"
  by (cases e) (simp_all add: classifyErr_def errClasses_def)

lemma safe_errLine: "m \<in> set errorTexts \<Longrightarrow> safe_line (errLine m e)"
  using classifyErr_class [of e] by (auto simp: safe_line_def errLine_def)

lemma safe_logErr: "m \<in> set errorTexts \<Longrightarrow> safe_log (logErr m e)"
  by (cases e) (simp_all add: logErr_def safe_errLine)

lemma safe_fixed: "l \<in> set fixedLines \<Longrightarrow> safe_line l"
  by (simp add: safe_line_def)

lemma safe_dbg: "m \<in> set traceTexts \<Longrightarrow> safe_log (dbg a m [])"
  by (auto simp: dbg_def safe_line_def line_def)

lemma safe_lengths:
  "safe_log (dbg a ''auth: request received''
     [(''user_id_len'', IntVal (int k)), (''pub_key_len'', IntVal (int m)), (''sig_len'', IntVal (int n))])"
  by (auto simp: dbg_def safe_line_def lengthsLine_def)

lemmas safe_parts = safe_errLine safe_logErr safe_dbg safe_lengths safe_fixed

lemma safe_Enqueue: "safe_log (Enqueue_log cr drv env w rid m)"
  by (auto simp: Enqueue_log_def Let_def safe_parts errorTexts_def split: prod.split sum.split)

lemma safe_drainRows: "safe_log (drainRows_log cr key now scan i rows)"
  by (induction cr key now scan i rows rule: drainRows_log.induct)
    (auto simp: safe_parts errorTexts_def split: sum.split)

lemma safe_DrainQueue: "safe_log (DrainQueue_log cr drv env w rid)"
  by (auto simp: DrainQueue_log_def Let_def safe_drainRows safe_parts errorTexts_def split: prod.split)

lemma safe_store: "safe_log (QueuedMessages_log fault s)" "safe_log (purgeExpired_log cr drv env w)"
  by (auto simp: QueuedMessages_log_def purgeExpired_log_def safe_parts errorTexts_def split: prod.split)

lemma safe_prekeys: "safe_log (registerBundle_log cr env w u b)" "safe_log (getBundleWithOTPK_log cr env w u c)"
  by (auto simp: registerBundle_log_def getBundleWithOTPK_log_def safe_parts errorTexts_def
      split: prod.split option.split bool.split list.split)

lemma safe_Authenticate: "safe_log (Authenticate_log cr env a ip)"
  by (auto simp: Authenticate_log_def request_log_def Let_def safe_parts traceTexts_def
      split: option.split prod.split bool.split)

lemma safe_deliver: "safe_log (deliver_log cr drv env r w rid m)"
  by (auto simp: deliver_log_def deliverLocal_log_def safe_Enqueue split: list.split option.split sum.split)

lemma safe_Route: "safe_log (Route_log cr drv now env r w u p)"
  by (auto simp: Route_log_def safe_deliver split: prod.split bool.split option.split)

lemma safe_reenqueue: "safe_log (reenqueue_log cr drv enq j u ms w)"
  by (induction cr drv enq j u ms w rule: reenqueue_log.induct) (simp_all add: safe_Enqueue)

lemma safe_flushLoop: "safe_log (flushLoop_log cr drv wr enq i u ms w)"
  by (induction cr drv wr enq i u ms w rule: flushLoop_log.induct)
    (simp_all add: safe_reenqueue safe_Enqueue split: sum.split)

lemma safe_FlushQueue: "safe_log (FlushQueue_log cr drv env w u)"
  by (simp add: FlushQueue_log_def safe_DrainQueue safe_flushLoop split: prod.split)

text \<open>
  Everything that the handlers, the connections and the purge of the running relay do that
  can log; \<open>Run_log\<close> has the lines of \<^verbatim>\<open>Run\<close> itself.
\<close>

datatype work =
    Upgrade bool
  | OpenConn authEnv flushEnv bool conn string
  | Frame frameEnv string bytes
  | ReadEnd wsErr
  | Panic bool
  | GetPrekeys time persistEnv "goErr option" request
  | GetCA "goErr option" request
  | PostFederation deliverEnv request
  | PurgeTick purgeEnv
  | CountQueued "goErr option"

fun work_log :: "crypto \<Rightarrow> sqliteDriver \<Rightarrow> Server \<times> fs \<Rightarrow> work \<Rightarrow> logLine list" where
  "work_log cr drv w (Upgrade accepted) = upgrade_log accepted"
| "work_log cr drv w (OpenConn aenv fenv debug c addr) = openConn_log cr drv aenv fenv debug w c addr"
| "work_log cr drv w (Frame env u data) = handleAuthedFrame_log cr drv env w u data"
| "work_log cr drv w (ReadEnd err) = readEnd_log err"
| "work_log cr drv w (Panic panics) = panic_log panics"
| "work_log cr drv w (GetPrekeys now env werr r) = handlePrekeysGet_log cr now env werr w r"
| "work_log cr drv w (GetCA werr r) = handleSealedCA_log werr r"
| "work_log cr drv w (PostFederation env r) = handleFederationDeliver_log cr drv env w r"
| "work_log cr drv w (PurgeTick env) = purgeExpired_log cr drv env (sv_store (fst w), snd w)"
| "work_log cr drv w (CountQueued fault) = QueuedMessages_log fault (sv_store (fst w))"

lemma safe_conn: "safe_log (upgrade_log b)" "safe_log (readEnd_log e)" "safe_log (panic_log p)"
  by (simp add: upgrade_log_def safe_fixed fixedLines_def)
    (cases e, simp_all add: readEnd_log_def classifyWSErr_def panic_log_def safe_fixed fixedLines_def)

lemma safe_openConn: "safe_log (openConn_log cr drv aenv fenv debug w c addr)"
  by (simp add: openConn_log_def Let_def safe_Authenticate safe_FlushQueue safe_fixed fixedLines_def
      split: prod.split option.split)

lemma safe_frame: "safe_log (handleAuthedFrame_log cr drv env w u data)"
  by (simp add: handleAuthedFrame_log_def safe_prekeys safe_Route safe_fixed fixedLines_def split: prod.split bool.split)

lemma safe_http:
  "safe_log (handlePrekeysGet_log cr now env werr w r)" "safe_log (handleSealedCA_log werr r)"
  "safe_log (handleFederationDeliver_log cr drv denv w r)"
  by (simp_all add: handlePrekeysGet_log_def handleSealedCA_log_def handleFederationDeliver_log_def Let_def
      safe_prekeys safe_deliver safe_logErr errorTexts_def split: prod.split option.split)

lemma safe_work: "safe_log (work_log cr drv w k)"
  by (cases k) (simp_all add: safe_conn safe_openConn safe_frame safe_http safe_store)

section \<open>The trace of the handshake\<close>

lemma quiet_dbg: "\<not> a_debug a \<Longrightarrow> dbg a m args = []"
  by (simp add: dbg_def)

lemma quiet_Authenticate: "\<not> a_debug a \<Longrightarrow> Authenticate_log cr env a ip = []"
  by (simp add: Authenticate_log_def request_log_def quiet_dbg Let_def split: option.split prod.split bool.split)

lemma dbg_alike: "a_debug a = a_debug b \<Longrightarrow> a_hasLog a = a_hasLog b \<Longrightarrow> dbg a = dbg b"
  by (simp add: dbg_def fun_eq_iff)

lemma debug_passes: "a_debug a \<Longrightarrow> emitted LevelDebug ls = ls"
proof -
  have "LevelDebug \<le> lv" for lv by (cases lv) (simp_all add: less_eq_level_def)
  then show ?thesis by (simp add: emitted_def)
qed

section \<open>Silence means success\<close>

lemma logErr_silent: "logErr msg e = [] \<longleftrightarrow> e = None"
  by (simp add: logErr_def split: option.split)

lemma Enqueue_silent:
  assumes "Enqueue_log cr drv env (s, d) rid m = []"
    and "sqlCountFor rid (sqlDeleteExpiredFor rid (ee_epoch env) (st_db s)) < maxQueuePerRecipient"
  obtains c db2 where "\<not> st_stopped s" "ee_delete env = None" "ee_count env = None" "ee_insert env = None"
    "encrypt cr (st_key s) (ee_rand env) (marshalMessage (m\<lparr>qm_ExpiresAt := expiry env s\<rparr>)) = Inr c"
    "sqlInsert rid c (expiry env s) (sqlDeleteExpiredFor rid (ee_epoch env) (st_db s)) = Inr db2"
    "fst (store_persistLocked cr drv (ee_persist env) (s\<lparr>st_db := db2\<rparr>) d) = None"
proof -
  have g: "\<not> st_stopped s" "ee_delete env = None" "ee_count env = None"
    using assms by (auto simp: Enqueue_log_def logErr_silent Let_def split: if_splits)
  then obtain c where c: "encrypt cr (st_key s) (ee_rand env) (marshalMessage (m\<lparr>qm_ExpiresAt := expiry env s\<rparr>)) = Inr c"
    "ee_insert env = None"
    using assms by (auto simp: Enqueue_log_def logErr_silent expiry_def Let_def split: if_splits sum.splits)
  with g assms that show ?thesis
    by (auto simp: Enqueue_log_def logErr_silent expiry_def Let_def split: sum.splits)
qed

section \<open>Properties\<close>

text \<open>
  C17: The log reveals nothing of what is relayed or of who relays it: whatever a client, an
  unauthenticated caller, another relay, the disk or the database supplies, every line that a
  handler, a connection or the purge logs is one of a fixed list of texts with at most an
  error class from a fixed list, or the debug line with three lengths.  No user id, address,
  key or payload can occur in it.  (The lines of \<^verbatim>\<open>Run\<close> itself, which name the relay's own
  listening addresses, are in \<open>Run_log\<close>; what \<^verbatim>\<open>net/http\<close> writes to its own error log is not
  the relay's.)
\<close>

theorem logs_reveal_nothing:
  assumes "l \<in> set (work_log cr drv w k)"
  shows "(\<exists>m \<in> set errorTexts. \<exists>t \<in> set errClasses. l = classLine LevelError m t)
    \<or> (\<exists>m \<in> set traceTexts. l = line LevelDebug m) \<or> l \<in> set fixedLines \<or> (\<exists>a b c. l = lengthsLine a b c)"
  using safe_work [of cr drv w k] assms by (simp add: list_all_iff safe_line_def)

text \<open>
  The trace of the handshake does not depend on who connects: two requests with the same
  lengths and the same outcome of the verification give the same lines, whatever the user
  ids, keys, signatures, nonces and addresses are.
\<close>

theorem handshake_log_blind:
  assumes "au_reply env1 = Some (marshalAuthRequest q1)" "request_wf q1"
    and "au_reply env2 = Some (marshalAuthRequest q2)" "request_wf q2"
    and "fst (authLimiter_allow (a_limiter a1) ip1 (au_now env1)) = fst (authLimiter_allow (a_limiter a2) ip2 (au_now env2))"
    and "length (au_rand env1) = length (au_rand env2)" "au_challenge env1 = au_challenge env2"
    and "a_debug a1 = a_debug a2" "a_hasLog a1 = a_hasLog a2"
    and "length (ar_UserID q1) = length (ar_UserID q2)"
    and "length (fst (b64_decode (ar_IdentityPublicKey q1))) = length (fst (b64_decode (ar_IdentityPublicKey q2)))"
    and "length (fst (b64_decode (ar_Signature q1))) = length (fst (b64_decode (ar_Signature q2)))"
    and "edVerify cr (fst (b64_decode (ar_IdentityPublicKey q1))) (take 32 (au_rand env1)) (fst (b64_decode (ar_Signature q1)))
       = edVerify cr (fst (b64_decode (ar_IdentityPublicKey q2))) (take 32 (au_rand env2)) (fst (b64_decode (ar_Signature q2)))"
  shows "Authenticate_log cr env1 a1 ip1 = Authenticate_log cr env2 a2 ip2"
  using assms by (simp add: Authenticate_log_def request_log_def unmarshal_marshalAuthRequest dbg_alike [of a1 a2] Let_def)

text \<open>
  The debug trace and the log handler are switched together: with SPECTRE_DEBUG set to
  true every line of the trace reaches standard output, otherwise there is none.
\<close>

theorem debug_lockstep:
  assumes "a = (NewAuthenticator env True)\<lparr>a_limiter := l\<rparr>"
  shows "emitted (handlerLevel env) (Authenticate_log cr aenv a ip) = Authenticate_log cr aenv a ip
    \<and> (env ''SPECTRE_DEBUG'' \<noteq> ''true'' \<longrightarrow> Authenticate_log cr aenv a ip = [])"
proof (cases "a_debug a")
  case True
  with assms have "handlerLevel env = LevelDebug" "env ''SPECTRE_DEBUG'' = ''true''"
    by (simp_all add: NewAuthenticator_def handlerLevel_def)
  with debug_passes [OF True] show ?thesis by simp
next
  case False
  with quiet_Authenticate show ?thesis by (simp add: emitted_def)
qed

text \<open>
  C38: No message is lost in silence except to the cap: if storing a message logs nothing
  and the mailbox is not full, then the message is in the mailbox, encrypted, after the
  ones that had not expired, and the queue file holds a complete image of that state.
\<close>

theorem enqueue_failures_logged:
  assumes "store_wf s" "Enqueue cr drv env (s, d) rid m = (s', d')" "Enqueue_log cr drv env (s, d) rid m = []"
    and "sqlCountFor rid (sqlDeleteExpiredFor rid (ee_epoch env) (st_db s)) < maxQueuePerRecipient"
  shows "(\<exists>c. encrypt cr (st_key s) (ee_rand env) (marshalMessage (m\<lparr>qm_ExpiresAt := expiry env s\<rparr>)) = Inr c
      \<and> mailbox (st_db s') rid = filter (\<lambda>(p, x). ee_epoch env \<le> x) (mailbox (st_db s) rid) @ [(c, expiry env s)])
    \<and> (\<exists>b. store_image cr drv s' b \<and> d' (st_queuePath s) = Some \<lparr>fdata = b, fmode = mode0600\<rparr>)"
proof -
  let ?db1 = "sqlDeleteExpiredFor rid (ee_epoch env) (st_db s)"
  have twf: "table_wf (st_db s)" using assms(1) by (simp add: store_wf_def)
  obtain c db2 where e: "\<not> st_stopped s" "ee_delete env = None" "ee_count env = None" "ee_insert env = None"
    and c: "encrypt cr (st_key s) (ee_rand env) (marshalMessage (m\<lparr>qm_ExpiresAt := expiry env s\<rparr>)) = Inr c"
    and db2: "sqlInsert rid c (expiry env s) ?db1 = Inr db2"
    and p: "fst (store_persistLocked cr drv (ee_persist env) (s\<lparr>st_db := db2\<rparr>) d) = None"
    by (rule Enqueue_silent [OF assms(3,4)])
  from assms(2,4) e c db2 have s': "s' = s\<lparr>st_db := db2\<rparr>"
    "d' = snd (store_persistLocked cr drv (ee_persist env) (s\<lparr>st_db := db2\<rparr>) d)"
    by (auto simp: Enqueue_def expiry_def Let_def)
  with p have p: "store_persistLocked cr drv (ee_persist env) s' d = (None, d')" by (simp add: prod_eq_iff)
  have "mailbox db2 rid = filter (\<lambda>(p, x). ee_epoch env \<le> x) (mailbox (st_db s) rid) @ [(c, expiry env s)]"
    using qt.box_insert [OF qt.wf_expire_for [OF twf] db2, of rid] qt.box_expire_for [OF twf] by simp
  with c sq.persist_ok [OF p] s' show ?thesis by simp
qed

text \<open>The exit status printed with the output is the one of \<open>main\<close>.\<close>

lemma main_output_status: "snd (snd (main_output cr drv senv penv cenv disk env ending)) = main cr drv senv penv cenv disk env ending"
  by (simp add: main_output_def main_def split: sum.split option.split)

text \<open>
  A bundle whose save fails is in memory and served, and yet logged as rejected by
  validation.
\<close>

lemma save_failure_logged_as_rejection:
  assumes "bundle_ok b" "u \<noteq> []" "handleAuthedFrame cr drv env (sv, d) u c (upload b) = (acts, sv1, d1)"
    and "fst (prekey_persistLocked cr (fr_persist env)
        ((sv_prekeys sv)\<lparr>ps_bundles := gm_put u (copyBundle b) (ps_bundles (sv_prekeys sv))\<rparr>) d) = Some e"
  shows "map_of (ps_bundles (sv_prekeys sv1)) u = Some (copyBundle b)
    \<and> handleAuthedFrame_log cr drv env (sv, d) u (upload b)
      = [errLine ''prekey persist failed'' e, classLine LevelWarn ''prekey register rejected'' ''validate'']"
proof -
  obtain ps where "sv1 = sv\<lparr>sv_prekeys := ps\<rparr>" "map_of (ps_bundles ps) u = Some (copyBundle b)"
    by (rule upload_registers [OF assms(1-3)])
  moreover have "validatePrekeyBundle (asDecoded b) = None" using assms(1) by (simp add: validate_iff)
  ultimately show ?thesis
    using assms(2,4) upload_decodes [OF bundle_ok_utf8 [OF assms(1)]]
    by (simp add: handleAuthedFrame_log_def registerBundle_log_def registerBundle_def logErr_def Let_def split_beta)
qed

section \<open>Witnesses\<close>

theorem logs_reveal_nothing_witness:
  "line LevelWarn ''auth failed'' \<in> set (work_log plainCrypto demo_drv (demo_server, Map.empty)
      (OpenConn ((demo_auth (honest_request plainCrypto demo_seed ''alice'' demo_nonce))\<lparr>au_reply := None\<rparr>) demo_flush False 7 ''ip''))
   \<and> line LevelWarn ''auth failed'' \<in> set fixedLines"
proof -
  let ?k = "OpenConn ((demo_auth (honest_request plainCrypto demo_seed ''alice'' demo_nonce))\<lparr>au_reply := None\<rparr>) demo_flush False 7 ''ip''"
  have "fst (Authenticate plainCrypto ((demo_auth (honest_request plainCrypto demo_seed ''alice'' demo_nonce))\<lparr>au_reply := None\<rparr>)
      (sv_auth demo_server) (ExtractIP ''ip'')) = None"
    by (simp add: Authenticate_def Let_def split: prod.split bool.split)
  then have l: "line LevelWarn ''auth failed'' \<in> set (work_log plainCrypto demo_drv (demo_server, Map.empty) ?k)"
    by (simp add: openConn_log_def Let_def)
  with logs_reveal_nothing [OF l] show ?thesis by (auto simp: line_def classLine_def lengthsLine_def)
qed

theorem debug_lockstep_witness:
  "emitted LevelInfo (Authenticate_log plainCrypto (demo_auth (honest_request plainCrypto demo_seed ''alice'' demo_nonce))
     ((NewAuthenticator (\<lambda>_. []) True)\<lparr>a_limiter := newAuthLimiter\<rparr>) ''ip'') = []"
  using debug_lockstep [OF refl, of "\<lambda>_. []" plainCrypto
      "demo_auth (honest_request plainCrypto demo_seed ''alice'' demo_nonce)" newAuthLimiter "''ip''"]
  by (simp add: handlerLevel_def emitted_def)

theorem enqueue_failures_logged_witness:
  "Enqueue_log plainCrypto demo_drv demo_enq (demo_store, Map.empty) ''bob'' demo_msg = []
   \<and> (\<exists>c. mailbox (st_db (fst (Enqueue plainCrypto demo_drv demo_enq (demo_store, Map.empty) ''bob'' demo_msg))) ''bob''
       = [(c, expiry demo_enq demo_store)])"
proof -
  obtain s' d' where e: "Enqueue plainCrypto demo_drv demo_enq (demo_store, Map.empty) ''bob'' demo_msg = (s', d')"
    by (cases "Enqueue plainCrypto demo_drv demo_enq (demo_store, Map.empty) ''bob'' demo_msg")
  have count: "sqlCountFor ''bob'' (sqlDeleteExpiredFor ''bob'' (ee_epoch demo_enq) (st_db demo_store)) < maxQueuePerRecipient"
    using demo_box demo_wf(1) by (simp add: qt.count_box qt.box_expire_for store_wf_def maxQueuePerRecipient_def)
  have log: "Enqueue_log plainCrypto demo_drv demo_enq (demo_store, Map.empty) ''bob'' demo_msg = []"
  proof -
    obtain d1 where "store_persistLocked plainCrypto demo_drv demo_persist (demo_store\<lparr>st_db := demo_db\<rparr>) Map.empty = (None, d1)"
      using demo_save [of "demo_store\<lparr>st_db := demo_db\<rparr>" Map.empty] demo_serialize(2) by (auto simp: demo_store_def)
    with demo_insert demo_expiry show ?thesis
      by (simp add: Enqueue_log_def Let_def expiry_def logErr_silent) (simp add: demo_enq_def demo_store_def logErr_silent)
  qed
  from enqueue_failures_logged [OF demo_wf(1) e log count] log e demo_box show ?thesis by auto
qed

end
