(* ===== verification/Loops.thy ===== *)
theory Loops
  imports Server_Props
begin

text \<open>
  The two loops of the relay that run until the world stops them, as loops that may run
  for ever: the purge goroutine (\<^verbatim>\<open>Store.purgeLoop\<close>) and the read loop of a connection
  (\<^verbatim>\<open>Server.serveConn\<close>).  What the world does is an infinite sequence of events; \<open>None\<close> is
  the value of a loop that never returns.

  Shown: each loop returns exactly if its end event occurs, and then does what the
  definitions over finite lists in theories \<open>Store\<close> and \<open>Server\<close> do on the events before
  the first one; and a connection that ends leaves no registration behind.
\<close>

section \<open>First events\<close>

text \<open>\<open>first_at P ev n\<close>: the first event that satisfies \<open>P\<close> is the \<open>n\<close>-th.\<close>

definition first_at :: "('e \<Rightarrow> bool) \<Rightarrow> (nat \<Rightarrow> 'e) \<Rightarrow> nat \<Rightarrow> bool" where
  "first_at P ev n \<longleftrightarrow> P (ev n) \<and> (\<forall>i < n. \<not> P (ev i))"

lemma first_at_0: "first_at P ev 0 \<longleftrightarrow> P (ev 0)"
  by (simp add: first_at_def)

lemma first_at_Suc: "first_at P ev (Suc n) \<longleftrightarrow> \<not> P (ev 0) \<and> first_at P (\<lambda>i. ev (Suc i)) n"
  unfolding first_at_def using less_Suc_eq_0_disj by auto

section \<open>The purge goroutine\<close>

text \<open>Each round of the \<^verbatim>\<open>select\<close>: a tick with its purge, or the stop channel (\<open>None\<close>).\<close>

partial_function (option) purgeLoop_run :: "crypto \<Rightarrow> sqliteDriver \<Rightarrow> (nat \<Rightarrow> purgeEnv option) \<Rightarrow> Store \<times> fs
    \<Rightarrow> (Store \<times> fs) option" where
  "purgeLoop_run cr drv ev w =
     (case ev 0 of
        None \<Rightarrow> Some w
      | Some env \<Rightarrow> purgeLoop_run cr drv (\<lambda>i. ev (Suc i)) (purgeExpired cr drv env w))"

lemma purge_returns: "first_at (\<lambda>e. e = None) ev n \<Longrightarrow> purgeLoop_run cr drv ev w = Some (purgeLoop cr drv (map ev [0..<n]) w)"
proof (induction n arbitrary: ev w)
  case 0
  then show ?case by (simp add: first_at_0 purgeLoop_run.simps)
next
  case (Suc n)
  then obtain env where e: "ev 0 = Some env" "first_at (\<lambda>e. e = None) (\<lambda>i. ev (Suc i)) n"
    by (auto simp: first_at_Suc)
  have "map ev [0..<Suc n] = Some env # map (\<lambda>i. ev (Suc i)) [0..<n]"
    using e(1) by (simp add: upt_conv_Cons map_Suc_upt [symmetric] del: upt_Suc map_Suc_upt)
  with Suc.IH [OF e(2)] e(1) show ?case by (subst purgeLoop_run.simps) simp
qed

lemma purge_stops:
  assumes "purgeLoop_run cr drv ev w = Some w'"
  shows "\<exists>k. ev k = None"
  using assms
proof (rule purgeLoop_run.raw_induct [of "\<lambda>cr drv ev w r. \<exists>k. ev k = None", rotated])
  fix run cr drv ev w r
  assume IH: "\<And>cr drv ev w r. run cr drv ev w = Some r \<Longrightarrow> \<exists>k. ev k = None"
    and eq: "(case ev 0 of None \<Rightarrow> Some w | Some env \<Rightarrow> run cr drv (\<lambda>i. ev (Suc i)) (purgeExpired cr drv env w)) = Some r"
  show "\<exists>k. ev k = None"
  proof (cases "ev 0")
    case (Some env)
    with eq have "run cr drv (\<lambda>i. ev (Suc i)) (purgeExpired cr drv env w) = Some r" by simp
    from IH [OF this] show ?thesis by blast
  qed blast
qed

section \<open>The read loop\<close>

datatype readEvent = Got frameType bytes frameEnv | ReadFailed wsErr

fun failed :: "readEvent \<Rightarrow> bool" where
  "failed (ReadFailed e) = True"
| "failed (Got typ data env) = False"

partial_function (option) readLoop_run :: "crypto \<Rightarrow> sqliteDriver \<Rightarrow> (nat \<Rightarrow> readEvent) \<Rightarrow> string \<Rightarrow> conn
    \<Rightarrow> action list \<Rightarrow> Server \<times> fs \<Rightarrow> (action list \<times> Server \<times> fs) option" where
  "readLoop_run cr drv ev userID c acts w =
     (case ev 0 of
        ReadFailed e \<Rightarrow> Some (acts, w)
      | Got typ data env \<Rightarrow>
          if typ \<noteq> MessageText \<and> typ \<noteq> MessageBinary
          then readLoop_run cr drv (\<lambda>i. ev (Suc i)) userID c acts w
          else (case handleAuthedFrame cr drv env w userID c data of (acts', w') \<Rightarrow>
                  readLoop_run cr drv (\<lambda>i. ev (Suc i)) userID c (acts @ acts') w'))"

text \<open>The frames read before the \<open>n\<close>-th event.\<close>

fun frame_of_event :: "readEvent \<Rightarrow> (frameType \<times> bytes \<times> frameEnv) list" where
  "frame_of_event (Got typ data env) = [(typ, data, env)]"
| "frame_of_event (ReadFailed e) = []"

definition frames_before :: "(nat \<Rightarrow> readEvent) \<Rightarrow> nat \<Rightarrow> (frameType \<times> bytes \<times> frameEnv) list" where
  "frames_before ev n = concat (map (frame_of_event \<circ> ev) [0..<n])"

lemma frames_before_Suc: "frames_before ev (Suc n) = frame_of_event (ev 0) @ frames_before (\<lambda>i. ev (Suc i)) n"
  unfolding frames_before_def by (simp add: upt_conv_Cons map_Suc_upt [symmetric] comp_def del: upt_Suc map_Suc_upt)

lemma read_returns:
  "first_at failed ev n \<Longrightarrow> readLoop_run cr drv ev u c acts w
     = Some (case readLoop cr drv (frames_before ev n) u c w of (acts', w') \<Rightarrow> (acts @ acts', w'))"
proof (induction n arbitrary: ev acts w)
  case 0
  then obtain e where "ev 0 = ReadFailed e" by (cases "ev 0") (auto simp: first_at_0)
  then show ?case by (simp add: readLoop_run.simps frames_before_def)
next
  case (Suc n)
  then obtain ty dt env where e: "ev 0 = Got ty dt env" "first_at failed (\<lambda>i. ev (Suc i)) n"
    by (cases "ev 0") (auto simp: first_at_Suc)
  show ?case
    by (subst readLoop_run.simps) (simp add: e(1) frames_before_Suc Suc.IH [OF e(2)] split: prod.split)
qed

lemma read_stops:
  assumes "readLoop_run cr drv ev u c acts w = Some r"
  shows "\<exists>k. failed (ev k)"
  using assms
proof (rule readLoop_run.raw_induct [of "\<lambda>cr drv ev u c acts w r. \<exists>k. failed (ev k)", rotated])
  fix run cr drv ev u c acts w r
  assume IH: "\<And>cr drv ev u c acts w r. run cr drv ev u c acts w = Some r \<Longrightarrow> \<exists>k. failed (ev k)"
    and eq: "(case ev 0 of
        ReadFailed e \<Rightarrow> Some (acts, w)
      | Got typ data env \<Rightarrow>
          if typ \<noteq> MessageText \<and> typ \<noteq> MessageBinary then run cr drv (\<lambda>i. ev (Suc i)) u c acts w
          else (case handleAuthedFrame cr drv env w u c data of (acts', w') \<Rightarrow>
                  run cr drv (\<lambda>i. ev (Suc i)) u c (acts @ acts') w')) = Some r"
  show "\<exists>k. failed (ev k)"
  proof (cases "ev 0")
    case (Got ty dt env)
    with eq obtain acts' w' where "run cr drv (\<lambda>i. ev (Suc i)) u c acts' w' = Some r"
      by (auto split: if_splits prod.splits)
    from IH [OF this] show ?thesis by blast
  qed (metis failed.simps(1))
qed

text \<open>The whole life of a connection: \<open>None\<close> if its goroutine never returns.\<close>

definition serveConn_run :: "crypto \<Rightarrow> sqliteDriver \<Rightarrow> authEnv \<Rightarrow> flushEnv \<Rightarrow> (nat \<Rightarrow> readEvent) \<Rightarrow> Server \<times> fs
    \<Rightarrow> conn \<Rightarrow> string \<Rightarrow> (action list \<times> Server \<times> fs) option" where
  "serveConn_run cr drv aenv fenv ev w c remoteAddr =
     (case openConn cr drv aenv fenv w c remoteAddr of
        (None, acts, w') \<Rightarrow> Some (acts, w')
      | (Some userID, acts, w') \<Rightarrow>
          map_option (\<lambda>(acts', w''). (acts', closeConn w'' userID c)) (readLoop_run cr drv ev userID c acts w'))"

text \<open>
  The unbounded loop does what \<open>serveConn\<close> does on the frames before the first failed read.
\<close>

lemma connection_runs:
  "serveConn_run cr drv aenv fenv ev w c addr =
     (if fst (openConn cr drv aenv fenv w c addr) = None \<or> (\<exists>k. failed (ev k))
      then Some (serveConn cr drv aenv fenv (frames_before ev (LEAST k. failed (ev k))) w c addr)
      else None)"
proof -
  obtain res acts w' where o: "openConn cr drv aenv fenv w c addr = (res, acts, w')" by (metis prod_cases3)
  show ?thesis
  proof (cases res)
    case None
    with o show ?thesis by (simp add: serveConn_run_def serveConn_def)
  next
    case (Some u)
    show ?thesis
    proof (cases "\<exists>k. failed (ev k)")
      case True
      then have "first_at failed ev (LEAST k. failed (ev k))"
        unfolding first_at_def by (metis LeastI not_less_Least)
      from read_returns [OF this] True o Some show ?thesis
        by (simp add: serveConn_run_def serveConn_def split: prod.split)
    next
      case False
      then have "readLoop_run cr drv ev u c acts w' = None" using read_stops by (metis not_None_eq)
      with False o Some show ?thesis by (simp add: serveConn_run_def)
    qed
  qed
qed

section \<open>Registrations over the life of a connection\<close>

lemma reenqueue_clients: "st_clients (fst (reenqueue cr drv enq j u ms w)) = st_clients (fst w)"
  by (induction ms arbitrary: j w) (simp_all add: frame_simps)

lemma flushLoop_clients: "st_clients (fst (snd (flushLoop cr drv wr enq i u c ms w))) = st_clients (fst w)"
  by (induction ms arbitrary: i) (simp_all add: reenqueue_clients frame_simps split_beta split: sum.split)

lemma FlushQueue_clients:
  assumes "FlushQueue cr drv env w u c = (acts, w')"
  shows "st_clients (fst w') = st_clients (fst w)"
proof -
  obtain ms w1 where dr: "DrainQueue cr drv (fl_drain env) w u = (ms, w1)"
    by (cases "DrainQueue cr drv (fl_drain env) w u")
  then have "st_clients (fst w1) = st_clients (fst w)"
    by (auto simp: DrainQueue_def Let_def split: prod.splits if_splits)
  with flushLoop_clients [of cr drv "fl_write env" "fl_enq env" 0 u c ms w1] dr assms show ?thesis
    by (simp add: FlushQueue_def)
qed

lemma deliver_clients: "st_clients (fst (snd (deliver cr drv env r w rid m))) = st_clients (fst w)"
  by (cases rule: deliver_cases [of rid r cr drv env w m])
    (simp_all add: deliverLocal_def frame_simps split: option.split sum.split)

lemma handleAuthedFrame_clients:
  assumes "handleAuthedFrame cr drv env (sv, d) u c data = (acts, sv', d')"
  shows "st_clients (sv_store sv') = st_clients (sv_store sv)"
proof -
  have "st_clients s' = st_clients s" if "deliver cr drv denv r (s, d) rid m = (acts', s', d'')" for denv r s d rid m acts' s' d''
    using deliver_clients [of cr drv denv r "(s, d)" rid m] that by simp
  with assms show ?thesis
    by (auto simp: handleAuthedFrame_def issueSenderCert_def Route_def Let_def
        split: prod.splits bool.splits option.splits if_splits)
qed

lemma readLoop_clients:
  "st_clients (sv_store (fst (snd (readLoop cr drv frames u c (sv, d))))) = st_clients (sv_store sv)"
proof (induction frames arbitrary: sv d)
  case (Cons f frames)
  obtain ty data env where f: "f = (ty, data, env)" by (metis prod_cases3)
  obtain acts sv1 d1 where h: "handleAuthedFrame cr drv env (sv, d) u c data = (acts, sv1, d1)" by (metis prod_cases3)
  from Cons.IH [of sv1 d1] Cons.IH [of sv d] handleAuthedFrame_clients [OF h] h show ?case
    by (simp add: f split_beta)
qed simp

lemma openConn_clients:
  assumes "openConn cr drv aenv fenv (sv, d) c addr = (res, acts, sv', d')"
  shows "LookupClient (sv_store sv') = (case res of None \<Rightarrow> LookupClient (sv_store sv)
    | Some u \<Rightarrow> (LookupClient (sv_store sv))(u := Some c))"
proof -
  have "st_clients s' = st_clients s" if "FlushQueue cr drv fenv (s, d) u c = (acts', s', d'')" for s d u acts' s' d''
    using FlushQueue_clients [OF that] by simp
  with assms show ?thesis
    by (auto simp: openConn_def Let_def Register_def LookupClient_def fun_eq_iff split: prod.splits option.splits)
qed

section \<open>Properties\<close>

text \<open>
  C18: The goroutine of a connection runs for ever only if the handshake succeeds and no read
  ever fails.  Otherwise it returns and cleans up after itself: a client that fails the
  handshake is closed with a policy violation, and nobody's registration has changed; a
  client that got in is registered no more, and, unless other goroutines register or
  unregister somebody in the meantime, everybody else is as before.
\<close>

theorem connection_ends:
  "case serveConn_run cr drv aenv fenv ev (sv, d) c addr of
     None \<Rightarrow> fst (openConn cr drv aenv fenv (sv, d) c addr) \<noteq> None \<and> (\<forall>k. \<not> failed (ev k))
   | Some (acts, sv', d') \<Rightarrow>
       (case fst (openConn cr drv aenv fenv (sv, d) c addr) of
          None \<Rightarrow> last acts = CloseConn c 1008 \<and> LookupClient (sv_store sv') = LookupClient (sv_store sv)
        | Some u \<Rightarrow> (\<exists>k. failed (ev k)) \<and> LookupClient (sv_store sv') = (LookupClient (sv_store sv))(u := None))"
proof -
  obtain res acts sv1 d1 where o: "openConn cr drv aenv fenv (sv, d) c addr = (res, acts, sv1, d1)" by (metis prod_cases4)
  show ?thesis
  proof (cases res)
    case None
    then have "last acts = CloseConn c 1008"
      using o by (auto simp: openConn_def Let_def split: prod.splits option.splits)
    with None o openConn_clients [OF o] show ?thesis by (simp add: connection_runs serveConn_def)
  next
    case (Some u)
    let ?fs = "frames_before ev (LEAST k. failed (ev k))"
    obtain acts2 sv2 d2 where r: "readLoop cr drv ?fs u c (sv1, d1) = (acts2, sv2, d2)" by (metis prod_cases3)
    have "LookupClient (sv_store sv2) = (LookupClient (sv_store sv))(u := Some c)"
      using readLoop_clients [of cr drv ?fs u c sv1 d1] r openConn_clients [OF o] Some
      by (simp add: LookupClient_def fun_eq_iff)
    then have "LookupClient (Unregister (sv_store sv2) u c) = (LookupClient (sv_store sv))(u := None)"
      by (auto simp: Unregister_def LookupClient_def fun_eq_iff split: if_splits)
    with o r Some show ?thesis by (simp add: connection_runs serveConn_def closeConn_def)
  qed
qed

text \<open>
  The purge goroutine returns exactly if the stop channel is closed at some round, and
  until then performs one purge per tick.
\<close>

theorem purge_loop_ends:
  "purgeLoop_run cr drv ev w =
     (if \<exists>k. ev k = None then Some (purgeLoop cr drv (map ev [0..<LEAST k. ev k = None]) w) else None)"
proof (cases "\<exists>k. ev k = None")
  case True
  then have "first_at (\<lambda>e. e = None) ev (LEAST k. ev k = None)"
    unfolding first_at_def by (metis (mono_tags, lifting) LeastI not_less_Least)
  with purge_returns True show ?thesis by simp
next
  case False
  then show ?thesis using purge_stops by (metis not_None_eq)
qed

end
