(* ===== verification/Prekey_Life.thy ===== *)
theory Prekey_Life
  imports Prekey_Props
begin

text \<open>
  One-time prekeys over restarts.  Theory \<open>Prekey_Props\<close> shows that one process hands out
  each one-time prekey at most once; here the process may be restarted at any time.  The
  file must then be in step with the memory, which it is as long as the saves succeed:
  \<open>failed_save_keeps_old_bundle\<close> shows that this cannot be dropped.
\<close>

section \<open>Runs with restarts\<close>

datatype psEvent = Op psOp persistEnv | Restart prekeyEnv

text \<open>A start that fails ends the run.\<close>

fun ps_live :: "crypto \<Rightarrow> string \<Rightarrow> psEvent list \<Rightarrow> PrekeyStore \<times> fs
    \<Rightarrow> ((string \<times> OneTimePrekey) list \<times> PrekeyStore \<times> fs) option" where
  "ps_live cr path [] w = Some ([], w)"
| "ps_live cr path (Op op env # evs) w =
     (case ps_exec cr (op, env) w of (ks, w') \<Rightarrow>
        map_option (apfst ((@) ks)) (ps_live cr path evs w'))"
| "ps_live cr path (Restart env # evs) w =
     (case NewPrekeyStore cr env (snd w) path of
        (Inl e, d) \<Rightarrow> None
      | (Inr ps, d) \<Rightarrow> ps_live cr path evs (ps, d))"

text \<open>The operation changed nothing, or its save succeeded.\<close>

definition op_saved :: "crypto \<Rightarrow> psOp \<Rightarrow> persistEnv \<Rightarrow> PrekeyStore \<times> fs \<Rightarrow> bool" where
  "op_saved cr op env w =
     (case ps_exec cr (op, env) w of (ks, ps', d') \<Rightarrow>
        (ps', d') = w \<or> fst (prekey_persistLocked cr env ps' (snd w)) = None)"

fun all_saved :: "crypto \<Rightarrow> string \<Rightarrow> psEvent list \<Rightarrow> PrekeyStore \<times> fs \<Rightarrow> bool" where
  "all_saved cr path [] w = True"
| "all_saved cr path (Op op env # evs) w =
     (op_saved cr op env w \<and> op_utf8 op \<and> all_saved cr path evs (snd (ps_exec cr (op, env) w)))"
| "all_saved cr path (Restart env # evs) w =
     (honest_load env \<and>
      (case NewPrekeyStore cr env (snd w) path of
         (Inl e, d) \<Rightarrow> True
       | (Inr ps, d) \<Rightarrow> all_saved cr path evs (ps, d)))"

definition registers_event :: "string \<Rightarrow> psEvent \<Rightarrow> bool" where
  "registers_event u ev = (case ev of Op op env \<Rightarrow> registers u op | Restart env \<Rightarrow> False)"

section \<open>File and memory in step\<close>

definition in_step :: "crypto \<Rightarrow> string \<Rightarrow> PrekeyStore \<Rightarrow> fs \<Rightarrow> bool" where
  "in_step cr path ps d \<longleftrightarrow> pk_inv cr path (ps, d) \<and>
     (\<exists>f ps0. d path = Some f \<and> ps_wf ps0 \<and> ps_key ps0 = ps_key ps
        \<and> map_of (ps_bundles ps0) = map_of (ps_bundles ps) \<and> prekey_image cr ps0 (fdata f))"

lemma saved_in_step:
  assumes "pk_inv cr path (ps', d')" "prekey_persistLocked cr env ps' d = (None, d')"
  shows "in_step cr path ps' d'"
proof -
  have "ps_wf ps'" "ps_storePath ps' = path" using assms(1) by (simp_all add: pk_inv_def)
  moreover obtain b where "prekey_image cr ps' b" "d' (ps_storePath ps') = Some \<lparr>fdata = b, fmode = mode0600\<rparr>"
    using pk.persist_ok [OF assms(2)] by blast
  ultimately show ?thesis using assms(1) by (auto simp: in_step_def)
qed

lemma exec_pk_inv:
  assumes "pk_inv cr path (ps, d)" "\<not> suffix ''.tmp'' path" "op_utf8 op" "ps_exec cr (op, env) (ps, d) = (ks, ps', d')"
  shows "pk_inv cr path (ps', d')" "(ps', d') \<noteq> (ps, d) \<Longrightarrow> d' = snd (prekey_persistLocked cr env ps' d)"
proof -
  have i: "ps_wf ps" "ps_storePath ps = path" "pk_saved cr path (ps_key ps) d" using assms(1) by (simp_all add: pk_inv_def)
  from ps_exec_wf [OF assms(4) i(1) assms(3)] persist_pk_saved [OF _ _ _ assms(2), of cr ps' d env] i
  show "pk_inv cr path (ps', d')" by (auto simp: pk_inv_def)
  from assms(4) show "(ps', d') \<noteq> (ps, d) \<Longrightarrow> d' = snd (prekey_persistLocked cr env ps' d)"
    by (cases rule: ps_exec_cases) simp_all
qed

lemma op_in_step:
  assumes "in_step cr path ps d" "\<not> suffix ''.tmp'' path" "op_utf8 op" "op_saved cr op env (ps, d)"
    and "ps_exec cr (op, env) (ps, d) = (ks, ps', d')"
  shows "in_step cr path ps' d'"
proof (cases "(ps', d') = (ps, d)")
  case True
  with assms(1) show ?thesis by simp
next
  case False
  have "pk_inv cr path (ps, d)" using assms(1) by (simp add: in_step_def)
  note e = exec_pk_inv [OF this assms(2,3,5)]
  have "prekey_persistLocked cr env ps' d = (None, d')"
    using assms(4,5) False e(2) [OF False] by (auto simp: op_saved_def prod_eq_iff)
  with e(1) show ?thesis by (rule saved_in_step)
qed

lemma restart_loads:
  assumes "gcm_correct cr" "in_step cr path ps d" "ke_mkdirs env = None" "ke_read (ke_key env) = None" "ke_load env = None"
  obtains m where "NewPrekeyStore cr env d path = (Inr \<lparr>ps_bundles = m, ps_storePath = path, ps_key = ps_key ps\<rparr>, d)"
    "map_of m = map_of (ps_bundles ps)"
proof -
  obtain f g ps0 where k: "d (path @ keyFileSuffix) = Some f" "fdata f = ps_key ps"
    and g: "d path = Some g" "ps_wf ps0" "ps_key ps0 = ps_key ps" "map_of (ps_bundles ps0) = map_of (ps_bundles ps)"
      "prekey_image cr ps0 (fdata g)"
    using assms(2) by (auto simp: in_step_def pk_inv_def pk_saved_def)
  have "length (ps_key ps) = 32" using g(2,3) by (simp add: ps_wf_def)
  then have "loadOrCreateKey (ke_key env) d (path @ keyFileSuffix) = (Inr (ps_key ps), d)"
    using key_file_loads [of d "path @ keyFileSuffix" f "ps_key ps" "ke_key env"] k assms(4) by simp
  with load_prekeys [OF assms(1) g(2,5), of d "\<lparr>ps_bundles = [], ps_storePath = path, ps_key = ps_key ps\<rparr>" env] g assms(3,5) that
  show ?thesis by (auto simp: NewPrekeyStore_def)
qed

lemma started_clean:
  assumes "in_step cr path ps d" "honest_load env" "NewPrekeyStore cr env d path = (Inr ps', d')"
  shows "ke_mkdirs env = None" "ke_read (ke_key env) = None" "ke_load env = None"
proof -
  obtain f g where f: "d (path @ keyFileSuffix) = Some f" "d path = Some g"
    using assms(1) by (auto simp: in_step_def pk_inv_def pk_saved_def)
  from assms(2,3) show "ke_mkdirs env = None" "ke_read (ke_key env) = None"
    by (auto simp: NewPrekeyStore_def loadOrCreateKey_def readFile_def honest_load_def split: option.splits)
  have "d' path = d path"
    using assms(3) loadOrCreateKey_frame [of path "path @ keyFileSuffix" "ke_key env" d]
    by (auto simp: NewPrekeyStore_def split: option.splits prod.splits sum.splits)
  with f(2) assms(2,3) show "ke_load env = None"
    by (auto simp: NewPrekeyStore_def prekey_loadFromDisk_def readFile_def honest_load_def
        split: option.splits prod.splits sum.splits if_splits)
qed

lemma restart_in_step:
  assumes "gcm_correct cr" "in_step cr path ps d" "honest_load env" "NewPrekeyStore cr env d path = (Inr ps', d')"
  shows "in_step cr path ps' d'" "otpks_of ps' = otpks_of ps"
proof -
  obtain m where "NewPrekeyStore cr env d path = (Inr \<lparr>ps_bundles = m, ps_storePath = path, ps_key = ps_key ps\<rparr>, d)"
    "map_of m = map_of (ps_bundles ps)"
    using restart_loads [OF assms(1,2) started_clean [OF assms(2-4)]] by blast
  with assms(4) have m: "ps' = \<lparr>ps_bundles = m, ps_storePath = path, ps_key = ps_key ps\<rparr>" "d' = d"
    "map_of m = map_of (ps_bundles ps)" by simp_all
  then show "otpks_of ps' = otpks_of ps" by (simp add: otpks_of_def fun_eq_iff)
  have "pk_inv cr path (ps', d')"
    using assms(2) by (intro NewPrekeyStore_inv [OF assms(1,4)] disjI2 conjI [OF assms(3)]) (auto simp: in_step_def pk_inv_def)
  with assms(2) m show "in_step cr path ps' d'" by (auto simp: in_step_def)
qed

lemma live_conserves:
  assumes "gcm_correct cr" "\<not> suffix ''.tmp'' path" "in_step cr path ps d" "all_saved cr path evs (ps, d)"
    and "ps_live cr path evs (ps, d) = Some (ks, ps', d')" "\<forall>ev \<in> set evs. \<not> registers_event u ev"
  shows "served u ks @ otpks_of ps' u = otpks_of ps u"
  using assms(3-6)
proof (induction evs arbitrary: ps d ks)
  case (Cons ev evs)
  show ?case
  proof (cases ev)
    case (Op op env)
    obtain ks1 ps1 d1 where x: "ps_exec cr (op, env) (ps, d) = (ks1, ps1, d1)" by (cases "ps_exec cr (op, env) (ps, d)") auto
    with Cons.prems(3) Op obtain ks2 where ks: "ps_live cr path evs (ps1, d1) = Some (ks2, ps', d')" "ks = ks1 @ ks2"
      by auto
    have "in_step cr path ps1 d1" using Cons.prems(1,2) Op x by (intro op_in_step [OF _ assms(2) _ _ x]) simp_all
    from Cons.IH [OF this _ ks(1)] exec_conserves [OF x, of u] Cons.prems(2,4) Op x show ?thesis
      by (simp add: ks(2) registers_event_def)
  next
    case (Restart env)
    with Cons.prems(3) obtain ps1 d1 where n: "NewPrekeyStore cr env d path = (Inr ps1, d1)"
      "ps_live cr path evs (ps1, d1) = Some (ks, ps', d')" by (auto split: prod.splits sum.splits)
    have h: "honest_load env" using Cons.prems(2) Restart by simp
    from Cons.IH [OF restart_in_step(1) [OF assms(1) Cons.prems(1) h n(1)] _ n(2)]
      restart_in_step(2) [OF assms(1) Cons.prems(1) h n(1)] Cons.prems(2,4) Restart n(1)
    show ?thesis by simp
  qed
qed simp

section \<open>Properties\<close>

text \<open>
  C10: One-time prekeys are single-use over restarts.  After a bundle has been accepted and
  saved, any sequence of fetches, consumptions, registrations of other users and restarts
  in which the saves succeed hands out a prefix of the bundle's one-time prekeys, in
  order; so no id is handed out twice, not even by two processes.
\<close>

theorem otpk_single_use_for_life:
  assumes "gcm_correct cr" "\<not> suffix ''.tmp'' path" "prekey_life cr path (ps, d)" "u \<noteq> []" "valid_utf8 u"
    and "registerBundle cr env (ps, d) u b = (None, ps1, d1)"
    and "ps_live cr path evs (ps1, d1) = Some (ks, ps2, d2)" "all_saved cr path evs (ps1, d1)"
    and "\<forall>ev \<in> set evs. \<not> registers_event u ev"
  shows "prefix (served u ks) (pb_OneTimePrekeys b) \<and> distinct (map otpk_ID (served u ks))"
proof -
  have x: "ps_exec cr (OpRegister u b, env) (ps, d) = ([], ps1, d1)" "op_utf8 (OpRegister u b)"
    using assms(5,6) by (simp_all add: ps_exec_def op_utf8_def)
  have p: "prekey_persistLocked cr env ps1 d = (None, d1)" "otpks_of ps1 u = pb_OneTimePrekeys b" "bundle_ok b"
    using assms(4,6) by (auto simp: registerBundle_def Let_def otpks_of_def validate_iff [symmetric] split: if_splits option.splits prod.splits)
  have "in_step cr path ps1 d1"
    by (rule saved_in_step [OF exec_pk_inv(1) [OF prekey_life_inv [OF assms(1-3)] assms(2) x(2,1)] p(1)])
  from live_conserves [OF assms(1,2) this assms(8,7,9)] p(2,3) show ?thesis
    by (metis bundle_ok_def distinct_append map_append prefixI)
qed

section \<open>Witnesses\<close>

text \<open>Bob's two one-time prekeys are fetched by two processes.\<close>

definition demo_fetches :: "psEvent list" where
  "demo_fetches = [Op (OpGet ''bob'' True) demo_save_env, Restart demo_prekey_start, Op (OpGet ''bob'' True) demo_save_env]"

lemma demo_get:
  assumes "map_of (ps_bundles ps) ''bob'' = Some b" "pb_OneTimePrekeys b = k # ks"
    and "length (ps_key ps) = 32" "ps_storePath ps = ''p''" "d ''./prekeys-1.tmp'' = None"
  obtains ps' d' where "ps_exec plainCrypto (OpGet ''bob'' True, demo_save_env) (ps, d) = ([(''bob'', k)], ps', d')"
    "op_saved plainCrypto (OpGet ''bob'' True) demo_save_env (ps, d)" "d' ''./prekeys-1.tmp'' = None"
    "map_of (ps_bundles ps') ''bob'' = Some (b\<lparr>pb_OneTimePrekeys := ks\<rparr>)"
    "prekey_persistLocked plainCrypto demo_save_env ps' d = (None, d')" "ps_key ps' = ps_key ps"
proof -
  let ?ps = "ps\<lparr>ps_bundles := gm_put ''bob'' (b\<lparr>pb_OneTimePrekeys := ks\<rparr>) (ps_bundles ps)\<rparr>"
  obtain d' where d': "prekey_persistLocked plainCrypto demo_save_env ?ps d = (None, d')" "d' ''./prekeys-1.tmp'' = None"
    using demo_persist_ok [of ?ps d] assms(3-5) by auto
  have "ps_exec plainCrypto (OpGet ''bob'' True, demo_save_env) (ps, d) = ([(''bob'', k)], ?ps, d')"
    using assms(1,2) d'(1) by (simp add: ps_exec_def getBundleWithOTPK_def staticResponse_def Let_def)
  with d' that show ?thesis by (simp add: op_saved_def)
qed

theorem otpk_single_use_for_life_witness:
  "\<exists>ks ps d. ps_live plainCrypto ''p'' demo_fetches (demo_ps, demo_pd) = Some (ks, ps, d)
     \<and> length (served ''bob'' ks) = 2 \<and> distinct (map otpk_ID (served ''bob'' ks))"
proof -
  have k: "length (ps_key demo_ps) = 32" "ps_storePath demo_ps = ''p''" "map_of (ps_bundles demo_ps) ''bob'' = Some demo_bundle"
    by (simp_all add: demo_ps_def demo_ps0_def)
  have utf8: "valid_utf8 ''bob''" by (rule valid_utf8_key) (simp add: code_def)
  obtain k1 k2 where ks: "pb_OneTimePrekeys demo_bundle = [k1, k2]" by (simp add: demo_bundle_def)
  obtain ps1 d1 where 1: "ps_exec plainCrypto (OpGet ''bob'' True, demo_save_env) (demo_ps, demo_pd) = ([(''bob'', k1)], ps1, d1)"
    "op_saved plainCrypto (OpGet ''bob'' True) demo_save_env (demo_ps, demo_pd)" "d1 ''./prekeys-1.tmp'' = None"
    "map_of (ps_bundles ps1) ''bob'' = Some (demo_bundle\<lparr>pb_OneTimePrekeys := [k2]\<rparr>)"
    "prekey_persistLocked plainCrypto demo_save_env ps1 demo_pd = (None, d1)" "ps_key ps1 = ps_key demo_ps"
    by (rule demo_get [of demo_ps demo_bundle k1 "[k2]" demo_pd]) (use k ks demo_register(2) in simp_all)
  have c: "ke_mkdirs demo_prekey_start = None" "ke_read (ke_key demo_prekey_start) = None" "ke_load demo_prekey_start = None"
    by (simp_all add: demo_prekey_start_def)
  have op: "op_utf8 (OpGet u c)" for u c by (simp add: op_utf8_def)
  have "pk_inv plainCrypto ''p'' (ps1, d1)"
    by (rule exec_pk_inv(1) [OF prekey_life_inv [OF plainCrypto_gcm demo_path demo_prekey_life] demo_path op 1(1)])
  then have "in_step plainCrypto ''p'' ps1 d1" using 1(5) by (rule saved_in_step)
  then obtain m where m: "NewPrekeyStore plainCrypto demo_prekey_start d1 ''p''
      = (Inr \<lparr>ps_bundles = m, ps_storePath = ''p'', ps_key = ps_key ps1\<rparr>, d1)" "map_of m = map_of (ps_bundles ps1)"
    using restart_loads [OF plainCrypto_gcm _ c] by blast
  let ?ps2 = "\<lparr>ps_bundles = m, ps_storePath = ''p'', ps_key = ps_key ps1\<rparr>"
  obtain ps3 d3 where 3: "ps_exec plainCrypto (OpGet ''bob'' True, demo_save_env) (?ps2, d1) = ([(''bob'', k2)], ps3, d3)"
    "op_saved plainCrypto (OpGet ''bob'' True) demo_save_env (?ps2, d1)"
    by (rule demo_get [of ?ps2 "demo_bundle\<lparr>pb_OneTimePrekeys := [k2]\<rparr>" k2 "[]" d1]) (use 1 m(2) k in simp_all)
  have live: "ps_live plainCrypto ''p'' demo_fetches (demo_ps, demo_pd) = Some ([(''bob'', k1), (''bob'', k2)], ps3, d3)"
    by (simp add: demo_fetches_def 1(1) m(1) 3(1))
  have "honest_load demo_prekey_start" by (simp add: honest_load_def demo_prekey_start_def)
  then have "all_saved plainCrypto ''p'' demo_fetches (demo_ps, demo_pd)"
    using 1 3 m(1) op by (simp add: demo_fetches_def)
  moreover have "\<forall>ev \<in> set demo_fetches. \<not> registers_event ''bob'' ev"
    by (simp add: demo_fetches_def registers_event_def registers_def)
  ultimately have "distinct (map otpk_ID (served ''bob'' [(''bob'', k1), (''bob'', k2)]))"
    using otpk_single_use_for_life [OF plainCrypto_gcm demo_path prekey_life.first [OF demo_prekey_first] _ utf8 demo_register(1) live]
    by simp
  with live show ?thesis by auto
qed

end
