(* ===== verification/Simulation.thy ===== *)
theory Simulation
  imports Relay_Prelude
begin

text \<open>
  Refinement of an abstract machine, call by call.  A machine answers a call and goes to a
  next state; what a caller sees of a sequence of calls is the list of the replies.
\<close>

fun replies :: "('c \<Rightarrow> 's \<Rightarrow> 'r \<times> 's) \<Rightarrow> 'c list \<Rightarrow> 's \<Rightarrow> 'r list" where
  "replies f [] s = []"
| "replies f (c # cs) s = (case f c s of (r, s') \<Rightarrow> r # replies f cs s')"

text \<open>
  Which calls are allowed may depend on a context (the time, the names in use), which a
  call moves on.
\<close>

fun allowed :: "('k \<Rightarrow> 'c \<Rightarrow> bool) \<Rightarrow> ('k \<Rightarrow> 'c \<Rightarrow> 'k) \<Rightarrow> 'k \<Rightarrow> 'c list \<Rightarrow> bool" where
  "allowed ok after k [] \<longleftrightarrow> True"
| "allowed ok after k (c # cs) \<longleftrightarrow> ok k c \<and> allowed ok after (after k c) cs"

text \<open>
  The contract: an allowed call in related states gets the reply of some step of the
  abstract machine that it may stand for, and leads to related states.
\<close>

locale simulation =
  fixes conc :: "'c \<Rightarrow> 'w \<Rightarrow> 'r \<times> 'w"
    and spec :: "'x \<Rightarrow> 'd \<Rightarrow> 'r \<times> 'd"
    and may :: "'c \<Rightarrow> 'x \<Rightarrow> bool"
    and ok :: "'k \<Rightarrow> 'c \<Rightarrow> bool"
    and after :: "'k \<Rightarrow> 'c \<Rightarrow> 'k"
    and rel :: "'k \<Rightarrow> 'w \<Rightarrow> 'd \<Rightarrow> bool"
  assumes step: "rel k w D \<Longrightarrow> ok k c \<Longrightarrow> conc c w = (r, w')
      \<Longrightarrow> \<exists>x D'. may c x \<and> spec x D = (r, D') \<and> rel (after k c) w' D'"
begin

lemma same_replies:
  assumes "rel k w D" "allowed ok after k cs"
  shows "\<exists>xs. list_all2 may cs xs \<and> replies conc cs w = replies spec xs D"
  using assms
proof (induction cs arbitrary: k w D)
  case (Cons c cs)
  obtain r w' where c: "conc c w = (r, w')" by (cases "conc c w")
  obtain x D' where x: "may c x" "spec x D = (r, D')" "rel (after k c) w' D'"
    using step [OF Cons.prems(1) _ c] Cons.prems(2) by auto
  obtain xs where "list_all2 may cs xs" "replies conc cs w' = replies spec xs D'"
    using Cons.IH [OF x(3)] Cons.prems(2) by auto
  with c x(1,2) show ?case by (intro exI [of _ "x # xs"]) simp
qed simp

end

end
