(* ===== verification/Prekey_Spec.thy ===== *)
theory Prekey_Spec
  imports Prekey_Life Simulation
begin

text \<open>
  What the store of \<^verbatim>\<open>server/prekey_store.go\<close> promises to its callers, as an abstract
  machine: a directory with one entry per user, an entry being what is served and the
  one-time prekeys left.  There is no JSON, no encryption and no file in it.

  Shown: any sequence of calls, restarts and crashes gets the replies of the abstract
  machine, in which a crash in the middle of a call means that the call took place or did
  not.  The condition is that the saves succeed, or are cut off by the crash.
\<close>

section \<open>The abstract machine\<close>

type_synonym directory = "string \<Rightarrow> (PrekeyResponse \<times> OneTimePrekey list) option"

datatype dirRequest = Publish string PrekeyBundle | Serve string bool | Take string | Ask string

datatype dirReply =
    Accepted bool
  | Served "PrekeyResponse option"
  | Taken "OneTimePrekey option"
  | Identity "string option"
  | Restarted bool

fun dir_call :: "dirRequest \<Rightarrow> directory \<Rightarrow> dirReply \<times> directory" where
  "dir_call (Publish u b) D =
     (if u \<noteq> [] \<and> bundle_ok b
      then (Accepted True, D(u \<mapsto> (staticResponse b, pb_OneTimePrekeys b))) else (Accepted False, D))"
| "dir_call (Serve u consume) D =
     (case D u of
        None \<Rightarrow> (Served None, D)
      | Some (r, ks) \<Rightarrow>
          if consume \<and> ks \<noteq> [] then (Served (Some (r\<lparr>pr_OneTimePrekey := Some (hd ks)\<rparr>)), D(u \<mapsto> (r, tl ks)))
          else (Served (Some r), D))"
| "dir_call (Take u) D =
     (case D u of
        Some (r, k # ks) \<Rightarrow> (Taken (Some k), D(u \<mapsto> (r, ks)))
      | _ \<Rightarrow> (Taken None, D))"
| "dir_call (Ask u) D = (Identity (map_option (pr_IdentityKey \<circ> fst) (D u)), D)"

text \<open>A call, a restart, or a crash during a call: \<open>Dies q True\<close> if the call took place.\<close>

datatype dirStep = Calls dirRequest | Restarts | Dies dirRequest bool

fun dir_step :: "dirStep \<Rightarrow> directory \<Rightarrow> dirReply \<times> directory" where
  "dir_step (Calls q) D = dir_call q D"
| "dir_step Restarts D = (Restarted True, D)"
| "dir_step (Dies q took) D = (Restarted True, if took then snd (dir_call q D) else D)"

section \<open>Calls of the store\<close>

datatype prekeyOp =
    PRegister persistEnv string PrekeyBundle
  | PGet persistEnv string bool
  | PConsume persistEnv string
  | PIdentity string

fun request_of_op :: "prekeyOp \<Rightarrow> dirRequest" where
  "request_of_op (PRegister env u b) = Publish u b"
| "request_of_op (PGet env u c) = Serve u c"
| "request_of_op (PConsume env u) = Take u"
| "request_of_op (PIdentity u) = Ask u"

fun prekey_op :: "crypto \<Rightarrow> prekeyOp \<Rightarrow> PrekeyStore \<times> fs \<Rightarrow> dirReply \<times> PrekeyStore \<times> fs" where
  "prekey_op cr (PRegister env u b) w = apfst (\<lambda>e. Accepted (e = None)) (registerBundle cr env w u b)"
| "prekey_op cr (PGet env u c) w = apfst Served (getBundleWithOTPK cr env w u c)"
| "prekey_op cr (PConsume env u) w = apfst Taken (consumeOneTimePrekey cr env w u)"
| "prekey_op cr (PIdentity u) w = (Identity (identityKeyOf (fst w) u), w)"

text \<open>The environment of the save with which a call ends, if it has one.\<close>

fun save_of :: "prekeyOp \<Rightarrow> PrekeyStore \<Rightarrow> persistEnv option" where
  "save_of (PRegister env u b) ps = (if u \<noteq> [] \<and> validatePrekeyBundle b = None then Some env else None)"
| "save_of (PGet env u c) ps = (if c \<and> otpks_of ps u \<noteq> [] then Some env else None)"
| "save_of (PConsume env u) ps = (if otpks_of ps u \<noteq> [] then Some env else None)"
| "save_of (PIdentity u) ps = None"

text \<open>
  Where a save is cut off: before the temporary file exists, after some bytes of it, or
  after the rename.
\<close>

datatype crashPoint = Unstarted | Writing nat | Renamed

definition cutReplace :: "crashPoint \<Rightarrow> persistEnv \<Rightarrow> fs \<Rightarrow> string \<Rightarrow> string \<Rightarrow> bytes \<Rightarrow> fs" where
  "cutReplace cp env disk path pre sealed =
     (case cp of
        Unstarted \<Rightarrow> disk
      | Writing n \<Rightarrow>
          (case createTemp disk (filepathDir path) pre (pe_names env) of
             None \<Rightarrow> disk
           | Some tmp \<Rightarrow> disk(tmp \<mapsto> \<lparr>fdata = take n sealed, fmode = mode0600\<rparr>))
      | Renamed \<Rightarrow> snd (replaceFile env disk path pre sealed))"

definition cutDisk :: "crypto \<Rightarrow> crashPoint \<Rightarrow> prekeyOp \<Rightarrow> PrekeyStore \<times> fs \<Rightarrow> fs" where
  "cutDisk cr cp op w =
     (case save_of op (fst w) of
        None \<Rightarrow> snd w
      | Some env \<Rightarrow>
          (let ps' = fst (snd (prekey_op cr op w)) in
           case encrypt cr (ps_key ps') (pe_rand env) (jprint (jsonBundles (ps_bundles ps'))) of
             Inl e \<Rightarrow> snd w
           | Inr sealed \<Rightarrow> cutReplace cp env (snd w) (ps_storePath ps') ''prekeys-'' sealed))"

definition reopen :: "crypto \<Rightarrow> string \<Rightarrow> prekeyEnv \<Rightarrow> PrekeyStore \<times> fs \<Rightarrow> dirReply \<times> PrekeyStore \<times> fs" where
  "reopen cr path env w =
     (case NewPrekeyStore cr env (snd w) path of
        (Inl e, d) \<Rightarrow> (Restarted False, fst w, d)
      | (Inr ps, d) \<Rightarrow> (Restarted True, ps, d))"

datatype prekeyCall = PCall prekeyOp | PRestart prekeyEnv | PDies prekeyOp crashPoint prekeyEnv

fun prekey_call :: "crypto \<Rightarrow> string \<Rightarrow> prekeyCall \<Rightarrow> PrekeyStore \<times> fs \<Rightarrow> dirReply \<times> PrekeyStore \<times> fs" where
  "prekey_call cr path (PCall op) w = prekey_op cr op w"
| "prekey_call cr path (PRestart env) w = reopen cr path env w"
| "prekey_call cr path (PDies op cp env) w = reopen cr path env (fst w, cutDisk cr cp op w)"

text \<open>Which steps of the abstract machine a call may be.\<close>

fun may_be :: "prekeyCall \<Rightarrow> dirStep \<Rightarrow> bool" where
  "may_be (PCall op) x \<longleftrightarrow> x = Calls (request_of_op op)"
| "may_be (PRestart env) x \<longleftrightarrow> x = Restarts"
| "may_be (PDies op cp env) x \<longleftrightarrow> x = Dies (request_of_op op) True \<or> x = Dies (request_of_op op) False"

text \<open>
  Calls without faults.  \<open>busy\<close> are the file names in use; a crash leaves a temporary file
  behind.
\<close>

fun op_clean :: "string set \<Rightarrow> string \<Rightarrow> prekeyOp \<Rightarrow> bool" where
  "op_clean busy path (PRegister env u b) \<longleftrightarrow> valid_utf8 u \<and> save_clean busy ''prekeys-'' path env"
| "op_clean busy path (PGet env u c) \<longleftrightarrow> save_clean busy ''prekeys-'' path env"
| "op_clean busy path (PConsume env u) \<longleftrightarrow> save_clean busy ''prekeys-'' path env"
| "op_clean busy path (PIdentity u) \<longleftrightarrow> True"

definition open_clean :: "prekeyEnv \<Rightarrow> bool" where
  "open_clean env \<longleftrightarrow> ke_mkdirs env = None \<and> ke_read (ke_key env) = None \<and> ke_load env = None"

fun left_behind :: "string \<Rightarrow> prekeyOp \<Rightarrow> string set" where
  "left_behind path (PRegister env u b) = set (map (tempName (filepathDir path) ''prekeys-'') (pe_names env))"
| "left_behind path (PGet env u c) = set (map (tempName (filepathDir path) ''prekeys-'') (pe_names env))"
| "left_behind path (PConsume env u) = set (map (tempName (filepathDir path) ''prekeys-'') (pe_names env))"
| "left_behind path (PIdentity u) = {}"

fun call_clean :: "string \<Rightarrow> string set \<Rightarrow> prekeyCall \<Rightarrow> bool" where
  "call_clean path busy (PCall op) \<longleftrightarrow> op_clean busy path op"
| "call_clean path busy (PRestart env) \<longleftrightarrow> open_clean env"
| "call_clean path busy (PDies op cp env) \<longleftrightarrow> op_clean busy path op \<and> open_clean env"

fun busy_after :: "string \<Rightarrow> string set \<Rightarrow> prekeyCall \<Rightarrow> string set" where
  "busy_after path busy (PDies op cp env) = busy \<union> left_behind path op"
| "busy_after path busy c = busy"

section \<open>The simulation\<close>

text \<open>The disk holds the key and an image of \<open>m\<close>; with no bundle there may be no image.\<close>

definition on_disk :: "crypto \<Rightarrow> string \<Rightarrow> bytes \<Rightarrow> fs \<Rightarrow> (string \<Rightarrow> PrekeyBundle option) \<Rightarrow> bool" where
  "on_disk cr path key d m \<longleftrightarrow> length key = 32 \<and> (\<exists>f. d (path @ keyFileSuffix) = Some f \<and> fdata f = key)
     \<and> (d path = None \<and> m = Map.empty
        \<or> (\<exists>f ps0. d path = Some f \<and> ps_wf ps0 \<and> ps_key ps0 = key \<and> map_of (ps_bundles ps0) = m
             \<and> prekey_image cr ps0 (fdata f)))"

definition entry_of :: "PrekeyBundle \<Rightarrow> PrekeyResponse \<times> OneTimePrekey list" where
  "entry_of b = (staticResponse b, pb_OneTimePrekeys b)"

definition dir_rel :: "crypto \<Rightarrow> string set \<Rightarrow> string \<Rightarrow> PrekeyStore \<times> fs \<Rightarrow> directory \<Rightarrow> bool" where
  "dir_rel cr busy path w D \<longleftrightarrow> ps_wf (fst w) \<and> ps_storePath (fst w) = path
     \<and> on_disk cr path (ps_key (fst w)) (snd w) (map_of (ps_bundles (fst w)))
     \<and> dom (snd w) \<subseteq> busy \<and> path \<in> busy \<and> D = map_option entry_of \<circ> map_of (ps_bundles (fst w))"

lemma entry_of_simps [simp]:
  "entry_of (copyBundle b) = (staticResponse b, pb_OneTimePrekeys b)"
  "entry_of (b\<lparr>pb_OneTimePrekeys := ks\<rparr>) = (staticResponse b, ks)"
  "staticResponse (b\<lparr>pb_OneTimePrekeys := ks\<rparr>) = staticResponse b"
  by (simp_all add: entry_of_def staticResponse_def)

lemma dir_upd: "map_option entry_of \<circ> map_of (gm_put u b m) = (map_option entry_of \<circ> map_of m)(u \<mapsto> entry_of b)"
  by (auto simp: fun_eq_iff)

text \<open>A call leaves the store alone, or saves it with the new state.\<close>

lemma op_saves:
  assumes "ps_wf ps" "op_clean busy path op" "prekey_op cr op (ps, d) = (r, ps', d')"
  shows "ps_wf ps'" "ps_key ps' = ps_key ps" "ps_storePath ps' = ps_storePath ps"
    "save_of op ps = None \<Longrightarrow> ps' = ps \<and> d' = d"
    "save_of op ps = Some env \<Longrightarrow> d' = snd (prekey_persistLocked cr env ps' d) \<and> save_clean busy ''prekeys-'' path env"
proof -
  have "ps_wf ps' \<and> ps_key ps' = ps_key ps \<and> ps_storePath ps' = ps_storePath ps
    \<and> (save_of op ps = None \<longrightarrow> ps' = ps \<and> d' = d)
    \<and> (save_of op ps = Some env \<longrightarrow> d' = snd (prekey_persistLocked cr env ps' d) \<and> save_clean busy ''prekeys-'' path env)"
  proof (cases op)
    case (PRegister e u b)
    then have x: "ps_exec cr (OpRegister u b, e) (ps, d) = ([], ps', d')" "op_utf8 (OpRegister u b)"
      using assms(2,3) by (auto simp: ps_exec_def op_utf8_def apfst_def map_prod_def split: prod.splits)
    from ps_exec_wf [OF x(1) assms(1) x(2)] PRegister assms(2,3) show ?thesis
      by (auto simp: registerBundle_def Let_def apfst_def map_prod_def split: prod.splits option.splits if_splits)
  next
    case (PGet e u c)
    obtain ks where x: "ps_exec cr (OpGet u c, e) (ps, d) = (ks, ps', d')" 
      using PGet assms(3) by (auto simp: ps_exec_def apfst_def map_prod_def split: prod.splits)
    have "op_utf8 (OpGet u c)" by (simp add: op_utf8_def)
    from ps_exec_wf [OF x assms(1) this] PGet assms(2,3) show ?thesis
      by (auto simp: getBundleWithOTPK_def otpks_of_def Let_def apfst_def map_prod_def
          split: prod.splits option.splits if_splits list.splits bool.splits)
  next
    case (PConsume e u)
    obtain ks where x: "ps_exec cr (OpConsume u, e) (ps, d) = (ks, ps', d')" 
      using PConsume assms(3) by (auto simp: ps_exec_def apfst_def map_prod_def split: prod.splits)
    have "op_utf8 (OpConsume u)" by (simp add: op_utf8_def)
    from ps_exec_wf [OF x assms(1) this] PConsume assms(2,3) show ?thesis
      by (auto simp: consumeOneTimePrekey_def otpks_of_def Let_def apfst_def map_prod_def
          split: prod.splits option.splits if_splits list.splits)
  next
    case (PIdentity u)
    with assms show ?thesis by simp
  qed
  then show "ps_wf ps'" "ps_key ps' = ps_key ps" "ps_storePath ps' = ps_storePath ps"
    "save_of op ps = None \<Longrightarrow> ps' = ps \<and> d' = d"
    "save_of op ps = Some env \<Longrightarrow> d' = snd (prekey_persistLocked cr env ps' d) \<and> save_clean busy ''prekeys-'' path env"
    by simp_all
qed

text \<open>In memory, a call does what the abstract machine does; the reply is that of a call whose save succeeds.\<close>

lemma op_in_memory:
  assumes "prekey_op cr op (ps, d) = (r, ps', d')"
    and "\<And>env. save_of op ps = Some env \<Longrightarrow> fst (prekey_persistLocked cr env ps' d) = None"
  shows "dir_call (request_of_op op) (map_option entry_of \<circ> map_of (ps_bundles ps))
    = (r, map_option entry_of \<circ> map_of (ps_bundles ps'))"
proof (cases op)
  case (PRegister env u b)
  with assms show ?thesis
    by (auto simp: registerBundle_def Let_def apfst_def map_prod_def dir_upd validate_iff [symmetric]
        split: prod.splits option.splits if_splits)
next
  case (PGet env u c)
  with assms(1) show ?thesis
    by (auto simp: getBundleWithOTPK_def Let_def apfst_def map_prod_def dir_upd entry_of_def
        split: prod.splits option.splits if_splits list.splits bool.splits)
next
  case (PConsume env u)
  with assms(1) show ?thesis
    by (auto simp: consumeOneTimePrekey_def Let_def apfst_def map_prod_def dir_upd entry_of_def
        split: prod.splits option.splits if_splits list.splits)
next
  case (PIdentity u)
  with assms(1) show ?thesis
    by (cases "map_of (ps_bundles ps) u") (auto simp: identityKeyOf_def entry_of_def staticResponse_def)
qed

lemma persist_clean:
  assumes "ps_wf ps" "save_clean busy ''prekeys-'' (ps_storePath ps) env" "dom d \<subseteq> busy" "ps_storePath ps \<in> busy"
  obtains sealed d' where "encrypt cr (ps_key ps) (pe_rand env) (jprint (jsonBundles (ps_bundles ps))) = Inr sealed"
    "replaceFile env d (ps_storePath ps) ''prekeys-'' sealed = (None, d')"
    "prekey_persistLocked cr env ps d = (None, d')" "dom d' \<subseteq> busy"
proof -
  obtain sealed where e: "encrypt cr (ps_key ps) (pe_rand env) (jprint (jsonBundles (ps_bundles ps))) = Inr sealed"
    using encrypt_clean [OF assms(2), of "ps_key ps"] assms(1) unfolding ps_wf_def by blast
  obtain d' where "replaceFile env d (ps_storePath ps) ''prekeys-'' sealed = (None, d')" "dom d' \<subseteq> busy"
    using replaceFile_succeeds [OF assms(2-4)] by blast
  with e that show ?thesis by (simp add: prekey_persistLocked_def)
qed

text \<open>A save puts the bundles on disk.\<close>

lemma saved_on_disk:
  assumes "on_disk cr path (ps_key ps) d m" "ps_wf ps" "ps_storePath ps = path"
    and "prekey_persistLocked cr env ps d = (None, d')"
  shows "on_disk cr path (ps_key ps) d' (map_of (ps_bundles ps))"
proof -
  obtain b where "prekey_image cr ps b" "d' path = Some \<lparr>fdata = b, fmode = mode0600\<rparr>"
    using pk.persist_ok [OF assms(4)] assms(3) by auto
  moreover obtain f where "d (path @ keyFileSuffix) = Some f" "fdata f = ps_key ps" "length (ps_key ps) = 32"
    using assms(1) by (auto simp: on_disk_def)
  moreover from this have "d' (path @ keyFileSuffix) = Some f"
    using pk.persist_frame [of d "path @ keyFileSuffix" ps cr env] assms(3,4) by simp
  ultimately show ?thesis using assms(2) by (auto simp: on_disk_def)
qed

lemma reopen_on_disk:
  assumes "gcm_correct cr" "on_disk cr path key d m" "open_clean env"
  obtains m' where "NewPrekeyStore cr env d path = (Inr \<lparr>ps_bundles = m', ps_storePath = path, ps_key = key\<rparr>, d)"
    "map_of m' = m" "ps_wf \<lparr>ps_bundles = m', ps_storePath = path, ps_key = key\<rparr>"
proof -
  let ?ps = "\<lparr>ps_bundles = [], ps_storePath = path, ps_key = key\<rparr>"
  obtain f where "length key = 32" "d (path @ keyFileSuffix) = Some f" "fdata f = key"
    using assms(2) by (auto simp: on_disk_def)
  then have key: "loadOrCreateKey (ke_key env) d (path @ keyFileSuffix) = (Inr key, d)" "length key = 32"
    using key_file_loads [of d "path @ keyFileSuffix" f key "ke_key env"] assms(3) by (simp_all add: open_clean_def)
  have c: "ke_mkdirs env = None" "ke_load env = None" using assms(3) by (simp_all add: open_clean_def)
  consider "d path = None" "m = Map.empty"
    | g ps0 where "d path = Some g" "ps_wf ps0" "ps_key ps0 = key" "map_of (ps_bundles ps0) = m" "prekey_image cr ps0 (fdata g)"
    using assms(2) by (auto simp: on_disk_def)
  then show ?thesis
  proof cases
    case 1
    then show ?thesis using key c by (intro that [of "[]"]) (simp_all add: NewPrekeyStore_def prekey_loadFromDisk_def readFile_def ps_wf_def)
  next
    case (2 g ps0)
    obtain m' where l: "prekey_loadFromDisk cr env ?ps d = Inr (?ps\<lparr>ps_bundles := m'\<rparr>)"
      "map_of m' = map_of (ps_bundles ps0)" "gm_wf m'"
      using load_prekeys [OF assms(1) 2(2,5), of d ?ps env] 2 c by auto
    then have "ps_wf \<lparr>ps_bundles = m', ps_storePath = path, ps_key = key\<rparr>" using 2(2,3) by (simp add: ps_wf_def)
    with l 2(4) key(1) c(1) that show ?thesis by (simp add: NewPrekeyStore_def)
  qed
qed

lemma open_refines:
  assumes "gcm_correct cr" "on_disk cr path key d m" "dom d \<subseteq> busy" "path \<in> busy" "open_clean env"
    and "reopen cr path env (ps, d) = (r, w')"
  shows "r = Restarted True \<and> dir_rel cr busy path w' (map_option entry_of \<circ> m)"
proof -
  obtain m' where m: "NewPrekeyStore cr env d path = (Inr \<lparr>ps_bundles = m', ps_storePath = path, ps_key = key\<rparr>, d)"
    "map_of m' = m" "ps_wf \<lparr>ps_bundles = m', ps_storePath = path, ps_key = key\<rparr>"
    using reopen_on_disk [OF assms(1,2,5)] .
  then have "r = Restarted True" "w' = (\<lparr>ps_bundles = m', ps_storePath = path, ps_key = key\<rparr>, d)"
    using assms(6) by (simp_all add: reopen_def)
  with m assms(2-4) show ?thesis by (simp add: dir_rel_def)
qed

lemma op_refines:
  assumes "dir_rel cr busy path (ps, d) D" "op_clean busy path op" "prekey_op cr op (ps, d) = (r, ps', d')"
  shows "dir_call (request_of_op op) D = (r, map_option entry_of \<circ> map_of (ps_bundles ps'))"
    "dir_rel cr busy path (ps', d') (map_option entry_of \<circ> map_of (ps_bundles ps'))"
proof -
  have rel: "ps_wf ps" "ps_storePath ps = path" "on_disk cr path (ps_key ps) d (map_of (ps_bundles ps))"
    "dom d \<subseteq> busy" "path \<in> busy" "D = map_option entry_of \<circ> map_of (ps_bundles ps)"
    using assms(1) by (simp_all add: dir_rel_def)
  note op = op_saves [OF rel(1) assms(2,3)]
  have save: "prekey_persistLocked cr env ps' d = (None, d') \<and> dom d' \<subseteq> busy" if "save_of op ps = Some env" for env
    using persist_clean [of ps' busy env d cr] op(1,3) op(5) [OF that] rel(2,4,5) by (metis snd_conv)
  show "dir_call (request_of_op op) D = (r, map_option entry_of \<circ> map_of (ps_bundles ps'))"
    using op_in_memory [OF assms(3)] save rel(6) by simp
  have "on_disk cr path (ps_key ps') d' (map_of (ps_bundles ps')) \<and> dom d' \<subseteq> busy"
  proof (cases "save_of op ps")
    case None
    with op(4) rel show ?thesis by simp
  next
    case (Some env)
    with saved_on_disk [of cr path ps' d _ env d'] save op(1-3) rel(2,3) show ?thesis by auto
  qed
  with op(1,3) rel(2,5) show "dir_rel cr busy path (ps', d') (map_option entry_of \<circ> map_of (ps_bundles ps'))"
    by (simp add: dir_rel_def)
qed

text \<open>A save cut off leaves the old bundles or the new ones on disk.\<close>

lemma cut_save:
  assumes "replaceFile env d path pre sealed = (None, d1)" "\<not> suffix ''.tmp'' path"
  shows "(\<forall>p. p = path \<or> d p \<noteq> None \<longrightarrow> cutReplace cp env d path pre sealed p = d p) \<or> cutReplace cp env d path pre sealed = d1"
    and "dom (cutReplace cp env d path pre sealed)
      \<subseteq> dom d \<union> dom d1 \<union> set (map (tempName (filepathDir path) pre) (pe_names env))"
proof -
  have tmp: "tmp \<noteq> path \<and> d tmp = None \<and> tmp \<in> set (map (tempName (filepathDir path) pre) (pe_names env))"
    if "createTemp d (filepathDir path) pre (pe_names env) = Some tmp" for tmp
    using createTemp_suffix [OF that] createTemp_fresh [OF that] createTemp_name [OF that] assms(2) by blast
  show "(\<forall>p. p = path \<or> d p \<noteq> None \<longrightarrow> cutReplace cp env d path pre sealed p = d p) \<or> cutReplace cp env d path pre sealed = d1"
    "dom (cutReplace cp env d path pre sealed)
      \<subseteq> dom d \<union> dom d1 \<union> set (map (tempName (filepathDir path) pre) (pe_names env))"
    using assms(1) tmp by (cases cp; force simp: cutReplace_def split: option.splits)+
qed

lemma on_disk_same:
  assumes "on_disk cr path key d m" "\<forall>p. p = path \<or> d p \<noteq> None \<longrightarrow> d' p = d p"
  shows "on_disk cr path key d' m"
  using assms by (auto simp: on_disk_def)

lemma save_names: "save_of op ps = Some env \<Longrightarrow> left_behind path op = set (map (tempName (filepathDir path) ''prekeys-'') (pe_names env))"
  by (cases op) (auto split: if_splits)

lemma cut_on_disk:
  assumes "dir_rel cr busy path (ps, d) D" "\<not> suffix ''.tmp'' path" "op_clean busy path op"
    and "prekey_op cr op (ps, d) = (r, ps', d')"
  shows "(\<exists>m \<in> {map_of (ps_bundles ps), map_of (ps_bundles ps')}. on_disk cr path (ps_key ps) (cutDisk cr cp op (ps, d)) m)
    \<and> dom (cutDisk cr cp op (ps, d)) \<subseteq> busy \<union> left_behind path op"
proof (cases "save_of op ps")
  case None
  with assms(1) show ?thesis by (auto simp: cutDisk_def dir_rel_def)
next
  case (Some env)
  have rel: "ps_wf ps" "ps_storePath ps = path" "on_disk cr path (ps_key ps) d (map_of (ps_bundles ps))"
    "dom d \<subseteq> busy" "path \<in> busy" using assms(1) by (simp_all add: dir_rel_def)
  note op = op_saves [OF rel(1) assms(3,4)]
  have "save_clean busy ''prekeys-'' (ps_storePath ps') env" using op(3) op(5) [OF Some] rel(2) by simp
  then obtain sealed d1 where s: "encrypt cr (ps_key ps') (pe_rand env) (jprint (jsonBundles (ps_bundles ps'))) = Inr sealed"
    "replaceFile env d path ''prekeys-'' sealed = (None, d1)" "prekey_persistLocked cr env ps' d = (None, d1)" "dom d1 \<subseteq> busy"
    using persist_clean [OF op(1) _ rel(4), of env cr] op(3) rel(2,5) by auto
  have cut: "cutDisk cr cp op (ps, d) = cutReplace cp env d path ''prekeys-'' sealed"
    using Some s(1) assms(4) op(3) rel(2) by (simp add: cutDisk_def)
  have "on_disk cr path (ps_key ps) d1 (map_of (ps_bundles ps'))"
    using saved_on_disk [of cr path ps' d _ env d1] s(3) op(1-3) rel(2,3) by auto
  with cut_save [OF s(2) assms(2), of cp] on_disk_same [OF rel(3)] s(4) rel(4) show ?thesis
    unfolding cut save_names [OF Some] by blast
qed

lemma call_refines_dir:
  assumes "gcm_correct cr" "\<not> suffix ''.tmp'' path" "dir_rel cr busy path w D"
    and "call_clean path busy c" "prekey_call cr path c w = (r, w')"
  shows "\<exists>x D'. may_be c x \<and> dir_step x D = (r, D') \<and> dir_rel cr (busy_after path busy c) path w' D'"
proof -
  obtain ps d where w: "w = (ps, d)" by (cases w)
  note rel = assms(3) [unfolded w]
  have base: "on_disk cr path (ps_key ps) d (map_of (ps_bundles ps))" "dom d \<subseteq> busy" "path \<in> busy"
    "D = map_option entry_of \<circ> map_of (ps_bundles ps)" using rel by (simp_all add: dir_rel_def)
  show ?thesis
  proof (cases c)
    case (PCall op)
    then show ?thesis using op_refines [OF rel, of op] assms(4,5) by (cases w') (auto simp: w)
  next
    case (PRestart env)
    then show ?thesis using open_refines [OF assms(1) base(1-3), of env ps r w'] assms(4,5) base(4) by (auto simp: w)
  next
    case (PDies op cp env)
    obtain r1 ps1 d1 where o: "prekey_op cr op (ps, d) = (r1, ps1, d1)" by (metis prod_cases3)
    have ok: "op_clean busy path op" "open_clean env"
      using assms(4) PDies by simp_all
    let ?d = "cutDisk cr cp op (ps, d)"
    obtain m where m: "m \<in> {map_of (ps_bundles ps), map_of (ps_bundles ps1)}" "on_disk cr path (ps_key ps) ?d m"
      "dom ?d \<subseteq> busy \<union> left_behind path op" using cut_on_disk [OF rel assms(2) ok(1) o, of cp] by (elim conjE bexE) simp
    have new: "r = Restarted True \<and> dir_rel cr (busy \<union> left_behind path op) path w' (map_option entry_of \<circ> m)"
      using open_refines [OF assms(1) m(2,3) _ ok(2), of ps r w'] base(3) assms(5) PDies by (simp add: w)
    let ?x = "Dies (request_of_op op) (m \<noteq> map_of (ps_bundles ps))"
    have "dir_step ?x D = (Restarted True, map_option entry_of \<circ> m)"
      using m(1) op_refines(1) [OF rel ok(1) o] base(4) by auto
    moreover have "may_be c ?x" using PDies by simp
    moreover have "busy_after path busy c = busy \<union> left_behind path op" using PDies by simp
    ultimately show ?thesis using new by metis
  qed
qed

interpretation ds: simulation "prekey_call cr path" dir_step may_be "call_clean path" "busy_after path"
    "\<lambda>busy w D. gcm_correct cr \<and> \<not> suffix ''.tmp'' path \<and> dir_rel cr busy path w D" for cr path
  by unfold_locales (use call_refines_dir in blast)

text \<open>A store opened for the first time is an empty directory.\<close>

lemma first_dir_rel:
  assumes "NewPrekeyStore cr env Map.empty path = (Inr ps, d)" "dom d \<union> {path} \<subseteq> busy"
  shows "dir_rel cr busy path (ps, d) (\<lambda>u. None)"
proof -
  obtain key where lk: "loadOrCreateKey (ke_key env) Map.empty (path @ keyFileSuffix) = (Inr key, d)"
    and ld: "prekey_loadFromDisk cr env \<lparr>ps_bundles = [], ps_storePath = path, ps_key = key\<rparr> d = Inr ps"
    using assms(1) by (auto simp: NewPrekeyStore_def split: option.splits prod.splits sum.splits)
  have d: "d path = None" using loadOrCreateKey_frame [of path "path @ keyFileSuffix" "ke_key env" Map.empty] lk by simp
  have k: "\<exists>f. d (path @ keyFileSuffix) = Some f \<and> fdata f = key"
    using lk by (auto simp: loadOrCreateKey_def readFile_def writeFile_def Let_def
        split: sum.splits option.splits prod.splits if_splits writeOutcome.splits)
  have "ps = \<lparr>ps_bundles = [], ps_storePath = path, ps_key = key\<rparr>"
    using ld d by (auto simp: prekey_loadFromDisk_def readFile_def split: option.splits if_splits)
  with d k loadOrCreateKey_length [OF lk] assms(2) show ?thesis
    by (auto simp: dir_rel_def on_disk_def ps_wf_def)
qed

section \<open>Properties\<close>

text \<open>
  C3: The prekey store refines a directory.  From the first start on, every sequence of
  registrations, fetches, consumptions and lookups, with restarts anywhere and crashes at
  any point of any save, gets the replies of the abstract machine, in which a registration
  replaces an entry, a fetch hands out the next one-time prekey, a restart does nothing
  and a crash in the middle of a call means that the call took place entirely or not at
  all.  The saves meet no fault but the crash.
\<close>

theorem prekeys_refine_directory:
  assumes "gcm_correct cr" "\<not> suffix ''.tmp'' path" "NewPrekeyStore cr env Map.empty path = (Inr ps, d)"
    and "dom d \<union> {path} \<subseteq> busy" "allowed (call_clean path) (busy_after path) busy cs"
  shows "\<exists>xs. list_all2 may_be cs xs \<and> replies (prekey_call cr path) cs (ps, d) = replies dir_step xs (\<lambda>u. None)"
proof -
  have "gcm_correct cr \<and> \<not> suffix ''.tmp'' path \<and> dir_rel cr busy path (ps, d) (\<lambda>u. None)"
    using assms(1,2) first_dir_rel [OF assms(3,4)] by blast
  then show ?thesis using assms(5) by (rule ds.same_replies)
qed

section \<open>A concrete sequence of calls\<close>

text \<open>Bob publishes; the process dies while it saves the first fetch, and the prekey is served again.\<close>

definition demo_later_env :: persistEnv where
  "demo_later_env = demo_save_env\<lparr>pe_names := [''2'']\<rparr>"

definition demo_prekey_calls :: "prekeyCall list" where
  "demo_prekey_calls = [PCall (PRegister demo_save_env ''bob'' demo_bundle),
     PDies (PGet demo_save_env ''bob'' True) (Writing 5) demo_prekey_start,
     PCall (PGet demo_later_env ''bob'' True), PRestart demo_prekey_start, PCall (PIdentity ''bob''),
     PCall (PConsume demo_later_env ''bob''), PCall (PGet demo_later_env ''bob'' True)]"

lemma demo_prekey_calls_ok: "allowed (call_clean ''p'') (busy_after ''p'') {''p'', ''p.key''} demo_prekey_calls"
proof -
  have "filepathDir ''p'' = ''.''" "tempName ''.'' ''prekeys-'' ''1'' = ''./prekeys-1.tmp''"
    "tempName ''.'' ''prekeys-'' ''2'' = ''./prekeys-2.tmp''" by code_simp+
  moreover have "valid_utf8 ''bob''" by (rule valid_utf8_key) (simp add: code_def)
  ultimately show ?thesis
    by (simp add: demo_prekey_calls_def demo_later_env_def save_clean_def demo_save_env_def gcmNonceSize_def
        open_clean_def demo_prekey_start_def)
qed

theorem prekeys_refine_directory_witness:
  "\<exists>r rs. replies (prekey_call plainCrypto ''p'') demo_prekey_calls (demo_ps0, demo_pd0)
     = [Accepted True, Restarted True, Served (Some r), Restarted True, Identity (Some (pb_IdentityKey demo_bundle))] @ rs"
proof -
  have "dom demo_pd0 \<union> {''p''} \<subseteq> {''p'', ''p.key''}" by (auto simp: demo_pd0_def)
  from prekeys_refine_directory [OF plainCrypto_gcm demo_path demo_prekey_first this demo_prekey_calls_ok]
  obtain xs where xs: "list_all2 may_be demo_prekey_calls xs"
    "replies (prekey_call plainCrypto ''p'') demo_prekey_calls (demo_ps0, demo_pd0) = replies dir_step xs (\<lambda>u. None)" by blast
  then show ?thesis
    by (auto simp: demo_prekey_calls_def list_all2_Cons1 demo_bundle_ok)
      (auto simp: demo_bundle_def staticResponse_def)
qed

end
