(* ===== verification/Prekey_Gets.thy ===== *)
theory Prekey_Gets
  imports Server_Props "HOL-Library.Multiset"
begin

text \<open>
  The public prekey endpoint at the granularity of its mutexes.  A request asks the limiter
  in one critical section and takes the bundle, with or without a one-time prekey, in
  another; other requests, registrations and whatever else the relay does may run in
  between.

  Shown: the two sections in a row are \<open>handlePrekeysGet\<close>; nothing else touches the limiter;
  and the number of one-time prekeys of a user that go out in responses is bounded, in every
  interleaving.
\<close>

section \<open>Requests in progress\<close>

datatype getTask =
    Received request
  | Decided string time bool
  | Replied string time "PrekeyResponse option"
  | Rejected response

fun get_limit :: "time \<Rightarrow> Server \<Rightarrow> getTask \<Rightarrow> getTask \<times> Server" where
  "get_limit now sv (Received r) =
     (if rq_method r \<noteq> ''GET'' then (Rejected (methodNotAllowed ''GET''), sv)
      else
        let userID = trimPrefix (rq_path r) ''/prekeys/'' in
        if userID = [] \<or> containsAny userID ''/?#'' then (Rejected (reply 404), sv)
        else (case rateLimiter_allow (sv_prekeyLimiter sv) userID now of (consumeOTPK, lim) \<Rightarrow>
          (Decided userID now consumeOTPK, sv\<lparr>sv_prekeyLimiter := lim\<rparr>)))"
| "get_limit now sv t = (t, sv)"

fun get_fetch :: "crypto \<Rightarrow> persistEnv \<Rightarrow> Server \<times> fs \<Rightarrow> getTask \<Rightarrow> getTask \<times> Server \<times> fs" where
  "get_fetch cr env w (Decided userID now consumeOTPK) =
     (case getBundleWithOTPK cr env (sv_prekeys (fst w), snd w) userID consumeOTPK of (resp, ps, disk') \<Rightarrow>
        (Replied userID now resp, (fst w)\<lparr>sv_prekeys := ps\<rparr>, disk'))"
| "get_fetch cr env w t = (t, w)"

fun get_response :: "getTask \<Rightarrow> response option" where
  "get_response (Rejected r) = Some r"
| "get_response (Replied userID now None) = Some (reply 404)"
| "get_response (Replied userID now (Some b)) = Some (jsonReply (jsonResponse b))"
| "get_response t = None"

lemma sections_are_handler:
  "handlePrekeysGet cr now env (sv, d) r =
     (case get_limit now sv (Received r) of (t, sv1) \<Rightarrow>
      case get_fetch cr env (sv1, d) t of (t', w') \<Rightarrow> (the (get_response t'), w'))"
  by (auto simp: handlePrekeysGet_def Let_def split: prod.split option.split)

section \<open>Interleavings\<close>

text \<open>
  \<open>Others sv d\<close> is anything the rest of the relay does: it may replace the whole server and
  the disk, but not the limiter of this endpoint.
\<close>

record getNet =
  gn_server :: Server
  gn_disk :: fs
  gn_tasks :: "getTask list"

datatype getEvent =
    Request request
  | Limit nat time
  | Fetch nat persistEnv
  | Others Server fs

fun getNet_step :: "crypto \<Rightarrow> getEvent \<Rightarrow> getNet \<Rightarrow> getNet" where
  "getNet_step cr (Request r) n = n\<lparr>gn_tasks := gn_tasks n @ [Received r]\<rparr>"
| "getNet_step cr (Limit i now) n =
     (if i < length (gn_tasks n)
      then (case get_limit now (gn_server n) (gn_tasks n ! i) of (t, sv) \<Rightarrow>
        n\<lparr>gn_server := sv, gn_tasks := (gn_tasks n)[i := t]\<rparr>)
      else n)"
| "getNet_step cr (Fetch i env) n =
     (if i < length (gn_tasks n)
      then (case get_fetch cr env (gn_server n, gn_disk n) (gn_tasks n ! i) of (t, sv, d) \<Rightarrow>
        n\<lparr>gn_server := sv, gn_disk := d, gn_tasks := (gn_tasks n)[i := t]\<rparr>)
      else n)"
| "getNet_step cr (Others sv d) n =
     n\<lparr>gn_server := sv\<lparr>sv_prekeyLimiter := sv_prekeyLimiter (gn_server n)\<rparr>, gn_disk := d\<rparr>"

fun getNet_run :: "crypto \<Rightarrow> getEvent list \<Rightarrow> getNet \<Rightarrow> getNet" where
  "getNet_run cr [] n = n"
| "getNet_run cr (e # es) n = getNet_run cr es (getNet_step cr e n)"

fun limit_times :: "getEvent list \<Rightarrow> time list" where
  "limit_times [] = []"
| "limit_times (Limit i now # es) = now # limit_times es"
| "limit_times (_ # es) = limit_times es"

text \<open>Everything else the server does leaves the limiter of the endpoint alone.\<close>

lemma others_keep_limiter:
  "handleAuthedFrame cr drv fenv (sv, d) u c data = (acts, sv', d') \<Longrightarrow> sv_prekeyLimiter sv' = sv_prekeyLimiter sv"
  "handleFederationDeliver cr drv denv (sv, d) r = (resp, acts, sv', d') \<Longrightarrow> sv_prekeyLimiter sv' = sv_prekeyLimiter sv"
  "openConn cr drv aenv flenv (sv, d) c addr = (uid, acts, sv', d') \<Longrightarrow> sv_prekeyLimiter sv' = sv_prekeyLimiter sv"
  "closeConn (sv, d) u c = (sv', d') \<Longrightarrow> sv_prekeyLimiter sv' = sv_prekeyLimiter sv"
  by (auto simp: handleAuthedFrame_def issueSenderCert_def handleFederationDeliver_def openConn_def closeConn_def Let_def
      split: prod.splits bool.splits option.splits if_splits)

section \<open>The budget\<close>

text \<open>The one-time prekeys that went out, and those a request in progress may still take.\<close>

fun handed_out :: "string \<Rightarrow> getTask \<Rightarrow> time list" where
  "handed_out u (Replied v now (Some b)) = (if v = u \<and> pr_OneTimePrekey b \<noteq> None then [now] else [])"
| "handed_out u t = []"

fun entitled :: "string \<Rightarrow> getTask \<Rightarrow> time list" where
  "entitled u (Decided v now consume) = (if v = u \<and> consume then [now] else [])"
| "entitled u t = handed_out u t"

definition budget_kept :: "time \<Rightarrow> time \<Rightarrow> string \<Rightarrow> getNet \<Rightarrow> bool" where
  "budget_kept \<delta> prev u n \<longleftrightarrow> perMin (sv_prekeyLimiter (gn_server n)) = 10
     \<and> (\<exists>A. tracks (rateLimiter_hist (sv_prekeyLimiter (gn_server n)) u) A prev \<and> window_ok (minute - \<delta>) 10 A
          \<and> mset (concat (map (entitled u) (gn_tasks n))) \<subseteq># mset A)"

lemma concat_update_mset:
  assumes "i < length ts"
  shows "mset (concat (map f (ts[i := t]))) + mset (f (ts ! i)) = mset (concat (map f ts)) + mset (f t)"
  using assms
proof (induction ts arbitrary: i)
  case (Cons x ts)
  then show ?case by (cases i) (auto simp: ac_simps)
qed simp

lemma entitled_update:
  assumes "i < length ts" "mset (f t) \<subseteq># mset (f (ts ! i)) + G" "mset (concat (map f ts)) \<subseteq># M"
  shows "mset (concat (map f (ts[i := t]))) \<subseteq># M + G"
proof -
  have "mset (concat (map f (ts[i := t]))) + mset (f (ts ! i)) \<subseteq># M + (mset (f (ts ! i)) + G)"
    unfolding concat_update_mset [OF assms(1)] by (rule subset_mset.add_mono [OF assms(3,2)])
  then show ?thesis by (metis (no_types, lifting) add.assoc add.commute subset_mset.add_le_cancel_right)
qed

lemma no_prekey_unless_consumed:
  assumes "getBundleWithOTPK cr env w u consume = (Some b, w')" "pr_OneTimePrekey b \<noteq> None"
  shows consume
  using assms
  by (cases w) (auto simp: getBundleWithOTPK_def staticResponse_def Let_def split: option.splits bool.splits list.splits)

lemma fetch_entitled:
  assumes "get_fetch cr env w t = (t', w')"
  shows "mset (entitled u t') \<subseteq># mset (entitled u t) + {#}"
    and "sv_prekeyLimiter (fst w') = sv_prekeyLimiter (fst w)"
proof -
  have "mset (entitled u t') \<subseteq># mset (entitled u t) \<and> sv_prekeyLimiter (fst w') = sv_prekeyLimiter (fst w)"
  proof (cases t)
    case (Decided v now consume)
    obtain resp ps d where g: "getBundleWithOTPK cr env (sv_prekeys (fst w), snd w) v consume = (resp, ps, d)"
      by (metis prod_cases3)
    have "pr_OneTimePrekey b = None" if "resp = Some b" "\<not> consume" for b
      using no_prekey_unless_consumed [of cr env _ v consume b "(ps, d)"] g that by blast
    with g assms Decided show ?thesis by (cases resp) auto
  qed (use assms in auto)
  then show "mset (entitled u t') \<subseteq># mset (entitled u t) + {#}"
    "sv_prekeyLimiter (fst w') = sv_prekeyLimiter (fst w)" by simp_all
qed

lemma limit_budget:
  assumes "budget_kept \<delta> prev u n" "0 \<le> \<delta>" "prev \<le> now + \<delta>"
  shows "budget_kept \<delta> (max prev now) u (getNet_step cr (Limit i now) n)"
proof -
  let ?l = "sv_prekeyLimiter (gn_server n)"
  from assms(1) obtain A where A: "perMin ?l = 10" "tracks (rateLimiter_hist ?l u) A prev" "window_ok (minute - \<delta>) 10 A"
    "mset (concat (map (entitled u) (gn_tasks n))) \<subseteq># mset A" by (auto simp: budget_kept_def)
  have late: "budget_kept \<delta> (max prev now) u n" using A by (auto simp: budget_kept_def tracks_def)
  show ?thesis
  proof (cases "i < length (gn_tasks n)")
    case True
    obtain t sv where t: "get_limit now (gn_server n) (gn_tasks n ! i) = (t, sv)" by fastforce
    show ?thesis
    proof (cases "\<exists>v ok. t = Decided v now ok \<and> gn_tasks n ! i \<noteq> t")
      case True
      then obtain v ok where v: "t = Decided v now ok" "gn_tasks n ! i \<noteq> t" by blast
      have call: "rateLimiter_allow ?l v now = (ok, sv_prekeyLimiter sv)" "entitled u (gn_tasks n ! i) = []"
        using t v by (cases "gn_tasks n ! i"; auto simp: Let_def split: if_splits prod.splits)+
      let ?g = "if v = u \<and> fst (rateLimiter_allow ?l v now) then [now] else []"
      have "mset (entitled u t) \<subseteq># mset (entitled u (gn_tasks n ! i)) + mset ?g" using v(1) call by simp
      from entitled_update [OF \<open>i < length (gn_tasks n)\<close> this A(4)]
      have "mset (concat (map (entitled u) ((gn_tasks n)[i := t]))) \<subseteq># mset (A @ ?g)" by simp
      moreover have "tracks (rateLimiter_hist (sv_prekeyLimiter sv) u) (A @ ?g) (max prev now)"
        using rl.tracks_allow [OF A(2), of v now] call(1) by simp
      moreover have "window_ok (minute - \<delta>) 10 (A @ ?g)"
        using rl.window_allow [OF A(2) assms(3,2), of v] A(1,3) by simp
      moreover have "perMin (sv_prekeyLimiter sv) = 10" using rl.keeps_lim [of ?l v now] call(1) A(1) by simp
      ultimately show ?thesis using t \<open>i < length (gn_tasks n)\<close> by (auto simp: budget_kept_def)
    next
      case False
      then have same: "sv = gn_server n" "entitled u t = entitled u (gn_tasks n ! i)"
        using t by (cases "gn_tasks n ! i"; auto simp: Let_def split: if_splits prod.splits)+
      from entitled_update [OF \<open>i < length (gn_tasks n)\<close>, of "entitled u" t "{#}" "mset A"] same(2) A(4)
      have "mset (concat (map (entitled u) ((gn_tasks n)[i := t]))) \<subseteq># mset A" by simp
      then show ?thesis using t \<open>i < length (gn_tasks n)\<close> same(1) A(1-3) by (auto simp: budget_kept_def tracks_def)
    qed
  qed (use late in simp)
qed

lemma fetch_budget:
  assumes "budget_kept \<delta> prev u n"
  shows "budget_kept \<delta> prev u (getNet_step cr (Fetch i env) n)"
proof (cases "i < length (gn_tasks n)")
  case True
  obtain t sv d where t: "get_fetch cr env (gn_server n, gn_disk n) (gn_tasks n ! i) = (t, sv, d)" by (metis prod_cases3)
  have "mset (concat (map (entitled u) ((gn_tasks n)[i := t]))) \<subseteq># M"
    if "mset (concat (map (entitled u) (gn_tasks n))) \<subseteq># M" for M
    using entitled_update [OF True fetch_entitled(1) [OF t] that] by simp
  with fetch_entitled(2) [OF t] t True assms show ?thesis by (auto simp: budget_kept_def)
qed (use assms in simp)

lemma run_budget:
  assumes "budget_kept \<delta> prev u n" "0 \<le> \<delta>" "skewed \<delta> (prev # limit_times es)"
  shows "\<exists>prev'. budget_kept \<delta> prev' u (getNet_run cr es n)"
  using assms(1,3)
proof (induction es arbitrary: n prev)
  case (Cons e es)
  show ?case
  proof (cases e)
    case (Limit i now)
    with Cons.prems have s: "prev \<le> now + \<delta>" "skewed \<delta> (max prev now # limit_times es)" by auto
    from Cons.IH [OF limit_budget [OF Cons.prems(1) assms(2) s(1)] s(2), of cr i] Limit show ?thesis by simp
  next
    case (Fetch i env)
    with Cons.IH [OF fetch_budget [OF Cons.prems(1)], of cr i env] Cons.prems(2) show ?thesis by simp
  next
    case (Request r)
    have "budget_kept \<delta> prev u (getNet_step cr e n)" using Cons.prems(1) Request by (simp add: budget_kept_def)
    with Cons.IH Cons.prems(2) Request show ?thesis by simp
  next
    case (Others sv d)
    have "budget_kept \<delta> prev u (getNet_step cr e n)" using Cons.prems(1) Others by (simp add: budget_kept_def)
    with Cons.IH Cons.prems(2) Others show ?thesis by simp
  qed
qed auto

section \<open>Properties\<close>

text \<open>
  C23: Draining a victim's one-time prekeys over the public endpoint is bounded.  In every
  interleaving of requests with each other and with anything else the relay does, refilling
  the pool included, at most 10 responses that carry a one-time prekey of a given user were
  decided in any window of a minute less \<open>\<delta>\<close>.  No request is decided by the limiter after one
  that read the clock more than \<open>\<delta>\<close> later.
\<close>

theorem prekey_drain_bounded:
  assumes "sv_prekeyLimiter sv = newRateLimiter prekeyFetchesPerMinPerTarget" "0 \<le> \<delta>" "skewed \<delta> (limit_times es)"
    and "n = getNet_run cr es \<lparr>gn_server = sv, gn_disk = d, gn_tasks = []\<rparr>"
  shows "length (filter (\<lambda>t. \<exists>now b. t = Replied u now (Some b) \<and> pr_OneTimePrekey b \<noteq> None
      \<and> T - (minute - \<delta>) < now \<and> now \<le> T) (gn_tasks n)) \<le> 10"
proof -
  let ?start = "\<lparr>gn_server = sv, gn_disk = d, gn_tasks = []\<rparr>"
  obtain prev where "\<forall>t \<in> set (limit_times es). prev \<le> t + \<delta>" using early_enough by blast
  with assms(3) have "skewed \<delta> (prev # limit_times es)" by simp
  moreover have "budget_kept \<delta> prev u ?start"
    using assms(1) by (auto simp: budget_kept_def newRateLimiter_def prekeyFetchesPerMinPerTarget_def
        rateLimiter_hist_def window_of_def tracks_def intro: exI [of _ "[]"])
  ultimately obtain prev' where "budget_kept \<delta> prev' u n"
    using run_budget [OF _ assms(2)] assms(4) by blast
  then obtain A where A: "window_ok (minute - \<delta>) 10 A" "mset (concat (map (entitled u) (gn_tasks n))) \<subseteq># mset A"
    by (auto simp: budget_kept_def)
  have "length (filter (\<lambda>t. \<exists>now b. t = Replied u now (Some b) \<and> pr_OneTimePrekey b \<noteq> None
      \<and> T - (minute - \<delta>) < now \<and> now \<le> T) ts) \<le> length (in_window (minute - \<delta>) T (concat (map (entitled u) ts)))" for ts
    by (induction ts) (auto simp: in_window_def)
  also have "length (in_window (minute - \<delta>) T (concat (map (entitled u) (gn_tasks n)))) \<le> length (in_window (minute - \<delta>) T A)"
    using size_mset_mono [OF multiset_filter_mono [OF A(2)]] unfolding in_window_def by (metis mset_filter size_mset)
  also have "\<dots> \<le> 10" using A(1) by (simp add: window_ok_def)
  finally show ?thesis .
qed

section \<open>A concrete interleaving\<close>

text \<open>Two requests are decided out of order; a third one is under way.\<close>

definition demo_gets :: "getEvent list" where
  "demo_gets = [Request get_bob, Request get_bob, Limit 1 6, Request get_bob, Limit 0 5, Fetch 0 demo_save_env, Fetch 1 demo_save_env]"

theorem prekey_drain_bounded_witness:
  "length (filter (\<lambda>t. \<exists>now b. t = Replied ''bob'' now (Some b) \<and> pr_OneTimePrekey b \<noteq> None
      \<and> 10 - (minute - 2) < now \<and> now \<le> 10)
    (gn_tasks (getNet_run plainCrypto demo_gets \<lparr>gn_server = demo_server, gn_disk = Map.empty, gn_tasks = []\<rparr>))) \<le> 10"
proof (rule prekey_drain_bounded [OF _ _ _ refl])
  show "sv_prekeyLimiter demo_server = newRateLimiter prekeyFetchesPerMinPerTarget" by (simp add: demo_server_def)
qed (simp_all add: demo_gets_def)

end
