(* ===== verification/Key_Rotation.thy ===== *)
theory Key_Rotation
  imports Sealed_CA
begin

text \<open>
  Rotation of the key of the sealed-sender authority over many generations, as the comment
  of \<^verbatim>\<open>SealedCA\<close> in \<^verbatim>\<open>server/sealed_ca.go\<close> describes it: the operator moves the key file to
  \<^verbatim>\<open><path>.prev\<close> and restarts; a client that has pinned a key accepts another one only with
  a proof that verifies under the pinned key.

  Shown: a client that looks in after every start follows any number of rotations, and one
  that misses a rotation is left behind.
\<close>

section \<open>Starts and rotations\<close>

datatype caEvent = Rotate caEnv | Again caEnv

fun ca_start :: "crypto \<Rightarrow> string \<Rightarrow> caEvent \<Rightarrow> fs \<Rightarrow> (goErr + SealedCA) \<times> fs" where
  "ca_start cr path (Rotate env) d = NewSealedCA cr env (renameFile d path (path @ ''.prev'')) path"
| "ca_start cr path (Again env) d = NewSealedCA cr env d path"

text \<open>The authorities that come up one after the other; a start that fails ends the run.\<close>

fun ca_run :: "crypto \<Rightarrow> string \<Rightarrow> caEvent list \<Rightarrow> fs \<Rightarrow> SealedCA list" where
  "ca_run cr path [] d = []"
| "ca_run cr path (ev # evs) d =
     (case ca_start cr path ev d of (Inl e, d') \<Rightarrow> [] | (Inr ca, d') \<Rightarrow> ca # ca_run cr path evs d')"

section \<open>A client with a pinned key\<close>

text \<open>
  What a client makes of the strings served at \<^verbatim>\<open>/sealed-ca\<close>: it keeps its key, adopts the
  new one, or gives up.
\<close>

definition adopt :: "crypto \<Rightarrow> bytes \<Rightarrow> SealedCA \<Rightarrow> bytes option" where
  "adopt cr pin ca =
     (let pub = fst (b64_decode (PublicKeyB64 ca)); (prev, sig) = RotationProofB64 ca in
      if pub = pin then Some pin
      else if prev = b64_encode pin \<and> edVerify cr pin pub (fst (b64_decode sig)) then Some pub
      else None)"

fun adopt_all :: "crypto \<Rightarrow> bytes \<Rightarrow> SealedCA list \<Rightarrow> bytes option" where
  "adopt_all cr pin [] = Some pin"
| "adopt_all cr pin (ca # cas) = (case adopt cr pin ca of None \<Rightarrow> None | Some pin' \<Rightarrow> adopt_all cr pin' cas)"

fun env_of :: "caEvent \<Rightarrow> caEnv" where
  "env_of (Rotate env) = env"
| "env_of (Again env) = env"

definition ca_clean :: "caEnv \<Rightarrow> bool" where
  "ca_clean env \<longleftrightarrow> ce_read env = None \<and> 32 \<le> length (ce_seed env) \<and> ce_mkdir env = None
     \<and> ce_write env = WriteOk \<and> ce_prev env = None"

text \<open>The authority that is up has its genuine key in the key file.\<close>

definition ca_up :: "crypto \<Rightarrow> string \<Rightarrow> SealedCA \<Rightarrow> fs \<Rightarrow> bool" where
  "ca_up cr path ca d \<longleftrightarrow> (\<exists>f. d path = Some f \<and> fdata f = ca_priv ca) \<and> genuine cr (ca_priv ca)
     \<and> ca_pub ca = keyPublic (ca_priv ca)"

lemma b64_encode_inj: "b64_encode x = b64_encode y \<longleftrightarrow> x = y"
  by (metis b64_decode_encode prod.inject)

lemma prev_path [simp]: "path @ ''.prev'' \<noteq> path" "path \<noteq> path @ ''.prev''"
  by simp_all

lemma start_up:
  assumes "ed25519_correct cr" "key_file_ok cr d path" "NewSealedCA cr env d path = (Inr ca, d')"
  shows "ca_up cr path ca d'"
  using NewSealedCA_genuine [OF assms(3,1,2)] NewSealedCA_file [OF assms(3)] by (auto simp: ca_up_def)

text \<open>A restart keeps the key.\<close>

lemma again_step:
  assumes "ca_up cr path ca d" "ca_clean env"
  obtains ca' where "NewSealedCA cr env d path = (Inr ca', d)" "ca_up cr path ca' d" "adopt cr (ca_pub ca) ca' = Some (ca_pub ca')"
proof -
  let ?ca = "withRotation cr (readPrevKey (ce_prev env) d path)
      \<lparr>ca_priv = ca_priv ca, ca_pub = keyPublic (ca_priv ca), ca_prevPub = None, ca_rotationSig = []\<rparr>"
  obtain f where f: "d path = Some f" "fdata f = ca_priv ca" "genuine cr (ca_priv ca)" "ca_pub ca = keyPublic (ca_priv ca)"
    using assms(1) by (auto simp: ca_up_def)
  then have "NewSealedCA cr env d path = (Inr ?ca, d)"
    using assms(2) by (simp add: NewSealedCA_def readFile_def ca_clean_def genuine_def privateKeySize_def)
  moreover have "ca_up cr path ?ca d" using f by (simp add: ca_up_def)
  moreover have "adopt cr (ca_pub ca) ?ca = Some (ca_pub ?ca)"
    using f(4) by (simp add: adopt_def PublicKeyB64_def b64_decode_encode split_beta)
  ultimately show ?thesis using that by blast
qed

text \<open>A rotation mints a key and proves it under the one before.\<close>

lemma rotate_step:
  assumes "ed25519_correct cr" "ca_up cr path ca d" "ca_clean env"
  obtains ca' d' where "NewSealedCA cr env (renameFile d path (path @ ''.prev'')) path = (Inr ca', d')"
    "ca_up cr path ca' d'" "adopt cr (ca_pub ca) ca' = Some (ca_pub ca')" "ca_prevPub ca' = Some (ca_pub ca)"
proof -
  let ?d = "renameFile d path (path @ ''.prev'')"
  obtain f where f: "d path = Some f" "fdata f = ca_priv ca" "genuine cr (ca_priv ca)" "ca_pub ca = keyPublic (ca_priv ca)"
    using assms(2) by (auto simp: ca_up_def)
  have d: "?d path = None" "?d (path @ ''.prev'') = Some f" using f(1) by (simp_all add: renameFile_def)
  obtain pub priv where g: "generateKey cr (ce_seed env) = Inr (pub, priv)"
    using assms(3) by (simp add: generateKey_def ca_clean_def Let_def)
  let ?d' = "?d(path \<mapsto> \<lparr>fdata = priv, fmode = mode0600\<rparr>)"
  let ?ca = "withRotation cr (Some (ca_priv ca)) \<lparr>ca_priv = priv, ca_pub = pub, ca_prevPub = None, ca_rotationSig = []\<rparr>"
  have "readPrevKey (ce_prev env) ?d' path = Some (ca_priv ca)"
    using d(2) f(2,3) assms(3) by (simp add: readPrevKey_def readFile_def ca_clean_def privateKeySize_def genuine_def)
  then have s: "NewSealedCA cr env ?d path = (Inr ?ca, ?d')"
    using d(1) g assms(3) by (simp add: NewSealedCA_def readFile_def ca_clean_def writeFile_def)
  have "key_file_ok cr ?d path" using d(1) by (simp add: key_file_ok_def)
  from start_up [OF assms(1) this s] have up: "ca_up cr path ?ca ?d'" .
  have "adopt cr (ca_pub ca) ?ca = Some (ca_pub ?ca)"
    using genuine_signs [OF assms(1) f(3), of pub] f(4)
    by (simp add: adopt_def PublicKeyB64_def RotationProofB64_def withRotation_def b64_decode_encode)
  with s up f(4) that [of ?ca ?d'] show ?thesis by (simp add: withRotation_def)
qed

lemma ca_start_step:
  assumes "ed25519_correct cr" "ca_up cr path ca d" "ca_clean (env_of ev)"
  obtains ca' d' where "ca_start cr path ev d = (Inr ca', d')" "ca_up cr path ca' d'"
    "adopt cr (ca_pub ca) ca' = Some (ca_pub ca')"
proof (cases ev)
  case (Rotate env)
  with assms(3) show ?thesis using rotate_step [OF assms(1,2), of env] that by auto
next
  case (Again env)
  with assms(3) show ?thesis using again_step [OF assms(2), of env] that by auto
qed

section \<open>Properties\<close>

text \<open>
  C33: A pinned client can follow every rotation.  Whatever sequence of restarts and
  rotations the operator makes, with no fault, every start succeeds, and a client that
  pinned the key of the first start and looks in after each of them accepts every key and
  ends up with the one that is served.
\<close>

theorem rotations_followed:
  assumes "ed25519_correct cr" "key_file_ok cr d0 path" "NewSealedCA cr env d0 path = (Inr ca, d)"
    and "\<forall>ev \<in> set evs. ca_clean (env_of ev)"
  shows "length (ca_run cr path evs d) = length evs
    \<and> adopt_all cr (ca_pub ca) (ca_run cr path evs d) = Some (ca_pub (last (ca # ca_run cr path evs d)))"
  using start_up [OF assms(1-3)] assms(4)
proof (induction evs arbitrary: ca d)
  case (Cons ev evs)
  obtain ca' d' where s: "ca_start cr path ev d = (Inr ca', d')" "ca_up cr path ca' d'"
    "adopt cr (ca_pub ca) ca' = Some (ca_pub ca')"
    using ca_start_step [OF assms(1) Cons.prems(1)] Cons.prems(2) by auto
  from Cons.IH [OF s(2)] Cons.prems(2) s(1,3) show ?case by simp
qed simp

text \<open>
  The authority proves a key under its immediate predecessor only: a client that was away
  for two rotations gives up, although nothing went wrong.
\<close>

theorem missed_rotation_strands:
  assumes "ed25519_correct cr" "key_file_ok cr d0 path" "NewSealedCA cr env0 d0 path = (Inr ca0, d)"
    and "ca_clean env1" "ca_clean env2" "ca_run cr path [Rotate env1, Rotate env2] d = [ca1, ca2]"
    and "ca_pub ca0 \<noteq> ca_pub ca1" "ca_pub ca0 \<noteq> ca_pub ca2"
  shows "adopt cr (ca_pub ca0) ca2 = None"
proof -
  obtain ca1' d1 where 1: "NewSealedCA cr env1 (renameFile d path (path @ ''.prev'')) path = (Inr ca1', d1)" "ca_up cr path ca1' d1"
    using rotate_step [OF assms(1) start_up [OF assms(1-3)] assms(4)] by blast
  obtain ca2' d2 where 2: "NewSealedCA cr env2 (renameFile d1 path (path @ ''.prev'')) path = (Inr ca2', d2)"
    "ca_prevPub ca2' = Some (ca_pub ca1')"
    using rotate_step [OF assms(1) 1(2) assms(5)] by blast
  have eq: "ca1' = ca1" "ca2' = ca2" using assms(6) 1(1) 2(1) by simp_all
  have "ca_pub ca0 \<noteq> []"
    using start_up [OF assms(1-3)] by (auto simp: ca_up_def genuine_def keyPublic_def)
  then have "b64_encode (ca_pub ca0) \<noteq> []" by (metis b64_encode_inj b64_encode.simps(1))
  then have "fst (RotationProofB64 ca2) \<noteq> b64_encode (ca_pub ca0)"
    using 2(2) eq assms(7) by (auto simp: RotationProofB64_def b64_encode_inj)
  with assms(8) show ?thesis
    by (auto simp: adopt_def PublicKeyB64_def b64_decode_encode split_beta Let_def)
qed

section \<open>Witnesses\<close>

definition demo_seeded :: "char \<Rightarrow> caEnv" where
  "demo_seeded c = demo_ca_env\<lparr>ce_seed := replicate 32 c\<rparr>"

definition demo_ca_file :: fs where
  "demo_ca_file = demo_ca_disk(''ca'' \<mapsto> \<lparr>fdata = replicate 64 CHR ''s'', fmode = mode0600\<rparr>)"

lemma demo_seeded_clean: "ca_clean (demo_seeded c)"
  by (simp add: ca_clean_def demo_seeded_def demo_ca_env_def)

lemma demo_ca_file_ok: "key_file_ok plainCrypto demo_ca_disk ''ca''"
  by (simp add: key_file_ok_def demo_ca_disk_def)

theorem rotations_followed_witness:
  "adopt_all plainCrypto (ca_pub demo_ca)
     (ca_run plainCrypto ''ca'' [Rotate (demo_seeded CHR ''t''), Again (demo_seeded CHR ''v''), Rotate (demo_seeded CHR ''u'')] demo_ca_file)
   = Some (replicate 32 CHR ''u'')"
proof -
  let ?evs = "[Rotate (demo_seeded CHR ''t''), Again (demo_seeded CHR ''v''), Rotate (demo_seeded CHR ''u'')]"
  have "\<forall>ev \<in> set ?evs. ca_clean (env_of ev)" by (simp add: demo_seeded_clean)
  from rotations_followed [OF plainCrypto_ed demo_ca_file_ok demo_ca_start [folded demo_ca_file_def] this]
  have "adopt_all plainCrypto (ca_pub demo_ca) (ca_run plainCrypto ''ca'' ?evs demo_ca_file)
      = Some (ca_pub (last (demo_ca # ca_run plainCrypto ''ca'' ?evs demo_ca_file)))" by blast
  moreover have "ca_pub (last (demo_ca # ca_run plainCrypto ''ca'' ?evs demo_ca_file)) = replicate 32 CHR ''u''"
    by (simp add: demo_ca_file_def demo_ca_disk_def NewSealedCA_def renameFile_def readFile_def demo_seeded_def demo_ca_env_def
        generateKey_def plainCrypto_def writeFile_def privateKeySize_def Let_def)
  ultimately show ?thesis by simp
qed

theorem missed_rotation_strands_witness:
  "\<exists>ca1 ca2. ca_run plainCrypto ''ca'' [Rotate (demo_seeded CHR ''t''), Rotate (demo_seeded CHR ''u'')] demo_ca_file = [ca1, ca2]
     \<and> adopt plainCrypto (ca_pub demo_ca) ca2 = None"
proof -
  let ?run = "ca_run plainCrypto ''ca'' [Rotate (demo_seeded CHR ''t''), Rotate (demo_seeded CHR ''u'')] demo_ca_file"
  obtain ca1 ca2 where r: "?run = [ca1, ca2]" "ca_pub ca1 = replicate 32 CHR ''t''" "ca_pub ca2 = replicate 32 CHR ''u''"
    by (simp add: demo_ca_file_def demo_ca_disk_def NewSealedCA_def renameFile_def readFile_def demo_seeded_def demo_ca_env_def
        generateKey_def plainCrypto_def writeFile_def privateKeySize_def Let_def)
  have "adopt plainCrypto (ca_pub demo_ca) ca2 = None"
    by (rule missed_rotation_strands [OF plainCrypto_ed demo_ca_file_ok demo_ca_start [folded demo_ca_file_def]
          demo_seeded_clean demo_seeded_clean r(1)]) (simp_all add: r demo_ca_def)
  with r(1) show ?thesis by blast
qed

end
