(* ===== verification/Fair_Delivery.thy ===== *)
theory Fair_Delivery
  imports Interleaving
begin

text \<open>
  Liveness of the interleaved system of theory \<open>Interleaving\<close>.  A schedule is an infinite
  sequence of events; it is fair if every goroutine that has something left to do gets its
  turn again.  A goroutine that waits for the next frame of its client has not.

  Shown: every goroutine gets through with its work, and once a user has connected, its
  goroutine and those that existed when it drained the mailbox having done theirs, the
  frame of every message that was queued has been written to a connection of the user,
  provided that writes and statements succeed and nothing expires in between.
\<close>

section \<open>Infinite schedules\<close>

primrec net_at :: "crypto \<Rightarrow> sqliteDriver \<Rightarrow> (nat \<Rightarrow> event) \<Rightarrow> net \<Rightarrow> nat \<Rightarrow> net" where
  "net_at cr drv ev n 0 = n"
| "net_at cr drv ev n (Suc k) = net_step cr drv (ev k) (net_at cr drv ev n k)"

lemma net_at_run: "net_at cr drv ev n k = net_run cr drv (map ev [0..<k]) n"
proof -
  have "net_run cr drv (es @ [e]) m = net_step cr drv e (net_run cr drv es m)" for es e m
    by (induction es arbitrary: m) simp_all
  then show ?thesis by (induction k) simp_all
qed

text \<open>Nothing left to do: the goroutine has returned, or waits for its client.\<close>

fun idle :: "task \<Rightarrow> bool" where
  "idle Finished = True"
| "idle (Serving u c) = True"
| "idle t = False"

definition fair :: "crypto \<Rightarrow> sqliteDriver \<Rightarrow> (nat \<Rightarrow> event) \<Rightarrow> net \<Rightarrow> bool" where
  "fair cr drv ev n \<longleftrightarrow> (\<forall>k i. i < length (nt_tasks (net_at cr drv ev n k)) \<and> \<not> idle (nt_tasks (net_at cr drv ev n k) ! i)
     \<longrightarrow> (\<exists>j \<ge> k. \<exists>env. ev j = Section i env))"

section \<open>Every goroutine gets through\<close>

lemma step_tasks:
  assumes "i < length (nt_tasks n)"
  shows "i < length (nt_tasks (net_step cr drv e n))"
    and "nt_tasks (net_step cr drv e n) ! i =
      (case e of Section j env \<Rightarrow>
         if j = i then fst (task_step cr drv env (nt_store n, nt_disk n) (nt_tasks n ! i)) else nt_tasks n ! i
       | _ \<Rightarrow> nt_tasks n ! i)"
  using assms by (cases e; force simp: nth_append split: prod.split)+

lemma idle_step: "idle t \<Longrightarrow> idle (fst (task_step cr drv env w t))"
  by (cases t) simp_all

lemma idle_stays:
  assumes "i < length (nt_tasks (net_at cr drv ev n k))" "idle (nt_tasks (net_at cr drv ev n k) ! i)" "k \<le> k'"
  shows "i < length (nt_tasks (net_at cr drv ev n k')) \<and> idle (nt_tasks (net_at cr drv ev n k') ! i)"
  using assms(3)
proof (induction rule: dec_induct)
  case (step m)
  then show ?case using step_tasks [of i "net_at cr drv ev n m" cr drv "ev m"] idle_step
    by (auto split: event.split)
qed (use assms in simp)

lemma task_waits:
  assumes "i < length (nt_tasks (net_at cr drv ev n k))" "k \<le> j" "\<forall>m. k \<le> m \<and> m < j \<longrightarrow> (\<forall>env. ev m \<noteq> Section i env)"
  shows "i < length (nt_tasks (net_at cr drv ev n j)) \<and> nt_tasks (net_at cr drv ev n j) ! i = nt_tasks (net_at cr drv ev n k) ! i"
  using assms(2,3)
proof (induction rule: dec_induct)
  case (step m)
  then show ?case using step_tasks [of i "net_at cr drv ev n m" cr drv "ev m"]
    by (auto split: event.split)
qed (use assms in simp)

lemma task_gets_through:
  assumes "fair cr drv ev n" "i < length (nt_tasks (net_at cr drv ev n k))"
  shows "\<exists>j \<ge> k. i < length (nt_tasks (net_at cr drv ev n j)) \<and> idle (nt_tasks (net_at cr drv ev n j) ! i)"
  using assms(2)
proof (induction "stage (nt_tasks (net_at cr drv ev n k) ! i)" arbitrary: k
    rule: wf_induct_rule [OF wf_lex_prod [OF wf_less_than wf_less_than]])
  case (1 k)
  let ?t = "\<lambda>k. nt_tasks (net_at cr drv ev n k) ! i"
  show ?case
  proof (cases "idle (?t k)")
    case False
    let ?turn = "\<lambda>j. k \<le> j \<and> (\<exists>env. ev j = Section i env)"
    have "\<exists>j. ?turn j" using False 1(2) assms(1) by (auto simp: fair_def)
    then have "?turn (LEAST j. ?turn j)" by (rule LeastI_ex)
    then obtain j env where j: "j = (LEAST j. ?turn j)" "k \<le> j" "ev j = Section i env" by blast
    have "\<forall>m. k \<le> m \<and> m < j \<longrightarrow> (\<forall>env. ev m \<noteq> Section i env)" using j(1) not_less_Least by blast
    from task_waits [OF 1(2) j(2) this] have w: "i < length (nt_tasks (net_at cr drv ev n j))" "?t j = ?t k" by simp_all
    have "?t k \<noteq> Finished" using False by auto
    then have "(stage (?t (Suc j)), stage (?t k)) \<in> less_than <*lex*> less_than"
      using step_tasks(2) [OF w(1), of cr drv "ev j"] j(3) w(2) stage_decreases by (simp del: in_lex_prod)
    moreover have "i < length (nt_tasks (net_at cr drv ev n (Suc j)))" using step_tasks(1) [OF w(1)] by simp
    ultimately obtain l where "Suc j \<le> l" "i < length (nt_tasks (net_at cr drv ev n l)) \<and> idle (?t l)"
      using 1(1) by blast
    with j(2) show ?thesis by (meson Suc_leD order_trans)
  qed (use 1 in blast)
qed

lemma tasks_get_through:
  assumes "fair cr drv ev n" "M \<le> length (nt_tasks (net_at cr drv ev n k))"
  shows "\<exists>j \<ge> k. \<forall>i < M. i < length (nt_tasks (net_at cr drv ev n j)) \<and> idle (nt_tasks (net_at cr drv ev n j) ! i)"
  using assms(2)
proof (induction M)
  case (Suc M)
  then obtain j where j: "k \<le> j" "\<forall>i < M. i < length (nt_tasks (net_at cr drv ev n j)) \<and> idle (nt_tasks (net_at cr drv ev n j) ! i)"
    by auto
  obtain l where l: "k \<le> l" "M < length (nt_tasks (net_at cr drv ev n l))" "idle (nt_tasks (net_at cr drv ev n l) ! M)"
    using task_gets_through [OF assms(1), of M k] Suc.prems by auto
  have "\<forall>i < Suc M. i < length (nt_tasks (net_at cr drv ev n (max j l))) \<and> idle (nt_tasks (net_at cr drv ev n (max j l)) ! i)"
    using j(2) l(2,3) idle_stays by (metis less_Suc_eq max.cobounded1 max.cobounded2)
  with j(1) show ?case by (meson max.coboundedI1)
qed auto

section \<open>Messages on their way out\<close>

text \<open>
  \<open>outgoing u t\<close>: the messages for \<open>u\<close> that the flush of task \<open>t\<close> is about to write.  While
  writes succeed, what is queued, outgoing or handed over stays so.
\<close>

fun outgoing :: "string \<Rightarrow> task \<Rightarrow> queuedMessage list" where
  "outgoing u (Flushing u' c ms) = (if u' = u then ms else [])"
| "outgoing u t = []"

fun writes_ok :: "event \<Rightarrow> bool" where
  "writes_ok (Section i env) = sc_write env"
| "writes_ok e = True"

definition on_way :: "nat \<Rightarrow> string \<Rightarrow> net \<Rightarrow> queuedMessage multiset" where
  "on_way M u n = for_user u (nt_handed n) + bodies (concat (map (outgoing u) (take M (nt_tasks n))))"

lemma task_step_outgoing:
  assumes "gcm_correct cr" "queue_inv cr T s" "section_ok T s env t" "sc_write env"
    and "\<forall>u. \<forall>m \<in> set (held u t). deliverable m"
    and "task_step cr drv env (s, d) t = (t', acts, s', d')"
  shows "bodies (outgoing u t) \<subseteq># bodies (outgoing u t') + for_user u (hands_over env t)"
    and "bodies (pending cr T s u) + bodies (outgoing u t)
      \<subseteq># bodies (pending cr T s' u) + bodies (outgoing u t') + for_user u (hands_over env t)"
    and "t = Draining u c \<Longrightarrow> bodies (pending cr T s u) \<subseteq># bodies (outgoing u t')"
proof -
  have con: "bodies (pending cr T s u) + bodies (held u t)
      = bodies (pending cr T s' u) + bodies (held u t') + for_user u (hands_over env t)"
    by (rule task_step_conserves(3) [OF assms(1-3) _ assms(6)]) (use assms(5) in blast)
  have raw: "\<exists>b. marshalQueued m = Inr b" "has_envelope m" if "deliverable m" for m
    using that marshal_envelope by (auto simp: deliverable_def)
  have drained: "bodies (pending cr T s u) \<subseteq># bodies (outgoing u t')" if "t = Draining u c" for c
    using that assms(2,3,6) DrainQueue_queue(1) [OF assms(2), of "sc_drain env" drv d u _ s' d']
    by (auto split: prod.splits)
  then show "t = Draining u c \<Longrightarrow> bodies (pending cr T s u) \<subseteq># bodies (outgoing u t')" .
  show "bodies (outgoing u t) \<subseteq># bodies (outgoing u t') + for_user u (hands_over env t)"
  proof (cases t)
    case (Flushing v c ms)
    with assms(4,6) raw assms(5) show ?thesis by (cases ms) (auto split: sum.splits)
  qed simp_all
  show "bodies (pending cr T s u) + bodies (outgoing u t)
      \<subseteq># bodies (pending cr T s' u) + bodies (outgoing u t') + for_user u (hands_over env t)"
  proof (cases t)
    case (Flushing v c ms)
    with con assms(4,6) raw assms(5) show ?thesis by (cases ms) (auto split: sum.splits if_splits)
  next
    case (Draining v c)
    with con assms(6) show ?thesis by (auto split: prod.splits)
  next
    case (Returning v c ms)
    with con assms(6) show ?thesis by (cases ms) (auto split: if_splits dest!: sym [of "add_mset _ _"])
  next
    case (Looking v m)
    with con assms(6) show ?thesis by (auto split: option.splits if_splits)
  next
    case (Writing c v m)
    with con assms(4,6) raw assms(5) show ?thesis by (auto split: sum.splits if_splits)
  next
    case (Queuing v m)
    with con assms(6) show ?thesis by (cases "v = u") (auto dest!: sym [of "add_mset _ _"])
  next
    case (Joining v c)
    with con assms(6) show ?thesis by (auto split: prod.splits)
  qed (use con assms(6) in auto)
qed

lemma grow_update:
  fixes p p' h h' g g0 ts ts' :: "'a multiset"
  assumes "p + h \<subseteq># p' + h' + g" "ts' + h = ts + h'"
  shows "g0 + p + ts \<subseteq># g0 + g + p' + ts'"
proof -
  have "(g0 + p + ts) + h = (p + h) + (g0 + ts)" by (simp add: ac_simps)
  also have "\<dots> \<subseteq># (p' + h' + g) + (g0 + ts)" using assms(1) by (rule subset_mset.add_right_mono)
  also have "\<dots> = (g0 + g + p') + (ts + h')" by (simp add: ac_simps)
  also have "\<dots> = (g0 + g + p' + ts') + h" unfolding assms(2) [symmetric] by (simp add: ac_simps)
  finally show ?thesis by simp
qed

text \<open>One section of a task, and one event.  The first \<open>M\<close> tasks are watched.\<close>

lemma section_on_way:
  assumes "gcm_correct cr" "net_inv cr T n" "event_ok T (Section j env) n" "sc_write env" "j < length (nt_tasks n)"
    and n': "n' = net_step cr drv (Section j env) n"
  shows "on_way M u n \<subseteq># on_way M u n'"
    and "j < M \<Longrightarrow> bodies (pending cr T (nt_store n) u) + on_way M u n
      \<subseteq># bodies (pending cr T (nt_store n') u) + on_way M u n'"
    and "j < M \<Longrightarrow> nt_tasks n ! j = Draining u c
      \<Longrightarrow> bodies (pending cr T (nt_store n) u) + on_way M u n \<subseteq># on_way M u n'"
proof -
  obtain t acts s d where st: "task_step cr drv env (nt_store n, nt_disk n) (nt_tasks n ! j) = (t, acts, s, d)"
    by (metis prod_cases4)
  have held: "\<forall>u. \<forall>m \<in> set (held u (nt_tasks n ! j)). deliverable m"
    using assms(2,5) nth_mem unfolding net_inv_def by blast
  have inv: "queue_inv cr T (nt_store n)" using assms(2) by (simp add: net_inv_def)
  have ok: "section_ok T (nt_store n) env (nt_tasks n ! j)" using assms(3,5) by simp
  note o = task_step_outgoing [OF assms(1) inv ok assms(4) held st]
  have n'': "n' = n\<lparr>nt_store := s, nt_disk := d, nt_tasks := (nt_tasks n)[j := t],
      nt_handed := nt_handed n @ hands_over env (nt_tasks n ! j), nt_out := nt_out n @ acts\<rparr>" using assms(5) st n' by simp
  let ?ts = "take M (nt_tasks n)"
  have up: "bodies (concat (map (outgoing u) (?ts[j := t]))) + bodies (outgoing u (nt_tasks n ! j))
      = bodies (concat (map (outgoing u) ?ts)) + bodies (outgoing u t)" if "j < M"
    using bodies_update [of j ?ts "outgoing u" t] that assms(5) by simp
  show "on_way M u n \<subseteq># on_way M u n'"
  proof (cases "j < M")
    case True
    then show ?thesis
      using grow_update [OF _ up, of "{#}" "{#}"] o(1) [of u] by (simp add: on_way_def n'' take_update_swap ac_simps)
  qed (simp add: on_way_def n'')
  show "bodies (pending cr T (nt_store n) u) + on_way M u n \<subseteq># bodies (pending cr T (nt_store n') u) + on_way M u n'"
    if "j < M"
    using grow_update [OF o(2) [of u] up [OF that]] by (simp add: on_way_def n'' take_update_swap ac_simps)
  show "bodies (pending cr T (nt_store n) u) + on_way M u n \<subseteq># on_way M u n'"
    if "j < M" "nt_tasks n ! j = Draining u c"
    using grow_update [OF _ up [OF that(1)], where p = "bodies (pending cr T (nt_store n) u)" and p' = "{#}" and g = "{#}"]
      o(3) [OF that(2)] that(2) by (simp add: on_way_def n'' take_update_swap ac_simps)
qed

lemma net_step_on_way:
  assumes "gcm_correct cr" "net_inv cr T n" "event_ok T e n" "writes_ok e" "n' = net_step cr drv e n"
  shows "on_way M u n \<subseteq># on_way M u n'"
    and "length (nt_tasks n) \<le> M \<Longrightarrow> bodies (pending cr T (nt_store n) u) + on_way M u n
      \<subseteq># bodies (pending cr T (nt_store n') u) + on_way M u n'"
proof -
  have "on_way M u n \<subseteq># on_way M u n' \<and> (length (nt_tasks n) \<le> M \<longrightarrow>
    bodies (pending cr T (nt_store n) u) + on_way M u n \<subseteq># bodies (pending cr T (nt_store n') u) + on_way M u n')"
  proof (cases e)
    case (Section j env)
    show ?thesis
    proof (cases "j < length (nt_tasks n)")
      case True
      with section_on_way(1,2) [of cr T n j env n' drv M u] assms Section show ?thesis by simp
    qed (simp add: assms(5) Section)
  next
    case (Purge env)
    obtain s d where p: "purgeExpired cr drv env (nt_store n, nt_disk n) = (s, d)" by fastforce
    with assms purge_queue [of cr T "nt_store n" env drv "nt_disk n" s d] show ?thesis
      by (simp add: Purge net_inv_def on_way_def)
  qed (auto simp: on_way_def assms(5))
  then show "on_way M u n \<subseteq># on_way M u n'"
    "length (nt_tasks n) \<le> M \<Longrightarrow> bodies (pending cr T (nt_store n) u) + on_way M u n
      \<subseteq># bodies (pending cr T (nt_store n') u) + on_way M u n'" by blast+
qed

section \<open>A connection drains the mailbox\<close>

fun drained :: "task \<Rightarrow> bool" where
  "drained (Joining u c) = False"
| "drained (Draining u c) = False"
| "drained t = True"

text \<open>
  \<open>settled\<close>: the connection that began with event \<open>j\<close> had drained the mailbox at some
  moment \<open>d\<close>, and the goroutines that existed then have nothing left to do at \<open>k\<close>.
\<close>

definition settled :: "crypto \<Rightarrow> sqliteDriver \<Rightarrow> (nat \<Rightarrow> event) \<Rightarrow> net \<Rightarrow> nat \<Rightarrow> nat \<Rightarrow> bool" where
  "settled cr drv ev n j k \<longleftrightarrow> (\<exists>d. j < d \<and> d \<le> k
     \<and> drained (nt_tasks (net_at cr drv ev n d) ! length (nt_tasks (net_at cr drv ev n j)))
     \<and> (\<forall>i < length (nt_tasks (net_at cr drv ev n d)). idle (nt_tasks (net_at cr drv ev n k) ! i)))"

lemma idle_drained: "idle t \<Longrightarrow> drained t"
  by (cases t) simp_all

lemma tasks_grow:
  assumes "k \<le> k'"
  shows "length (nt_tasks (net_at cr drv ev n k)) \<le> length (nt_tasks (net_at cr drv ev n k'))"
  using assms
proof (induction rule: dec_induct)
  case (step m)
  have "length (nt_tasks (net_at cr drv ev n m)) \<le> length (nt_tasks (net_at cr drv ev n (Suc m)))"
    by (cases "ev m") (simp_all split: prod.split)
  with step show ?case by simp
qed simp

lemma connection_task:
  assumes "ev j = Connect u c" "j < k" "i = length (nt_tasks (net_at cr drv ev n j))"
  shows "i < length (nt_tasks (net_at cr drv ev n k))
    \<and> (drained (nt_tasks (net_at cr drv ev n k) ! i) \<or> nt_tasks (net_at cr drv ev n k) ! i \<in> {Joining u c, Draining u c})"
  using Suc_leI [OF assms(2)]
proof (induction rule: dec_induct)
  case (step m)
  have keep: "drained (fst (task_step cr drv env w t)) \<or> fst (task_step cr drv env w t) \<in> {Joining u c, Draining u c}"
    if "drained t \<or> t \<in> {Joining u c, Draining u c}" for env w t
    using that by (cases "(cr, drv, env, w, t)" rule: task_step.cases) (auto split: option.split sum.split prod.split)
  from step step_tasks [of i "net_at cr drv ev n m" cr drv "ev m"] keep show ?case
    by (auto split: event.split)
qed (use assms in simp)

lemma connection_drains:
  assumes "ev j = Connect u c" "j < d" "i = length (nt_tasks (net_at cr drv ev n j))"
    and "drained (nt_tasks (net_at cr drv ev n d) ! i)"
  shows "\<exists>q env. j < q \<and> q < d \<and> ev q = Section i env \<and> nt_tasks (net_at cr drv ev n q) ! i = Draining u c"
  using Suc_leI [OF assms(2)] assms(4)
proof (induction rule: dec_induct)
  case (step m)
  let ?t = "nt_tasks (net_at cr drv ev n m) ! i"
  show ?case
  proof (cases "drained ?t")
    case False
    have i: "i < length (nt_tasks (net_at cr drv ev n m))" "?t \<in> {Joining u c, Draining u c}"
      using connection_task [OF assms(1) _ assms(3), of m] step.hyps False by auto
    from False step.prems step_tasks(2) [OF i(1), of cr drv "ev m"] obtain env where e: "ev m = Section i env"
      and t: "drained (fst (task_step cr drv env (nt_store (net_at cr drv ev n m), nt_disk (net_at cr drv ev n m)) ?t))"
      by (auto split: event.splits if_splits)
    from t i(2) have "?t = Draining u c" by (auto split: prod.splits)
    with e step.hyps show ?thesis by (metis Suc_le_eq lessI)
  qed (use step in auto)
qed (use assms in simp)

text \<open>From the connection to the drain, and from there to the end.\<close>

lemma net_at_inv:
  assumes "gcm_correct cr" "net_inv cr T n" "\<forall>i < k. event_ok T (ev i) (net_at cr drv ev n i)" "m \<le> k"
  shows "net_inv cr T (net_at cr drv ev n m)"
  using assms(4)
proof (induction m)
  case (Suc m)
  then show ?case using net_step_conserves [OF assms(1), of T "net_at cr drv ev n m" "ev m" drv] assms(3) by simp
qed (use assms in simp)

lemma on_way_grows:
  assumes "gcm_correct cr" "net_inv cr T n" "\<forall>i < k. event_ok T (ev i) (net_at cr drv ev n i)"
    and "\<forall>i. j \<le> i \<and> i < k \<longrightarrow> writes_ok (ev i)" "j \<le> m" "m \<le> m'" "m' \<le> k"
  shows "on_way M u (net_at cr drv ev n m) \<subseteq># on_way M u (net_at cr drv ev n m')"
    and "length (nt_tasks (net_at cr drv ev n m')) \<le> M \<Longrightarrow>
      bodies (pending cr T (nt_store (net_at cr drv ev n m)) u) + on_way M u (net_at cr drv ev n m)
      \<subseteq># bodies (pending cr T (nt_store (net_at cr drv ev n m')) u) + on_way M u (net_at cr drv ev n m')"
proof -
  let ?n = "net_at cr drv ev n"
  have "on_way M u (?n m) \<subseteq># on_way M u (?n m') \<and> (length (nt_tasks (?n m')) \<le> M \<longrightarrow>
      bodies (pending cr T (nt_store (?n m)) u) + on_way M u (?n m)
      \<subseteq># bodies (pending cr T (nt_store (?n m')) u) + on_way M u (?n m'))"
    using assms(6,7)
  proof (induction rule: dec_induct)
    case (step l)
    have "net_inv cr T (?n l)" using net_at_inv [OF assms(1-3), of l] step by simp
    moreover have "event_ok T (ev l) (?n l)" "writes_ok (ev l)" using assms(3-5) step by simp_all
    ultimately have s: "on_way M u (?n l) \<subseteq># on_way M u (?n (Suc l))"
      "length (nt_tasks (?n l)) \<le> M \<Longrightarrow> bodies (pending cr T (nt_store (?n l)) u) + on_way M u (?n l)
        \<subseteq># bodies (pending cr T (nt_store (?n (Suc l))) u) + on_way M u (?n (Suc l))"
      using net_step_on_way [OF assms(1), of T "?n l" "ev l" "?n (Suc l)" drv] by simp_all
    moreover have "length (nt_tasks (?n l)) \<le> length (nt_tasks (?n (Suc l)))" by (rule tasks_grow) simp
    ultimately show ?case using step.IH step.prems by (meson Suc_leD order_trans subset_mset.order_trans)
  qed simp
  then show "on_way M u (?n m) \<subseteq># on_way M u (?n m')" "length (nt_tasks (?n m')) \<le> M \<Longrightarrow>
      bodies (pending cr T (nt_store (?n m)) u) + on_way M u (?n m)
      \<subseteq># bodies (pending cr T (nt_store (?n m')) u) + on_way M u (?n m')" by blast+
qed

lemma settled_delivered:
  assumes "gcm_correct cr" "net_inv cr T n" "ev j = Connect u c" "settled cr drv ev n j k"
    and "\<forall>i < k. event_ok T (ev i) (net_at cr drv ev n i)" "\<forall>i. j \<le> i \<and> i < k \<longrightarrow> writes_ok (ev i)"
  shows "for_user u (nt_handed (net_at cr drv ev n j)) + bodies (pending cr T (nt_store (net_at cr drv ev n j)) u)
    \<subseteq># for_user u (nt_handed (net_at cr drv ev n k))"
proof -
  let ?n = "net_at cr drv ev n"
  let ?i = "length (nt_tasks (?n j))"
  obtain d where d: "j < d" "d \<le> k" "drained (nt_tasks (?n d) ! ?i)" "\<forall>i < length (nt_tasks (?n d)). idle (nt_tasks (?n k) ! i)"
    using assms(4) unfolding settled_def by blast
  let ?M = "length (nt_tasks (?n d))"
  obtain q env where q: "j < q" "q < d" "ev q = Section ?i env" "nt_tasks (?n q) ! ?i = Draining u c"
    using connection_drains [OF assms(3) d(1) _ d(3)] by blast
  have len: "length (nt_tasks (?n m)) \<le> ?M" if "m \<le> d" for m by (rule tasks_grow [OF that])
  have iq: "?i < length (nt_tasks (?n q))" using connection_task [of ev j u c q ?i cr drv n] assms(3) q(1) by simp
  have "for_user u (nt_handed (?n j)) + bodies (pending cr T (nt_store (?n j)) u)
      \<subseteq># bodies (pending cr T (nt_store (?n j)) u) + on_way ?M u (?n j)"
    by (simp add: on_way_def)
  also have "\<dots> \<subseteq># bodies (pending cr T (nt_store (?n q)) u) + on_way ?M u (?n q)"
    using on_way_grows(2) [OF assms(1,2,5,6), of j q] q d(2) len [of q] by simp
  also have "\<dots> \<subseteq># on_way ?M u (?n (Suc q))"
  proof (rule section_on_way(3) [OF assms(1)])
    show "net_inv cr T (?n q)" using net_at_inv [OF assms(1,2,5)] q d(2) by simp
    show "event_ok T (Section ?i env) (?n q)" using assms(5) q d(2) by (metis order_less_le_trans)
    show "sc_write env" using assms(6) q d(2) by (metis less_imp_le order_less_le_trans writes_ok.simps(1))
    show "?i < ?M" using iq len [of q] q(2) by simp
  qed (use iq q in simp_all)
  also have "\<dots> \<subseteq># on_way ?M u (?n k)"
    using on_way_grows(1) [OF assms(1,2,5,6), of "Suc q" k] q d(2) by simp
  also have "on_way ?M u (?n k) = for_user u (nt_handed (?n k))"
  proof -
    have none: "outgoing u t = []" if "idle t" for t using that by (cases t) simp_all
    have "outgoing u t = []" if "t \<in> set (take ?M (nt_tasks (?n k)))" for t
      using that d(4) none by (auto simp: in_set_conv_nth)
    then have "concat (map (outgoing u) (take ?M (nt_tasks (?n k)))) = []" by simp
    then show ?thesis by (simp add: on_way_def del: concat_eq_Nil_conv)
  qed
  finally show ?thesis .
qed

section \<open>Properties\<close>

text \<open>
  C5: A reconnecting user gets its mail.  In every fair schedule, after a user has connected
  there is a moment at which its goroutine, and every goroutine that existed when it drained
  the mailbox, has done its work.  At every such moment, if until then database statements
  succeeded, enqueues found room and nothing expired, and if every write since the connection
  succeeded, the frames of all messages that were queued for the user when it connected have
  been written to connections of the user, on top of the frames written before.
\<close>

theorem reconnect_delivers:
  assumes "gcm_correct cr" "queue_inv cr T s" "clients_owned owner s" "\<forall>i. event_owned owner (ev i)"
    and "fair cr drv ev (net_start s d)" "ev j = Connect u c" "at = net_at cr drv ev (net_start s d)"
  shows "(\<exists>k. settled cr drv ev (net_start s d) j k)
    \<and> (\<forall>k. settled cr drv ev (net_start s d) j k \<longrightarrow> (\<forall>i < k. event_ok T (ev i) (at i)) \<longrightarrow>
         (\<forall>i. j \<le> i \<and> i < k \<longrightarrow> writes_ok (ev i)) \<longrightarrow>
         sent_to owner u (nt_out (at j)) + image_mset frame_of (bodies (pending cr T (nt_store (at j)) u))
           \<subseteq># sent_to owner u (nt_out (at k)))"
proof (intro conjI allI impI)
  let ?n = "net_start s d"
  let ?i = "length (nt_tasks (at j))"
  have "?i < length (nt_tasks (at (Suc j)))" using connection_task [of ev j u c "Suc j" ?i cr drv ?n] assms(6,7) by simp
  then obtain l where l: "Suc j \<le> l" "idle (nt_tasks (at l) ! ?i)"
    using task_gets_through [OF assms(5)] assms(7) by blast
  obtain k where "l \<le> k" "\<forall>i < length (nt_tasks (at l)). idle (nt_tasks (at k) ! i)"
    using tasks_get_through [OF assms(5), of _ l] assms(7) by blast
  with l idle_drained show "\<exists>k. settled cr drv ev ?n j k" unfolding settled_def assms(7) by (meson Suc_le_eq)
next
  fix k
  assume k: "settled cr drv ev (net_start s d) j k" "\<forall>i < k. event_ok T (ev i) (at i)" "\<forall>i. j \<le> i \<and> i < k \<longrightarrow> writes_ok (ev i)"
  have "net_inv cr T (net_start s d)" using assms(2) by (simp add: net_inv_def net_start_def)
  from settled_delivered [OF assms(1) this assms(6) k(1)] k(2,3) assms(7)
  have "image_mset frame_of (for_user u (nt_handed (at j)) + bodies (pending cr T (nt_store (at j)) u))
      \<subseteq># image_mset frame_of (for_user u (nt_handed (at k)))"
    by (intro image_mset_subseteq_mono) simp
  moreover have "sent_to owner u (nt_out (at m)) = image_mset frame_of (for_user u (nt_handed (at m)))" for m
    using net_run_owned [OF net_start_owned [OF assms(3)], of "map ev [0..<m]" cr drv d] assms(4,7)
    by (simp add: net_at_run net_owned_def)
  ultimately show "sent_to owner u (nt_out (at j)) + image_mset frame_of (bodies (pending cr T (nt_store (at j)) u))
      \<subseteq># sent_to owner u (nt_out (at k))" by simp
qed

section \<open>A concrete schedule\<close>

text \<open>Bob has a message queued and connects; then there are only purges.\<close>

definition demo_purge :: purgeEnv where
  "demo_purge = \<lparr>pu_delete = None, pu_epoch = 0, pu_persist = demo_persist\<rparr>"

definition demo_schedule :: "nat \<Rightarrow> event" where
  "demo_schedule k = (if k = 0 then Connect ''bob'' 7 else if k < 5 then Section 0 demo_section else Purge demo_purge)"

definition demo_net :: net where
  "demo_net = net_start (fst demo_next) (snd demo_next)"

lemma demo_net_inv: "queue_inv plainCrypto 0 (fst demo_next)"
proof -
  have "queue_inv plainCrypto 0 (fst (Enqueue plainCrypto demo_drv demo_enq (demo_store, snd demo_first) ''bob'' demo_msg))"
  proof (rule Enqueue_queue [OF plainCrypto_gcm demo_queue_inv])
    show "enqueues_ok 0 demo_store demo_enq ''bob''"
      using demo_wf(3) demo_expiry demo_room by (simp add: enqueues_ok_def int64_ok_def) (simp add: demo_enq_def)
    show "deliverable demo_msg"
      using demo_enq_ok by (simp add: deliverable_def enq_ok_def has_envelope_def demo_msg_def)
  qed
  then show ?thesis by (simp add: demo_next_def demo_first_def)
qed

lemma demo_net_tasks:
  defines "at \<equiv> net_at plainCrypto demo_drv demo_schedule demo_net"
  shows "nt_tasks (at 1) = [Joining ''bob'' 7]" "nt_tasks (at 2) = [Draining ''bob'' 7]"
    and "nt_tasks (at 3) = [Flushing ''bob'' 7 [demo_msg\<lparr>qm_ExpiresAt := 604800\<rparr>]]"
    and "nt_tasks (at 4) = [Flushing ''bob'' 7 []]" "5 \<le> k \<Longrightarrow> nt_tasks (at k) = [Serving ''bob'' 7]"
proof -
  have succ: "at (Suc k) = net_step plainCrypto demo_drv (demo_schedule k) (at k)" for k by (simp add: at_def)
  show t1: "nt_tasks (at 1) = [Joining ''bob'' 7]"
    by (simp add: at_def demo_schedule_def demo_net_def net_start_def)
  then show t2: "nt_tasks (at 2) = [Draining ''bob'' 7]"
    using succ [of 1] by (simp add: numeral_2_eq_2 demo_schedule_def split: prod.split)
  have "nt_store (at 2) = snd (Register (fst demo_next) ''bob'' 7)"
    using succ [of 1] t1 by (simp add: numeral_2_eq_2 demo_schedule_def at_def demo_net_def net_start_def split: prod.split)
  moreover have "\<not> st_stopped (fst demo_next)" using demo_wf(2) by (simp add: demo_next_def demo_first_def frame_simps)
  ultimately have "fst (DrainQueue plainCrypto demo_drv demo_drain (nt_store (at 2), nt_disk (at 2)) ''bob'')
      = [demo_msg\<lparr>qm_ExpiresAt := 604800\<rparr>]"
    using DrainQueue_clean(1) [OF _ demo_wf(4), of "nt_store (at 2)" plainCrypto demo_drv "nt_disk (at 2)" "''bob''"]
      demo_next_pending demo_wf(5) registry_queue(3) [of plainCrypto 0 "fst demo_next" "''bob''" 7]
    by (simp add: Register_def)
  then show t3: "nt_tasks (at 3) = [Flushing ''bob'' 7 [demo_msg\<lparr>qm_ExpiresAt := 604800\<rparr>]]"
    using succ [of 2] t2 by (simp add: numeral_3_eq_3 numeral_2_eq_2 demo_schedule_def demo_section_def split: prod.splits)
  then show t4: "nt_tasks (at 4) = [Flushing ''bob'' 7 []]"
    using succ [of 3] by (simp add: demo_schedule_def demo_section_def marshalQueued_def demo_msg_def)
  then have t5: "nt_tasks (at 5) = [Serving ''bob'' 7]"
    using succ [of 4] by (simp add: demo_schedule_def)
  show "nt_tasks (at k) = [Serving ''bob'' 7]" if "5 \<le> k"
    using that
  proof (induction rule: dec_induct)
    case (step m)
    then show ?case using succ [of m] by (simp add: demo_schedule_def split: prod.split)
  qed (rule t5)
qed

lemma demo_small: "k < 5 \<Longrightarrow> k = 0 \<or> k = 1 \<or> k = 2 \<or> k = 3 \<or> k = (4::nat)"
  by auto

lemma demo_fair: "fair plainCrypto demo_drv demo_schedule demo_net"
  unfolding fair_def
proof (intro allI impI, elim conjE)
  let ?at = "net_at plainCrypto demo_drv demo_schedule demo_net"
  fix k i
  assume i: "i < length (nt_tasks (?at k))" "\<not> idle (nt_tasks (?at k) ! i)"
  have "k < 5" using i demo_net_tasks(5) [of k] by (cases "k < 5") simp_all
  moreover from demo_small [OF this] have "i = 0"
    using i demo_net_tasks by (auto simp: demo_net_def net_start_def)
  moreover have "demo_schedule 4 = Section 0 demo_section" by (simp add: demo_schedule_def)
  ultimately show "\<exists>j \<ge> k. \<exists>env. demo_schedule j = Section i env" by (metis less_Suc_eq_le eval_nat_numeral(3) numeral_eq_Suc)
qed

lemma demo_events_ok: "event_ok 0 (demo_schedule i) (net_at plainCrypto demo_drv demo_schedule demo_net i)"
proof (cases "i < 5")
  case True
  from demo_small [OF this] show ?thesis
    using demo_net_tasks demo_wf(4,5) by (auto simp: demo_schedule_def demo_section_def)
qed (simp add: demo_schedule_def demo_purge_def)

theorem reconnect_delivers_witness:
  "\<exists>k. settled plainCrypto demo_drv demo_schedule demo_net 0 k
     \<and> frame_of demo_msg \<in># sent_to (\<lambda>_. ''bob'') ''bob'' (nt_out (net_at plainCrypto demo_drv demo_schedule demo_net k))"
proof -
  let ?at = "net_at plainCrypto demo_drv demo_schedule demo_net"
  have con: "demo_schedule 0 = Connect ''bob'' 7" by (simp add: demo_schedule_def)
  have own: "clients_owned (\<lambda>_. ''bob'') (fst demo_next)" "\<forall>i. event_owned (\<lambda>_. ''bob'') (demo_schedule i)"
    using demo_registered(2)
    by (auto simp: clients_owned_def demo_schedule_def demo_next_def demo_first_def frame_simps LookupClient_def demo_store_def)
  note r = reconnect_delivers [OF plainCrypto_gcm demo_net_inv own demo_fair [unfolded demo_net_def] con refl, folded demo_net_def]
  then obtain k where k: "settled plainCrypto demo_drv demo_schedule demo_net 0 k" by blast
  moreover have "writes_ok (demo_schedule i)" for i by (simp add: demo_schedule_def demo_section_def)
  ultimately have "image_mset frame_of (bodies (pending plainCrypto 0 (nt_store (?at 0)) ''bob''))
      \<subseteq># sent_to (\<lambda>_. ''bob'') ''bob'' (nt_out (?at k))"
    using r demo_events_ok by (meson mset_subset_eq_add_right subset_mset.order_trans)
  then have "image_mset frame_of (bodies [demo_msg\<lparr>qm_ExpiresAt := 604800\<rparr>]) \<subseteq># sent_to (\<lambda>_. ''bob'') ''bob'' (nt_out (?at k))"
    by (simp add: demo_net_def net_start_def demo_next_pending)
  then show ?thesis using k by (auto dest: mset_subset_eqD)
qed

end
