(* ===== verification/Mailbox_Spec.thy ===== *)
theory Mailbox_Spec
  imports Store_Props Simulation "HOL-Library.Countable"
begin

text \<open>
  What the store of \<^verbatim>\<open>server/store.go\<close> promises to its callers, as an abstract machine:
  a list of messages per user and a connection per user, nothing else.  There is no
  database, no encryption, no file, no purge and no restart in it; a restart only forgets
  the connections.

  Shown: any sequence of calls of the store, restarts of the process included, gets the
  replies of the abstract machine.  The conditions are that the calls meet no fault and
  that the clock does not go backwards.
\<close>

section \<open>The abstract machine\<close>

record mailboxes =
  mb_box :: "string \<Rightarrow> queuedMessage list"
  mb_conn :: "string \<Rightarrow> conn option"

definition no_mail :: mailboxes where
  "no_mail = \<lparr>mb_box = (\<lambda>u. []), mb_conn = (\<lambda>u. None)\<rparr>"

datatype mailRequest =
    Send string queuedMessage
  | Fetch string
  | Tidy
  | Count
  | Attach string conn
  | Detach string conn
  | Find string
  | Restart

datatype mailReply = Done | Messages "queuedMessage list" | Number int | Peer "conn option" | Failed goErr

definition live_at :: "int \<Rightarrow> queuedMessage list \<Rightarrow> queuedMessage list" where
  "live_at t = filter (\<lambda>m. t \<le> qm_ExpiresAt m)"

definition all_live :: "int \<Rightarrow> mailboxes \<Rightarrow> nat" where
  "all_live t M = (\<Sum>u | live_at t (mb_box M u) \<noteq> []. length (live_at t (mb_box M u)))"

fun spec_call :: "int \<Rightarrow> int \<Rightarrow> mailRequest \<Rightarrow> mailboxes \<Rightarrow> mailReply \<times> mailboxes" where
  "spec_call ttl t (Send u m) M =
     (Done, if length (live_at t (mb_box M u)) < 500
            then M\<lparr>mb_box := (mb_box M)(u := mb_box M u @ [m\<lparr>qm_ExpiresAt := t + ttl\<rparr>])\<rparr> else M)"
| "spec_call ttl t (Fetch u) M =
     (Messages (live_at t (mb_box M u)), M\<lparr>mb_box := (mb_box M)(u := [])\<rparr>)"
| "spec_call ttl t Tidy M = (Done, M)"
| "spec_call ttl t Count M = (Number (int (all_live t M)), M)"
| "spec_call ttl t (Attach u c) M = (Peer (mb_conn M u), M\<lparr>mb_conn := (mb_conn M)(u \<mapsto> c)\<rparr>)"
| "spec_call ttl t (Detach u c) M =
     (Done, if mb_conn M u = Some c then M\<lparr>mb_conn := (mb_conn M)(u := None)\<rparr> else M)"
| "spec_call ttl t (Find u) M = (Peer (mb_conn M u), M)"
| "spec_call ttl t Restart M = (Done, M\<lparr>mb_conn := (\<lambda>u. None)\<rparr>)"

fun spec_calls :: "int \<Rightarrow> (int \<times> mailRequest) list \<Rightarrow> mailboxes \<Rightarrow> mailReply list \<times> mailboxes" where
  "spec_calls ttl [] M = ([], M)"
| "spec_calls ttl ((t, r) # rs) M =
     (case spec_call ttl t r M of (out, M1) \<Rightarrow>
      case spec_calls ttl rs M1 of (outs, M2) \<Rightarrow> (out # outs, M2))"

section \<open>The calls of the store\<close>

datatype storeCall =
    CEnqueue enqEnv string queuedMessage
  | CDrain drainEnv string
  | CPurge purgeEnv
  | CCount "goErr option" int
  | CRegister string conn
  | CUnregister string conn
  | CLookup string
  | CRestart storeEnv

fun store_call :: "crypto \<Rightarrow> sqliteDriver \<Rightarrow> string \<Rightarrow> int \<Rightarrow> storeCall \<Rightarrow> Store \<times> fs \<Rightarrow> mailReply \<times> Store \<times> fs" where
  "store_call cr drv path ttl (CEnqueue env u m) w = (Done, Enqueue cr drv env w u m)"
| "store_call cr drv path ttl (CDrain env u) w =
     (case DrainQueue cr drv env w u of (ms, w') \<Rightarrow> (Messages ms, w'))"
| "store_call cr drv path ttl (CPurge env) w = (Done, purgeExpired cr drv env w)"
| "store_call cr drv path ttl (CCount fault epoch) w = (Number (QueuedMessages fault epoch (fst w)), w)"
| "store_call cr drv path ttl (CRegister u c) w =
     (case Register (fst w) u c of (prev, s') \<Rightarrow> (Peer prev, s', snd w))"
| "store_call cr drv path ttl (CUnregister u c) w = (Done, Unregister (fst w) u c, snd w)"
| "store_call cr drv path ttl (CLookup u) w = (Peer (LookupClient (fst w) u), w)"
| "store_call cr drv path ttl (CRestart env) w =
     (case NewStore cr drv env (snd w) path ttl of
        (Inl e, d') \<Rightarrow> (Failed e, fst w, d')
      | (Inr s', d') \<Rightarrow> (Done, s', d'))"

fun store_calls :: "crypto \<Rightarrow> sqliteDriver \<Rightarrow> string \<Rightarrow> int \<Rightarrow> storeCall list \<Rightarrow> Store \<times> fs \<Rightarrow> mailReply list \<times> Store \<times> fs" where
  "store_calls cr drv path ttl [] w = ([], w)"
| "store_calls cr drv path ttl (c # cs) w =
     (case store_call cr drv path ttl c w of (out, w1) \<Rightarrow>
      case store_calls cr drv path ttl cs w1 of (outs, w2) \<Rightarrow> (out # outs, w2))"

text \<open>The abstract request of a call.\<close>

fun request_of :: "storeCall \<Rightarrow> mailRequest" where
  "request_of (CEnqueue env u m) = Send u m"
| "request_of (CDrain env u) = Fetch u"
| "request_of (CPurge env) = Tidy"
| "request_of (CCount fault epoch) = Count"
| "request_of (CRegister u c) = Attach u c"
| "request_of (CUnregister u c) = Detach u c"
| "request_of (CLookup u) = Find u"
| "request_of (CRestart env) = Restart"

text \<open>
  Calls without faults at time \<open>t\<close>.  \<open>busy\<close> are the file names in use.
\<close>

fun call_ok :: "string set \<Rightarrow> string \<Rightarrow> int \<Rightarrow> int \<Rightarrow> storeCall \<Rightarrow> bool" where
  "call_ok busy path ttl t (CEnqueue env u m) \<longleftrightarrow> enq_clean env \<and> ee_epoch env = t \<and> unix (ee_now env) = t
     \<and> message_wf m \<and> int64_ok (t + ttl) \<and> save_clean busy ''queue-'' path (ee_persist env)"
| "call_ok busy path ttl t (CDrain env u) \<longleftrightarrow> drain_clean env \<and> unix (de_now env) = t \<and> save_clean busy ''queue-'' path (de_persist env)"
| "call_ok busy path ttl t (CPurge env) \<longleftrightarrow> pu_delete env = None \<and> pu_epoch env = t \<and> save_clean busy ''queue-'' path (pu_persist env)"
| "call_ok busy path ttl t (CCount fault epoch) \<longleftrightarrow> fault = None \<and> epoch = t"
| "call_ok busy path ttl t (CRestart env) \<longleftrightarrow> start_clean env"
| "call_ok busy path ttl t c \<longleftrightarrow> True"

text \<open>The driver can make an image of every database.\<close>

definition driver_total :: "sqliteDriver \<Rightarrow> bool" where
  "driver_total drv \<longleftrightarrow> (\<forall>t. \<exists>b. serializeDB drv t = Inr b)"

section \<open>Simulation\<close>

text \<open>
  A database holds the mailboxes if from time \<open>t\<close> on its rows and the abstract lists have
  the same live messages.
\<close>

definition holds_mail :: "crypto \<Rightarrow> int \<Rightarrow> bytes \<Rightarrow> sqlDB \<Rightarrow> (string \<Rightarrow> queuedMessage list) \<Rightarrow> bool" where
  "holds_mail cr t key db B \<longleftrightarrow> (\<forall>t' \<ge> t. \<forall>u.
     drainRows cr key t' (\<lambda>_. False) 0 (mailbox db u) = live_at t' (B u)
     \<and> length (filter (\<lambda>(p, x). t' \<le> x) (mailbox db u)) = length (live_at t' (B u)))"

lemma holds_mail_later: "holds_mail cr t key db B \<Longrightarrow> t \<le> t1 \<Longrightarrow> holds_mail cr t1 key db B"
  by (simp add: holds_mail_def)

lemma holds_mail_create: "holds_mail cr t key sqlCreate (\<lambda>u. [])"
  by (simp add: holds_mail_def qt.box_create live_at_def)

lemma filter_later:
  fixes t :: int
  assumes "t \<le> t'"
  shows "filter (\<lambda>(p, x). t' \<le> x) (filter (\<lambda>(p, x). t \<le> x) rows) = filter (\<lambda>(p, x). t' \<le> x) rows"
  using assms by (induction rows) auto

lemma holds_mail_expire:
  assumes "table_wf db" "holds_mail cr t key db B"
  shows "holds_mail cr t key (sqlDeleteExpiredFor u t db) B" "holds_mail cr t key (sqlDeleteExpired t db) B"
  using assms
  by (auto simp: holds_mail_def qt.box_expire_for qt.box_expire_all drainRows_expired filter_later
      simp del: filter_filter)

lemma holds_mail_delete:
  assumes "table_wf db" "holds_mail cr t key db B"
  shows "holds_mail cr t key (sqlDeleteFor u db) (B(u := []))"
  using assms by (auto simp: holds_mail_def qt.box_delete live_at_def)

lemma holds_mail_insert:
  assumes "gcm_correct cr" "table_wf db" "holds_mail cr t key db B" "sqlInsert u c (qm_ExpiresAt m) db = Inr db'"
    and "encrypt cr key rnd (marshalMessage m) = Inr c" "message_wf m" "int64_ok (qm_ExpiresAt m)"
  shows "holds_mail cr t key db' (B(u := B u @ [m]))"
proof -
  have one: "drainRows cr key t' (\<lambda>_. False) 0 [(c, qm_ExpiresAt m)] = live_at t' [m]" for t'
    using assms(1,5-7) by (simp add: live_at_def decrypt_encrypt unmarshal_marshalMessage)
  have box: "mailbox db' v = mailbox db v @ (if v = u then [(c, qm_ExpiresAt m)] else [])" for v
    by (rule qt.box_insert [OF assms(2,4)])
  show ?thesis
    using assms(3) one
    by (auto simp: holds_mail_def box drainRows_append live_at_def simp del: drainRows.simps(2))
qed

text \<open>Saves succeed.\<close>

lemma save_succeeds:
  assumes "driver_total drv" "store_wf s" "\<not> st_stopped s" "save_clean busy ''queue-'' (st_queuePath s) env"
    and "dom d \<subseteq> busy" "st_queuePath s \<in> busy"
  shows "\<exists>d'. store_persistLocked cr drv env s d = (None, d') \<and> dom d' \<subseteq> busy"
proof -
  obtain b where ser: "serializeDB drv (st_db s) = Inr b" using assms(1) by (auto simp: driver_total_def)
  obtain c where enc: "encrypt cr (st_key s) (pe_rand env) b = Inr c"
    using encrypt_clean [OF assms(4), of "st_key s" cr b] assms(2) by (auto simp: store_wf_def)
  from replaceFile_succeeds [OF assms(4-6), of c] assms(3) ser enc show ?thesis
    by (auto simp: store_persistLocked_def)
qed

text \<open>What is on disk, and the simulation relation.  \<open>N\<close> bounds the row ids used so far.\<close>

definition disk_rel :: "crypto \<Rightarrow> sqliteDriver \<Rightarrow> string set \<Rightarrow> string \<Rightarrow> int \<Rightarrow> int \<Rightarrow> bytes \<Rightarrow> fs
    \<Rightarrow> (string \<Rightarrow> queuedMessage list) \<Rightarrow> bool" where
  "disk_rel cr drv busy path t N key d B \<longleftrightarrow> dom d \<subseteq> busy \<and> path \<in> busy
     \<and> (\<exists>f. d (path @ keyFileSuffix) = Some f \<and> fdata f = key)
     \<and> (\<exists>f s0. d path = Some f \<and> store_image cr drv s0 (fdata f) \<and> store_wf s0 \<and> st_key s0 = key
          \<and> holds_mail cr t key (st_db s0) B \<and> db_seq (st_db s0) \<le> N)"

definition mail_rel :: "crypto \<Rightarrow> sqliteDriver \<Rightarrow> string set \<Rightarrow> string \<Rightarrow> int \<Rightarrow> int \<Rightarrow> int \<Rightarrow> Store \<times> fs \<Rightarrow> mailboxes \<Rightarrow> bool" where
  "mail_rel cr drv busy path ttl t N w M \<longleftrightarrow>
     store_wf (fst w) \<and> \<not> st_stopped (fst w) \<and> st_queuePath (fst w) = path \<and> st_ttl (fst w) = seconds ttl
     \<and> holds_mail cr t (st_key (fst w)) (st_db (fst w)) (mb_box M) \<and> db_seq (st_db (fst w)) \<le> N
     \<and> map_of (st_clients (fst w)) = mb_conn M
     \<and> disk_rel cr drv busy path t N (st_key (fst w)) (snd w) (mb_box M)"

lemma mail_relD:
  assumes "mail_rel cr drv busy path ttl t N (s, d) M"
  shows "store_wf s" "\<not> st_stopped s" "st_queuePath s = path" "st_ttl s = seconds ttl"
    "holds_mail cr t (st_key s) (st_db s) (mb_box M)" "db_seq (st_db s) \<le> N"
    "map_of (st_clients s) = mb_conn M" "disk_rel cr drv busy path t N (st_key s) d (mb_box M)"
  using assms by (simp_all add: mail_rel_def)

lemma mail_rel_later:
  "mail_rel cr drv busy path ttl t N w M \<Longrightarrow> t \<le> t1 \<Longrightarrow> N \<le> N1 \<Longrightarrow> mail_rel cr drv busy path ttl t1 N1 w M"
  unfolding mail_rel_def disk_rel_def by (meson holds_mail_later order_trans)

text \<open>A call that saves the state it made ends in a related state.\<close>

lemma save_rel:
  assumes "driver_total drv" "store_wf s" "\<not> st_stopped s" "save_clean busy ''queue-'' path env"
    and "st_queuePath s = path" "holds_mail cr t (st_key s) (st_db s) B" "db_seq (st_db s) \<le> N"
    and "disk_rel cr drv busy path t' N' (st_key s) d B'"
  shows "disk_rel cr drv busy path t N (st_key s) (snd (store_persistLocked cr drv env s d)) B"
proof -
  have d: "dom d \<subseteq> busy" "path \<in> busy" using assms(8) by (simp_all add: disk_rel_def)
  obtain d' where p: "store_persistLocked cr drv env s d = (None, d')" "dom d' \<subseteq> busy"
    using save_succeeds [OF assms(1-3), of busy env d cr] assms(4,5) d by auto
  obtain f where f: "d (path @ keyFileSuffix) = Some f" "fdata f = st_key s"
    using assms(8) by (auto simp: disk_rel_def)
  have "d' (path @ keyFileSuffix) = Some f"
    using sq.persist_frame [of d "path @ keyFileSuffix" s cr drv env] p(1) f(1) assms(5)
    by (simp add: key_path_other)
  moreover obtain b where "store_image cr drv s b" "d' path = Some \<lparr>fdata = b, fmode = mode0600\<rparr>"
    using sq.persist_ok [OF p(1)] assms(5) by auto
  ultimately show ?thesis
    using assms(2,6,7) d p f(2) by (force simp: disk_rel_def)
qed

lemma enqueue_refines:
  assumes "gcm_correct cr" "driver_total drv" "mail_rel cr drv busy path ttl t N (s, d) M"
    and "call_ok busy path ttl t (CEnqueue env u m)" "0 < ttl" "ttl * 1000000000 < 2 ^ 63" "N + 1 < 2 ^ 63"
  shows "mail_rel cr drv busy path ttl t (N + 1) (Enqueue cr drv env (s, d) u m) (snd (spec_call ttl t (Send u m) M))"
proof -
  note s = mail_relD [OF assms(3)]
  from assms(4) have env: "enq_clean env" "ee_epoch env = t" "unix (ee_now env) = t" "message_wf m"
      "int64_ok (t + ttl)" "save_clean busy ''queue-'' path (ee_persist env)" by simp_all
  have wf: "table_wf (st_db s)" using s(1) by (simp add: store_wf_def)
  let ?db1 = "sqlDeleteExpiredFor u t (st_db s)"
  let ?m = "m\<lparr>qm_ExpiresAt := t + ttl\<rparr>"
  note wf1 = qt.wf_expire_for [OF wf, of u t]
  have h1: "holds_mail cr t (st_key s) ?db1 (mb_box M)" by (rule holds_mail_expire [OF wf s(5)])
  have n1: "db_seq ?db1 \<le> N" using s(6) by (simp add: sqlDeleteExpiredFor_def)
  have count: "length (filter (\<lambda>(p, x). t \<le> x) (mailbox (st_db s) u)) = length (live_at t (mb_box M u))"
    using s(5) by (simp add: holds_mail_def)
  have exp: "expiry env s = t + ttl"
    using env(3) sint_seconds [of ttl] assms(5,6) s(4) by (simp add: expiry_def time_add_def unix_def)
  show ?thesis
  proof (cases "length (live_at t (mb_box M u)) < 500")
    case False
    then have "Enqueue cr drv env (s, d) u m = (s\<lparr>st_db := ?db1\<rparr>, d)"
      using Enqueue_overflow [OF s(1,2) env(1), of u] count env(2) by (simp add: maxQueuePerRecipient_def)
    moreover have "store_wf (s\<lparr>st_db := ?db1\<rparr>)"
      using s(1) wf1 qt.expire_for_shrinks [OF wf] by (rule store_wf_db)
    moreover have "disk_rel cr drv busy path t (N + 1) (st_key s) d (mb_box M)"
      using s(8) unfolding disk_rel_def by force
    ultimately show ?thesis using s h1 n1 False by (simp add: mail_rel_def)
  next
    case True
    obtain c where c: "encrypt cr (st_key s) (ee_rand env) (marshalMessage ?m) = Inr c"
      using env(1) s(1) by (auto simp: encrypt_def newCipher_def enq_clean_def store_wf_def Let_def)
    obtain db2 where db2: "sqlInsert u c (t + ttl) ?db1 = Inr db2" "db_seq db2 \<le> N + 1"
      using n1 assms(7) by (auto simp: sqlInsert_def)
    let ?s2 = "s\<lparr>st_db := db2\<rparr>"
    have "\<not> maxQueuePerRecipient \<le> sqlCountFor u ?db1"
      using True count by (simp add: qt.count_box qt.box_expire_for wf maxQueuePerRecipient_def)
    with c db2 env(1,2) exp s(2) have e: "Enqueue cr drv env (s, d) u m = (?s2, snd (store_persistLocked cr drv (ee_persist env) ?s2 d))"
      by (simp add: Enqueue_def enq_clean_def Let_def expiry_def)
    have "store_wf ?s2" using Enqueue_wf [OF s(1), of cr drv env d u m] e by simp
    moreover have h2: "holds_mail cr t (st_key s) db2 ((mb_box M)(u := mb_box M u @ [?m]))"
      using env(4,5) db2(1) by (intro holds_mail_insert [OF assms(1) wf1 h1 _ c]) (simp_all add: message_wf_def)
    moreover have "disk_rel cr drv busy path t (N + 1) (st_key ?s2) (snd (store_persistLocked cr drv (ee_persist env) ?s2 d))
        ((mb_box M)(u := mb_box M u @ [?m]))"
      using calculation s db2(2) by (intro save_rel [OF assms(2) _ _ env(6)]) simp_all
    ultimately show ?thesis using s True db2(2) by (simp add: e mail_rel_def)
  qed
qed

lemma drain_refines:
  assumes "driver_total drv" "mail_rel cr drv busy path ttl t N (s, d) M" "call_ok busy path ttl t (CDrain env u)"
    and "DrainQueue cr drv env (s, d) u = (ms, s', d')"
  shows "ms = live_at t (mb_box M u)"
    and "mail_rel cr drv busy path ttl t (N + 1) (s', d') (M\<lparr>mb_box := (mb_box M)(u := [])\<rparr>)"
proof -
  note s = mail_relD [OF assms(2)]
  have wf: "table_wf (st_db s)" using s(1) by (simp add: store_wf_def)
  have env: "drain_clean env" "unix (de_now env) = t" "save_clean busy ''queue-'' path (de_persist env)" using assms(3) by simp_all
  show "ms = live_at t (mb_box M u)"
    using DrainQueue_clean(1) [OF s(2) env(1), of cr drv d u] assms(4) env(2) s(5)
    by (simp add: pending_def holds_mail_def)
  let ?s = "s\<lparr>st_db := sqlDeleteFor u (st_db s)\<rparr>"
  have e: "s' = ?s" "d' = snd (store_persistLocked cr drv (de_persist env) ?s d)"
    using assms(4) s(2) env(1) by (auto simp: DrainQueue_def drain_clean_def Let_def)
  have st: "store_wf ?s" "holds_mail cr t (st_key s) (st_db ?s) ((mb_box M)(u := []))" "db_seq (st_db ?s) \<le> N + 1"
    using s(1) qt.wf_delete [OF wf] qt.delete_shrinks [OF wf] s(6) holds_mail_delete [OF wf s(5)]
    by (simp_all add: store_wf_db) (simp add: sqlDeleteFor_def)
  have "disk_rel cr drv busy path t (N + 1) (st_key ?s) d' ((mb_box M)(u := []))"
    unfolding e(2) using st s by (intro save_rel [OF assms(1) _ _ env(3)]) simp_all
  with st s e show "mail_rel cr drv busy path ttl t (N + 1) (s', d') (M\<lparr>mb_box := (mb_box M)(u := [])\<rparr>)"
    by (simp add: mail_rel_def)
qed

lemma purge_refines:
  assumes "driver_total drv" "mail_rel cr drv busy path ttl t N (s, d) M" "call_ok busy path ttl t (CPurge env)"
  shows "mail_rel cr drv busy path ttl t (N + 1) (purgeExpired cr drv env (s, d)) M"
proof -
  note s = mail_relD [OF assms(2)]
  have wf: "table_wf (st_db s)" using s(1) by (simp add: store_wf_def)
  let ?s = "s\<lparr>st_db := sqlDeleteExpired t (st_db s)\<rparr>"
  have e: "purgeExpired cr drv env (s, d) = (?s, snd (store_persistLocked cr drv (pu_persist env) ?s d))"
    using assms(3) s(2) by (simp add: purgeExpired_def Let_def)
  have st: "store_wf ?s" "holds_mail cr t (st_key s) (st_db ?s) (mb_box M)" "db_seq (st_db ?s) \<le> N + 1"
    using s(1) qt.wf_expire_all [OF wf] qt.expire_all_shrinks [OF wf] s(6) holds_mail_expire [OF wf s(5)]
    by (simp_all add: store_wf_db) (simp add: sqlDeleteExpired_def)
  have "disk_rel cr drv busy path t (N + 1) (st_key ?s) (snd (store_persistLocked cr drv (pu_persist env) ?s d)) (mb_box M)"
    using st s assms(3) by (intro save_rel [OF assms(1), where B' = "mb_box M"]) simp_all
  with st s e show ?thesis by (simp add: mail_rel_def)
qed

lemma restart_refines:
  assumes "gcm_correct cr" "driver_correct drv" "mail_rel cr drv busy path ttl t N (s, d) M" "start_clean env"
  shows "\<exists>s'. NewStore cr drv env d path ttl = (Inr s', d)
    \<and> mail_rel cr drv busy path ttl t N (s', d) (M\<lparr>mb_conn := (\<lambda>u. None)\<rparr>)"
proof -
  from assms(3) have "disk_rel cr drv busy path t N (st_key s) d (mb_box M)" by (simp add: mail_rel_def)
  then obtain f g s0 where k: "d (path @ keyFileSuffix) = Some g" "fdata g = st_key s"
    and q: "d path = Some f" "store_image cr drv s0 (fdata f)" "store_wf s0" "st_key s0 = st_key s"
      "holds_mail cr t (st_key s) (st_db s0) (mb_box M)" "db_seq (st_db s0) \<le> N"
    by (auto simp: disk_rel_def)
  have "length (st_key s0) = 32" "fdata g = st_key s0" "d path = Some \<lparr>fdata = fdata f, fmode = fmode f\<rparr>"
    using q(1,3,4) k(2) by (simp_all add: store_wf_def)
  from reopen_image [OF assms(1,2,4) k(1) this(2,1) q(2) this(3)] show ?thesis
    using q assms(3) by (auto simp: mail_rel_def store_wf_def)
qed

text \<open>The number of live messages, added up over the recipients.\<close>

lemma length_by_recipient:
  assumes "finite A" "row_recipient ` set (filter P rows) \<subseteq> A"
  shows "length (filter P rows) = (\<Sum>u \<in> A. length (filter (\<lambda>r. P r \<and> row_recipient r = u) rows))"
  using assms(2)
proof (induction rows)
  case (Cons r rows)
  then have IH: "length (filter P rows) = (\<Sum>u \<in> A. length (filter (\<lambda>r. P r \<and> row_recipient r = u) rows))"
    by (auto split: if_splits)
  have "(\<Sum>u \<in> A. length (filter (\<lambda>r. P r \<and> row_recipient r = u) (r # rows)))
      = (\<Sum>u \<in> A. (if u = row_recipient r then (if P r then 1 else 0) else 0)
           + length (filter (\<lambda>r. P r \<and> row_recipient r = u) rows))"
    by (intro sum.cong) auto
  also have "\<dots> = (if row_recipient r \<in> A then (if P r then 1 else 0) else 0) + length (filter P rows)"
    using assms(1) by (simp add: sum.distrib IH sum.delta)
  finally show ?case using Cons.prems by (auto split: if_splits)
qed simp

lemma count_refines:
  assumes "mail_rel cr drv busy path ttl t N (s, d) M"
  shows "QueuedMessages None t s = int (all_live t M)"
proof -
  note s = mail_relD [OF assms]
  let ?P = "\<lambda>r. t \<le> row_expires r"
  let ?A = "{u. live_at t (mb_box M u) \<noteq> []}"
  have wf: "table_wf (st_db s)" using s(1) by (simp add: store_wf_def)
  have each: "length (filter (\<lambda>r. ?P r \<and> row_recipient r = u) (db_rows (st_db s))) = length (live_at t (mb_box M u))" for u
  proof -
    have "length (filter (\<lambda>(p, x). t \<le> x) (mailbox (st_db s) u)) = length (live_at t (mb_box M u))"
      using s(5) by (simp add: holds_mail_def)
    then show ?thesis
      by (simp add: mailbox_def select_plain [OF wf] filter_map_rows conj_commute)
  qed
  have "live_at t (mb_box M u) \<noteq> [] \<longleftrightarrow> filter (\<lambda>r. ?P r \<and> row_recipient r = u) (db_rows (st_db s)) \<noteq> []" for u
    using each [of u] by (metis length_0_conv)
  then have sub: "row_recipient ` set (filter ?P (db_rows (st_db s))) = ?A"
    by (auto simp: filter_empty_conv)
  then have "finite ?A" by (metis List.finite_set finite_imageI)
  from length_by_recipient [OF this, of ?P "db_rows (st_db s)"] sub each s(2) show ?thesis
    by (simp add: QueuedMessages_def sqlCountLive_def all_live_def)
qed

lemma registry_refines:
  assumes "mail_rel cr drv busy path ttl t N (s, d) M"
  shows "mail_rel cr drv busy path ttl t N (snd (Register s u c), d) (M\<lparr>mb_conn := (mb_conn M)(u \<mapsto> c)\<rparr>)"
    and "mail_rel cr drv busy path ttl t N (Unregister s u c, d)
       (if mb_conn M u = Some c then M\<lparr>mb_conn := (mb_conn M)(u := None)\<rparr> else M)"
proof -
  note s = mail_relD [OF assms]
  have look: "map_of (st_clients s) u = mb_conn M u" by (simp add: s(7))
  show "mail_rel cr drv busy path ttl t N (snd (Register s u c), d) (M\<lparr>mb_conn := (mb_conn M)(u \<mapsto> c)\<rparr>)"
    using assms registry_wf(1) [OF s(1), of u c] s(7)
    by (auto simp: mail_rel_def Register_def)
  show "mail_rel cr drv busy path ttl t N (Unregister s u c, d)
       (if mb_conn M u = Some c then M\<lparr>mb_conn := (mb_conn M)(u := None)\<rparr> else M)"
    using assms registry_wf(2) [OF s(1), of u c] s(7)
    by (auto simp: mail_rel_def Unregister_def)
qed

lemma call_refines:
  assumes "gcm_correct cr" "driver_correct drv" "driver_total drv" "0 < ttl" "ttl * 1000000000 < 2 ^ 63"
    and "mail_rel cr drv busy path ttl t N w M" "call_ok busy path ttl t c" "N + 1 < 2 ^ 63"
  shows "fst (store_call cr drv path ttl c w) = fst (spec_call ttl t (request_of c) M)
    \<and> mail_rel cr drv busy path ttl t (N + 1) (snd (store_call cr drv path ttl c w)) (snd (spec_call ttl t (request_of c) M))"
proof -
  obtain s d where w: "w = (s, d)" by (cases w)
  note rel = assms(6) [unfolded w]
  have next_rel: "mail_rel cr drv busy path ttl t (N + 1) (s, d) M" using mail_rel_later [OF rel] by simp
  have look: "map_of (st_clients s) u = mb_conn M u" for u using mail_relD(7) [OF rel] by simp
  show ?thesis
  proof (cases c)
    case (CEnqueue env u m)
    with enqueue_refines [OF assms(1,3) rel, of env u m] assms(4,5,7,8) show ?thesis by (simp add: w)
  next
    case (CDrain env u)
    obtain ms s' d' where "DrainQueue cr drv env (s, d) u = (ms, s', d')" by (metis prod_cases3)
    with drain_refines [OF assms(3) rel _ this] CDrain assms(7) show ?thesis by (simp add: w)
  next
    case (CPurge env)
    with purge_refines [OF assms(3) rel] assms(7) show ?thesis by (simp add: w)
  next
    case (CCount fault epoch)
    with count_refines [OF rel] next_rel assms(7) show ?thesis by (simp add: w)
  next
    case (CRegister u k)
    with registry_refines(1) [OF next_rel, of u k] look [of u] show ?thesis
      by (auto simp: w Register_def)
  next
    case (CUnregister u k)
    with registry_refines(2) [OF next_rel, of u k] show ?thesis by (simp add: w)
  next
    case (CLookup u)
    with next_rel look [of u] show ?thesis by (simp add: w LookupClient_def)
  next
    case (CRestart env)
    with restart_refines [OF assms(1,2) next_rel, of env] assms(7) show ?thesis by (auto simp: w)
  qed
qed

text \<open>Sequences of calls, each with the time at which it is made.\<close>

fun calls_ok :: "string set \<Rightarrow> string \<Rightarrow> int \<Rightarrow> int \<Rightarrow> (int \<times> storeCall) list \<Rightarrow> bool" where
  "calls_ok busy path ttl t [] \<longleftrightarrow> True"
| "calls_ok busy path ttl t ((t1, c) # cs) \<longleftrightarrow> t \<le> t1 \<and> call_ok busy path ttl t1 c \<and> calls_ok busy path ttl t1 cs"

text \<open>The context of a call: the time of the last one and a bound of the row ids.\<close>

definition params_ok :: "crypto \<Rightarrow> sqliteDriver \<Rightarrow> int \<Rightarrow> bool" where
  "params_ok cr drv ttl \<longleftrightarrow> gcm_correct cr \<and> driver_correct drv \<and> driver_total drv \<and> 0 < ttl \<and> ttl * 1000000000 < 2 ^ 63"

definition timed_ok :: "string set \<Rightarrow> string \<Rightarrow> int \<Rightarrow> int \<times> int \<Rightarrow> int \<times> storeCall \<Rightarrow> bool" where
  "timed_ok busy path ttl k c \<longleftrightarrow> fst k \<le> fst c \<and> call_ok busy path ttl (fst c) (snd c) \<and> snd k + 1 < 2 ^ 63"

interpretation ms: simulation "\<lambda>c. store_call cr drv path ttl (snd c)" "\<lambda>x. spec_call ttl (fst x) (snd x)"
    "\<lambda>c x. x = apsnd request_of c" "timed_ok busy path ttl" "\<lambda>k c. (fst c, snd k + 1)"
    "\<lambda>k w M. params_ok cr drv ttl \<and> mail_rel cr drv busy path ttl (fst k) (snd k) w M"
  for cr drv busy path ttl
proof (unfold_locales, goal_cases)
  case (1 k w M c r w')
  have "mail_rel cr drv busy path ttl (fst c) (snd k) w M"
    using mail_rel_later [of cr drv busy path ttl "fst k" "snd k" w M "fst c" "snd k"] 1 by (simp add: timed_ok_def)
  with call_refines [of cr drv ttl busy path "fst c" "snd k" w M "snd c"] 1 show ?case
    by (cases "spec_call ttl (fst c) (request_of (snd c)) M") (simp add: params_ok_def timed_ok_def)
qed

lemma store_replies: "fst (store_calls cr drv path ttl (map snd cs) w) = replies (\<lambda>c. store_call cr drv path ttl (snd c)) cs w"
  by (induction cs arbitrary: w) (simp_all add: split_beta)

lemma spec_replies: "fst (spec_calls ttl xs M) = replies (\<lambda>x. spec_call ttl (fst x) (snd x)) xs M"
  by (induction xs arbitrary: M) (auto simp: split_beta)

lemma calls_allowed:
  assumes "calls_ok busy path ttl t cs" "N + int (length cs) < 2 ^ 63"
  shows "allowed (timed_ok busy path ttl) (\<lambda>k c. (fst c, snd k + 1)) (t, N) cs"
  using assms by (induction cs arbitrary: t N) (auto simp: timed_ok_def)

lemma calls_refine:
  assumes "params_ok cr drv ttl" "mail_rel cr drv busy path ttl t N w M"
    and "calls_ok busy path ttl t cs" "N + int (length cs) < 2 ^ 63"
  shows "fst (store_calls cr drv path ttl (map snd cs) w) = fst (spec_calls ttl (map (apsnd request_of) cs) M)"
proof -
  have "list_all2 (\<lambda>c x. x = apsnd request_of c) cs xs \<longleftrightarrow> xs = map (apsnd request_of) cs" for xs
    by (induction cs arbitrary: xs) (auto simp: list_all2_Cons1)
  with ms.same_replies [of cr drv ttl busy path "(t, N)" w M cs] assms calls_allowed [OF assms(3,4)] show ?thesis
    by (simp add: store_replies spec_replies)
qed

text \<open>A store opened for the first time is empty and saved, and holds no mail.\<close>

lemma first_open:
  assumes "NewStore cr drv env Map.empty path ttl = (Inr s, d)"
  obtains key b where "s = \<lparr>st_clients = [], st_db = sqlCreate, st_queuePath = path,
       st_key = key, st_ttl = seconds ttl, st_stopped = False\<rparr>"
    "store_wf s" "store_image cr drv s b" "d path = Some \<lparr>fdata = b, fmode = mode0600\<rparr>"
    "\<exists>g. d (path @ keyFileSuffix) = Some g \<and> fdata g = key"
proof -
  have inv: "store_wf s" "st_queuePath s = path" "saved cr drv path (st_key s) d"
    using NewStore_first [OF assms] by (simp_all add: life_inv_def)
  obtain key d1 where load: "loadOrCreateKey (se_key env) Map.empty (path @ keyFileSuffix) = (Inr key, d1)"
    "store_loadFromDisk cr drv env \<lparr>st_clients = [], st_db = sqlCreate, st_queuePath = path,
       st_key = key, st_ttl = seconds ttl, st_stopped = False\<rparr> d1 = (Inr s, d)"
    using assms by (rule NewStore_cases)
  have "d1 path = None"
    using loadOrCreateKey_frame [of path "path @ keyFileSuffix" "se_key env" Map.empty] load(1) key_path_other [of path]
    by simp
  with load(2) have s: "s = \<lparr>st_clients = [], st_db = sqlCreate, st_queuePath = path,
       st_key = key, st_ttl = seconds ttl, st_stopped = False\<rparr>"
    and p: "store_persistLocked cr drv (se_persist env) s d1 = (None, d)"
    by (auto simp: store_loadFromDisk_def readFile_def initSchema_def Let_def split: option.splits if_splits prod.splits)
  obtain b where "store_image cr drv s b" "d path = Some \<lparr>fdata = b, fmode = mode0600\<rparr>"
    using sq.persist_ok [OF p] inv(2) by auto
  with that [of key b] s inv show ?thesis by (auto simp: saved_def)
qed

lemma first_rel:
  assumes "NewStore cr drv env Map.empty path ttl = (Inr s, d)" "dom d \<subseteq> busy"
  shows "mail_rel cr drv busy path ttl t 0 (s, d) no_mail"
  using assms(1)
proof (cases rule: first_open)
  case (1 key b)
  have mail: "holds_mail cr t key sqlCreate (\<lambda>u. [])" "db_seq sqlCreate = 0"
    by (simp_all add: holds_mail_create) (simp add: sqlCreate_def)
  have "path \<in> busy" using 1(4) assms(2) by auto
  then have "disk_rel cr drv busy path t 0 key d (\<lambda>u. [])"
    unfolding disk_rel_def using 1 assms(2) mail by (auto intro!: exI [of _ s])
  with 1(1,2) mail show ?thesis by (simp add: mail_rel_def no_mail_def)
qed

text \<open>What a client of a freshly opened store may rely on.\<close>

locale opened_store =
  fixes cr :: crypto and drv :: sqliteDriver and senv :: storeEnv and path :: string and ttl :: int
    and s :: Store and d :: fs and busy :: "string set"
  assumes gcm: "gcm_correct cr" and driver: "driver_correct drv" "driver_total drv"
    and ttl: "0 < ttl" "ttl * 1000000000 < 2 ^ 63"
    and opened: "NewStore cr drv senv Map.empty path ttl = (Inr s, d)" "dom d \<subseteq> busy"
begin

lemma replies:
  assumes "calls_ok busy path ttl t cs" "int (length cs) < 2 ^ 63"
  shows "fst (store_calls cr drv path ttl (map snd cs) (s, d)) = fst (spec_calls ttl (map (apsnd request_of) cs) no_mail)"
  using calls_refine [OF _ first_rel [OF opened] assms(1)] gcm driver ttl assms(2) by (simp add: params_ok_def)

end

section \<open>Properties\<close>

text \<open>
  C2: The store refines a plain mailbox.  From the first start on, every sequence of calls,
  with purges and restarts of the process anywhere in it, gets exactly the replies of the
  abstract machine, in which a mailbox is a list of messages, the purge does nothing and a
  restart only forgets the connections: order, capacity of 500, expiry, count and registry
  are as specified, and encryption, database and files are invisible.  The calls meet no
  fault and their clock does not go backwards.
\<close>

theorem store_refines_mailbox:
  assumes "gcm_correct cr" "driver_correct drv" "driver_total drv" "0 < ttl" "ttl * 1000000000 < 2 ^ 63"
    and "NewStore cr drv env Map.empty path ttl = (Inr s, d)" "dom d \<subseteq> busy"
    and "calls_ok busy path ttl t cs" "int (length cs) < 2 ^ 63"
  shows "fst (store_calls cr drv path ttl (map snd cs) (s, d)) = fst (spec_calls ttl (map (apsnd request_of) cs) no_mail)"
  using opened_store.replies [OF opened_store.intro [OF assms(1-7)] assms(8,9)] .

text \<open>
  A crash during a flush loses messages for good.  A drain removes the messages and
  saves the database without them before the first of them is written to the client; if
  the process dies in between, the restarted store has none of them, although no client
  was sent any.
\<close>

theorem crash_in_flush_loses:
  assumes "gcm_correct cr" "driver_correct drv" "store_life cr drv path (s, d)" "\<not> st_stopped s"
    and "drain_clean env" "DrainQueue cr drv env (s, d) u = (ms, s1, d1)"
    and "fst (store_persistLocked cr drv (de_persist env) s1 d) = None" "start_clean env'"
  shows "ms = pending cr (unix (de_now env)) s u
    \<and> (\<exists>s2. NewStore cr drv env' d1 path ttl = (Inr s2, d1) \<and> (\<forall>now. pending cr now s2 u = []))"
proof -
  have inv: "store_wf s" "st_queuePath s = path" "saved cr drv path (st_key s) d"
    using store_life_inv [OF assms(1-3)] by (simp_all add: life_inv_def)
  let ?s = "s\<lparr>st_db := sqlDeleteFor u (st_db s)\<rparr>"
  have s1: "s1 = ?s" "d1 = snd (store_persistLocked cr drv (de_persist env) ?s d)"
    using assms(4-6) by (auto simp: DrainQueue_def drain_clean_def Let_def)
  with assms(7) have p: "store_persistLocked cr drv (de_persist env) ?s d = (None, d1)" by (simp add: prod_eq_iff)
  have wf: "store_wf ?s" "table_wf (st_db s)"
    using DrainQueue_wf [OF inv(1), of cr drv env d u] assms(6) s1(1) inv(1) by (simp_all add: store_wf_def)
  obtain g where k: "d1 (path @ keyFileSuffix) = Some g" "fdata g = st_key ?s"
    using persist_saved [of cr drv path ?s d "de_persist env"] inv wf(1) p by (auto simp: saved_def)
  obtain b where b: "store_image cr drv ?s b" "d1 path = Some \<lparr>fdata = b, fmode = mode0600\<rparr>"
    using sq.persist_ok [OF p] inv(2) by auto
  have "length (st_key ?s) = 32" using wf(1) by (simp add: store_wf_def)
  from reopen_image [OF assms(1,2,8) k this b] wf(2)
  have "\<exists>s2. NewStore cr drv env' d1 path ttl = (Inr s2, d1) \<and> (\<forall>now. pending cr now s2 u = [])"
    by (simp add: pending_def qt.box_delete)
  with DrainQueue_clean(1) [OF assms(4,5), of cr drv d u] assms(6) show ?thesis by simp
qed

section \<open>A concrete sequence of calls\<close>

text \<open>Every database has an image: its number in an enumeration of all databases.\<close>

instance row_ext :: (countable) countable
  by (rule countable_classI [of "\<lambda>r. to_nat (row_id r, row_recipient r, row_payload r, row_expires r, row.more r)"]) simp

instance sqlDB_ext :: (countable) countable
  by (rule countable_classI [of "\<lambda>t. to_nat (db_rows t, db_seq t, sqlDB.more t)"]) simp

definition countDriver :: sqliteDriver where
  "countDriver = \<lparr>drv_Serialize = Method (\<lambda>t. Inr (replicate (to_nat t) CHR ''x'')),
     drv_Deserialize = Method (\<lambda>b. Inr (from_nat (length b)))\<rparr>"

lemma countDriver_ok: "driver_correct countDriver" "driver_total countDriver"
  by (auto simp: driver_correct_def driver_total_def serializeDB_def deserializeDB_def countDriver_def)

lemma count_first:
  "\<exists>d. NewStore plainCrypto countDriver demo_start Map.empty ''q'' 604800 = (Inr demo_store, d)
     \<and> dom d \<subseteq> {''q'', ''q.key''}"
proof -
  let ?d = "[''q.key'' \<mapsto> \<lparr>fdata = replicate 32 CHR ''k'', fmode = mode0600\<rparr>]"
  have "tempName (filepathDir ''q'') ''queue-'' ''1'' = ''./queue-1.tmp''" by code_simp
  then have "save_clean {''q'', ''q.key''} ''queue-'' (st_queuePath demo_store) demo_persist"
    by (simp add: save_clean_def demo_persist_def gcmNonceSize_def demo_store_def)
  from save_succeeds [OF countDriver_ok(2) demo_wf(1,2) this, of ?d plainCrypto] obtain d where
    "store_persistLocked plainCrypto countDriver demo_persist demo_store ?d = (None, d)" "dom d \<subseteq> {''q'', ''q.key''}"
    by (auto simp: demo_store_def)
  then show ?thesis
    by (simp add: NewStore_def demo_start_def loadOrCreateKey_def readFile_def writeFile_def
        keyFileSuffix_def store_loadFromDisk_def initSchema_def demo_store_def Let_def)
qed

definition count_disk :: fs where
  "count_disk = snd (NewStore plainCrypto countDriver demo_start Map.empty ''q'' 604800)"

lemma count_opened:
  "NewStore plainCrypto countDriver demo_start Map.empty ''q'' 604800 = (Inr demo_store, count_disk)"
  "dom count_disk \<subseteq> {''q'', ''q.key''}"
  using count_first unfolding count_disk_def by (metis snd_conv)+

interpretation os: opened_store plainCrypto countDriver demo_start "''q''" 604800 demo_store count_disk "{''q'', ''q.key''}"
  by unfold_locales (simp_all only: plainCrypto_gcm countDriver_ok count_opened, simp_all)

definition demo_calls :: "(int \<times> storeCall) list" where
  "demo_calls = [(0, CRegister ''bob'' 7), (0, CEnqueue demo_enq ''bob'' demo_msg), (3, CRestart demo_start),
     (4, CLookup ''bob''), (5, CCount None 5), (5, CDrain (demo_drain\<lparr>de_now := 5000000000\<rparr>) ''bob''), (6, CCount None 6)]"

lemma demo_calls_ok: "calls_ok {''q'', ''q.key''} ''q'' 604800 0 demo_calls"
proof -
  have "tempName (filepathDir ''q'') ''queue-'' ''1'' = ''./queue-1.tmp''" by code_simp
  then have "save_clean {''q'', ''q.key''} ''queue-'' ''q'' demo_persist"
    by (simp add: save_clean_def demo_persist_def gcmNonceSize_def)
  moreover have "message_wf demo_msg" using demo_enq_ok by (simp add: enq_ok_def)
  moreover have "drain_clean (demo_drain\<lparr>de_now := 5000000000\<rparr>)" "start_clean demo_start"
    by (simp_all add: drain_clean_def demo_drain_def start_clean_def demo_start_def)
  ultimately show ?thesis
    using demo_wf(3) by (simp add: demo_calls_def int64_ok_def unix_def) (simp add: demo_enq_def demo_drain_def)
qed

theorem store_refines_mailbox_witness:
  "fst (store_calls plainCrypto countDriver ''q'' 604800 (map snd demo_calls) (demo_store, count_disk))
     = [Peer None, Done, Done, Peer None, Number 1, Messages [demo_msg\<lparr>qm_ExpiresAt := 604800\<rparr>], Number 0]"
proof -
  have "fst (store_calls plainCrypto countDriver ''q'' 604800 (map snd demo_calls) (demo_store, count_disk))
      = fst (spec_calls 604800 (map (apsnd request_of) demo_calls) no_mail)"
    by (rule store_refines_mailbox [OF plainCrypto_gcm countDriver_ok _ _ count_opened demo_calls_ok]) (simp_all add: demo_calls_def)
  also have "\<dots> = [Peer None, Done, Done, Peer None, Number 1, Messages [demo_msg\<lparr>qm_ExpiresAt := 604800\<rparr>], Number 0]"
    by (simp add: demo_calls_def no_mail_def live_at_def all_live_def)
  finally show ?thesis .
qed

theorem crash_in_flush_loses_witness:
  "\<exists>w s1 d1 s2. DrainQueue plainCrypto countDriver demo_drain w ''bob'' = ([demo_msg\<lparr>qm_ExpiresAt := 604800\<rparr>], s1, d1)
     \<and> NewStore plainCrypto countDriver demo_start d1 ''q'' 604800 = (Inr s2, d1) \<and> pending plainCrypto 0 s2 ''bob'' = []"
proof -
  let ?busy = "{''q'', ''q.key''}"
  note d0 = count_opened
  obtain s d where w: "Enqueue plainCrypto countDriver demo_enq (demo_store, count_disk) ''bob'' demo_msg = (s, d)" by fastforce
  have ok: "call_ok ?busy ''q'' 604800 0 (CEnqueue demo_enq ''bob'' demo_msg)" "call_ok ?busy ''q'' 604800 0 (CDrain demo_drain ''bob'')"
    using demo_calls_ok demo_wf(4,5) by (simp_all add: demo_calls_def)
  have rel: "mail_rel plainCrypto countDriver ?busy ''q'' 604800 0 (0 + 1) (s, d) (snd (spec_call 604800 0 (Send ''bob'' demo_msg) no_mail))"
    using enqueue_refines [OF plainCrypto_gcm countDriver_ok(2) first_rel [OF d0] ok(1)] w by simp
  have life: "store_life plainCrypto countDriver ''q'' (s, d)"
    using store_life.serves [OF store_life.first [OF d0(1)] store_step.enqueue, of demo_enq "''bob''" demo_msg] w by simp
  obtain ms s1 d1 where dr: "DrainQueue plainCrypto countDriver demo_drain (s, d) ''bob'' = (ms, s1, d1)" by (metis prod_cases3)
  have ms: "ms = [demo_msg\<lparr>qm_ExpiresAt := 604800\<rparr>]"
    and s1: "store_wf s1" "\<not> st_stopped s1" "st_queuePath s1 = ''q''"
    using drain_refines [OF countDriver_ok(2) rel ok(2) dr] by (simp_all add: live_at_def no_mail_def mail_rel_def)
  have "save_clean ?busy ''queue-'' (st_queuePath s1) (de_persist demo_drain)" using ok(2) s1(3) by simp
  moreover have "dom d \<subseteq> ?busy" using mail_relD(8) [OF rel] by (simp add: disk_rel_def)
  ultimately have save: "fst (store_persistLocked plainCrypto countDriver (de_persist demo_drain) s1 d) = None"
    using save_succeeds [OF countDriver_ok(2) s1(1,2), of ?busy "de_persist demo_drain" d plainCrypto] s1(3) by auto
  have start: "start_clean demo_start" using demo_calls_ok by (simp add: demo_calls_def)
  have "\<exists>s2. NewStore plainCrypto countDriver demo_start d1 ''q'' 604800 = (Inr s2, d1) \<and> (\<forall>now. pending plainCrypto now s2 ''bob'' = [])"
    using crash_in_flush_loses [OF plainCrypto_gcm countDriver_ok(1) life mail_relD(2) [OF rel] demo_wf(4) dr save start] by blast
  with dr ms show ?thesis by blast
qed

end
