(* ===== verification/Crash_Interleaving.thy ===== *)
theory Crash_Interleaving
  imports Interleaving Mailbox_Spec
begin

text \<open>
  Interleavings in which the process dies.  A crash ends every goroutine at the point where
  it is; the next process opens the store on the disk that is left.

  Shown: in every interleaving of deliveries, connections, purges and crashes in which
  statements and saves succeed, mailboxes have room and nothing expires, the queue on disk
  is the queue in memory between any two critical sections, and what a crash loses is
  exactly what the goroutines carried.
\<close>

section \<open>Crashes\<close>

text \<open>The messages a goroutine carries, with their recipients.\<close>

fun carried :: "task \<Rightarrow> (string \<times> queuedMessage) list" where
  "carried (Looking u m) = [(u, m)]"
| "carried (Writing c u m) = [(u, m)]"
| "carried (Queuing u m) = [(u, m)]"
| "carried (Flushing u c ms) = map (Pair u) ms"
| "carried (Returning u c ms) = map (Pair u) ms"
| "carried t = []"

datatype lifeEvent = Normal event | Crash storeEnv

text \<open>
  The net and, as a history variable, the messages lost so far.  If the store does not
  open, the relay stays down: no goroutine, no connection.
\<close>

fun life_step :: "crypto \<Rightarrow> sqliteDriver \<Rightarrow> string \<Rightarrow> int \<Rightarrow> lifeEvent \<Rightarrow> net \<times> (string \<times> queuedMessage) list
    \<Rightarrow> net \<times> (string \<times> queuedMessage) list" where
  "life_step cr drv path ttl (Normal e) (n, lost) = (net_step cr drv e n, lost)"
| "life_step cr drv path ttl (Crash env) (n, lost) =
     ((case NewStore cr drv env (nt_disk n) path ttl of
         (Inl e, d') \<Rightarrow> n\<lparr>nt_disk := d', nt_tasks := []\<rparr>
       | (Inr s', d') \<Rightarrow> n\<lparr>nt_store := s', nt_disk := d', nt_tasks := []\<rparr>),
      lost @ concat (map carried (nt_tasks n)))"

fun life_run :: "crypto \<Rightarrow> sqliteDriver \<Rightarrow> string \<Rightarrow> int \<Rightarrow> lifeEvent list \<Rightarrow> net \<times> (string \<times> queuedMessage) list
    \<Rightarrow> net \<times> (string \<times> queuedMessage) list" where
  "life_run cr drv path ttl [] w = w"
| "life_run cr drv path ttl (e # es) w = life_run cr drv path ttl es (life_step cr drv path ttl e w)"

text \<open>The saves of an event succeed, and so does a start.\<close>

fun saves_ok :: "string set \<Rightarrow> string \<Rightarrow> event \<Rightarrow> bool" where
  "saves_ok busy path (Section i env) \<longleftrightarrow> save_clean busy ''queue-'' path (ee_persist (sc_enq env)) \<and> save_clean busy ''queue-'' path (de_persist (sc_drain env))"
| "saves_ok busy path (Purge env) \<longleftrightarrow> save_clean busy ''queue-'' path (pu_persist env)"
| "saves_ok busy path e \<longleftrightarrow> True"

fun life_event_ok :: "string set \<Rightarrow> string \<Rightarrow> int \<Rightarrow> lifeEvent \<Rightarrow> net \<Rightarrow> bool" where
  "life_event_ok busy path T (Normal e) n \<longleftrightarrow> event_ok T e n \<and> saves_ok busy path e"
| "life_event_ok busy path T (Crash env) n \<longleftrightarrow> start_clean env"

fun life_ok :: "crypto \<Rightarrow> sqliteDriver \<Rightarrow> string set \<Rightarrow> string \<Rightarrow> int \<Rightarrow> int \<Rightarrow> lifeEvent list
    \<Rightarrow> net \<times> (string \<times> queuedMessage) list \<Rightarrow> bool" where
  "life_ok cr drv busy path ttl T [] w \<longleftrightarrow> True"
| "life_ok cr drv busy path ttl T (e # es) w \<longleftrightarrow>
     life_event_ok busy path T e (fst w) \<and> life_ok cr drv busy path ttl T es (life_step cr drv path ttl e w)"

section \<open>The disk is up to date\<close>

definition durable :: "crypto \<Rightarrow> sqliteDriver \<Rightarrow> string set \<Rightarrow> string \<Rightarrow> Store \<Rightarrow> fs \<Rightarrow> bool" where
  "durable cr drv busy path s d \<longleftrightarrow> st_queuePath s = path \<and> dom d \<subseteq> busy \<and> path \<in> busy
     \<and> (\<exists>g. d (path @ keyFileSuffix) = Some g \<and> fdata g = st_key s)
     \<and> (\<exists>b m. store_image cr drv s b \<and> d path = Some \<lparr>fdata = b, fmode = m\<rparr>)"

lemma durable_cong:
  assumes "durable cr drv busy path s d" "st_db s' = st_db s" "st_key s' = st_key s" "st_queuePath s' = st_queuePath s"
  shows "durable cr drv busy path s' d"
  using assms by (simp add: durable_def store_image_def)

lemma durable_save:
  assumes "driver_total drv" "durable cr drv busy path s0 d" "store_wf s" "\<not> st_stopped s" "save_clean busy ''queue-'' path env"
    and "st_key s = st_key s0" "st_queuePath s = st_queuePath s0"
  shows "durable cr drv busy path s (snd (store_persistLocked cr drv env s d))"
proof -
  have p: "st_queuePath s = path" "dom d \<subseteq> busy" "path \<in> busy" using assms(2,7) by (simp_all add: durable_def)
  obtain d' where d': "store_persistLocked cr drv env s d = (None, d')" "dom d' \<subseteq> busy"
    using save_succeeds [OF assms(1,3,4), of busy env d cr] assms(5) p by auto
  obtain g where g: "d (path @ keyFileSuffix) = Some g" "fdata g = st_key s" using assms(2,6) by (auto simp: durable_def)
  have "d' (path @ keyFileSuffix) = Some g"
    using sq.persist_frame [of d "path @ keyFileSuffix" s cr drv env] d'(1) g(1) p(1) by (simp add: key_path_other)
  with sq.persist_ok [OF d'(1)] d' g(2) p show ?thesis by (auto simp: durable_def)
qed

lemma Enqueue_durable:
  assumes "driver_total drv" "durable cr drv busy path s d" "queue_inv cr T s" "enqueues_ok T s env u"
    and "save_clean busy ''queue-'' path (ee_persist env)" "Enqueue cr drv env (s, d) u m = (s', d')"
  shows "durable cr drv busy path s' d'"
proof -
  have wf: "store_wf s" "\<not> st_stopped s" using assms(3) by (simp_all add: queue_inv_def)
  have env: "enq_clean env" "has_room env s u" using assms(4) by (simp_all add: enqueues_ok_def)
  have "store_wf s'" using Enqueue_wf [OF wf(1), of cr drv env d u m] assms(6) by simp
  moreover have k: "st_key s' = st_key s" "st_queuePath s' = st_queuePath s" "st_stopped s' = st_stopped s"
    using Enqueue_key [of cr drv env "(s, d)" u m] assms(6) by simp_all
  moreover have "d' = snd (store_persistLocked cr drv (ee_persist env) s' d)"
  proof -
    obtain c where "encrypt cr (st_key s) (ee_rand env) (marshalMessage (m\<lparr>qm_ExpiresAt := expiry env s\<rparr>)) = Inr c"
      using wf(2) env by (auto intro: Enqueue_mailbox [OF wf])
    moreover have "\<not> maxQueuePerRecipient \<le> sqlCountFor u (sqlDeleteExpiredFor u (ee_epoch env) (st_db s))"
      using env(2) wf(1) by (simp add: has_room_def qt.count_box qt.box_expire_for store_wf_def)
    moreover have "\<not> 2 ^ 63 \<le> db_seq (st_db s) + 1" using env(2) by (simp add: has_room_def)
    ultimately show ?thesis
      using assms(6) wf(2) env(1)
      by (auto simp: Enqueue_def enq_clean_def expiry_def sqlInsert_def sqlDeleteExpiredFor_def Let_def split: sum.splits if_splits)
  qed
  ultimately show ?thesis using durable_save [OF assms(1,2), of s' "ee_persist env"] wf(2) assms(5) by simp
qed

lemma task_step_durable:
  assumes "driver_total drv" "durable cr drv busy path s d" "queue_inv cr T s" "section_ok T s env t"
    and "save_clean busy ''queue-'' path (ee_persist (sc_enq env))" "save_clean busy ''queue-'' path (de_persist (sc_drain env))"
    and "task_step cr drv env (s, d) t = (t', acts, s', d')"
  shows "durable cr drv busy path s' d'"
proof (cases "(cr, drv, env, (s, d), t)" rule: task_step.cases)
  case (3 cr drv env w u m)
  then show ?thesis using Enqueue_durable [of drv cr busy path s d T "sc_enq env" u m s' d'] assms by auto
next
  case (9 cr drv env w u c m ms)
  then show ?thesis using Enqueue_durable [of drv cr busy path s d T "sc_enq env" u m s' d'] assms by auto
next
  case (5 cr drv env w u c)
  with assms obtain ms where "DrainQueue cr drv (sc_drain env) (s, d) u = (ms, s', d')" by (auto split: prod.splits)
  then have s': "s' = s\<lparr>st_db := sqlDeleteFor u (st_db s)\<rparr>" "d' = snd (store_persistLocked cr drv (de_persist (sc_drain env)) s' d)"
    and wf: "store_wf s'"
    using assms(3,4) 5 DrainQueue_wf [of s cr drv "sc_drain env" d u]
    by (auto simp: DrainQueue_def drain_clean_def queue_inv_def Let_def)
  with durable_save [of drv cr busy path s d s' "de_persist (sc_drain env)"] assms 5 show ?thesis
    by (simp add: queue_inv_def)
next
  case (4 cr drv env w u c)
  then show ?thesis using assms by (auto simp: Register_def intro: durable_cong split: prod.splits)
next
  case (10 cr drv env w u c)
  then show ?thesis using assms by (auto simp: Unregister_def intro: durable_cong split: if_splits)
qed (use assms in \<open>auto split: option.splits sum.splits if_splits\<close>)

lemma net_step_durable:
  assumes "driver_total drv" "durable cr drv busy path (nt_store n) (nt_disk n)" "net_inv cr T n"
    and "event_ok T e n" "saves_ok busy path e"
  shows "durable cr drv busy path (nt_store (net_step cr drv e n)) (nt_disk (net_step cr drv e n))"
proof (cases e)
  case (Section i env)
  show ?thesis
  proof (cases "i < length (nt_tasks n)")
    case True
    obtain t acts s d where st: "task_step cr drv env (nt_store n, nt_disk n) (nt_tasks n ! i) = (t, acts, s, d)"
      by (metis prod_cases4)
    have "queue_inv cr T (nt_store n)" using assms(3) by (simp add: net_inv_def)
    from task_step_durable [OF assms(1,2) this _ _ _ st] True assms(4,5) Section st show ?thesis by simp
  qed (use assms(2) Section in simp)
next
  case (Purge env)
  let ?s = "(nt_store n)\<lparr>st_db := sqlDeleteExpired (pu_epoch env) (st_db (nt_store n))\<rparr>"
  have inv: "store_wf (nt_store n)" "\<not> st_stopped (nt_store n)" using assms(3) by (simp_all add: net_inv_def queue_inv_def)
  show ?thesis
  proof (cases "pu_delete env")
    case None
    then have p: "purgeExpired cr drv env (nt_store n, nt_disk n) = (?s, snd (store_persistLocked cr drv (pu_persist env) ?s (nt_disk n)))"
      using inv(2) by (simp add: purgeExpired_def Let_def)
    then have "store_wf ?s" using purgeExpired_wf [OF inv(1), of cr drv env "nt_disk n"] by simp
    with durable_save [OF assms(1,2), of ?s "pu_persist env"] inv(2) assms(5) Purge p show ?thesis by simp
  qed (use assms(2) Purge in \<open>simp add: purgeExpired_def\<close>)
qed (use assms(2) in simp_all)

text \<open>A store opened on an up-to-date disk has the same mail and no connections.\<close>

lemma reopen_durable:
  assumes "gcm_correct cr" "driver_correct drv" "durable cr drv busy path s d" "queue_inv cr T s" "start_clean env"
  shows "\<exists>s'. NewStore cr drv env d path ttl = (Inr s', d) \<and> durable cr drv busy path s' d \<and> queue_inv cr T s'
    \<and> (\<forall>u. pending cr T s' u = pending cr T s u) \<and> st_clients s' = []"
proof -
  from assms(3) obtain g b m where k: "d (path @ keyFileSuffix) = Some g" "fdata g = st_key s"
    and b: "store_image cr drv s b" "d path = Some \<lparr>fdata = b, fmode = m\<rparr>" and path: "st_queuePath s = path"
    by (auto simp: durable_def)
  have "length (st_key s) = 32" using assms(4) by (simp add: queue_inv_def store_wf_def)
  note new = reopen_image [OF assms(1,2,5) k this b, of ttl]
  let ?s = "\<lparr>st_clients = [], st_db = st_db s, st_queuePath = path, st_key = st_key s, st_ttl = seconds ttl, st_stopped = False\<rparr>"
  have "durable cr drv busy path ?s d" using path by (intro durable_cong [OF assms(3)]) simp_all
  moreover have pend: "pending cr T ?s u = pending cr T s u" for u by (simp add: pending_def)
  moreover have "queue_inv cr T ?s" using assms(4) by (simp add: queue_inv_def store_wf_def pend)
  ultimately show ?thesis using new by auto
qed

lemma carried_held: "map snd (filter (\<lambda>x. fst x = u) (carried t)) = held u t"
proof -
  have "filter (\<lambda>x. fst x = u) (map (Pair v) ms) = (if v = u then map (Pair v) ms else [])" for v and ms :: "queuedMessage list"
    by (induction ms) auto
  then show ?thesis by (cases t) (auto simp: comp_def)
qed

lemma lost_in_flight: "for_user u (concat (map carried (nt_tasks n))) = in_flight u n"
  by (simp add: for_user_def in_flight_def filter_concat map_concat comp_def carried_held)

section \<open>Conservation with crashes\<close>

definition life_good :: "crypto \<Rightarrow> sqliteDriver \<Rightarrow> string set \<Rightarrow> string \<Rightarrow> int \<Rightarrow> net \<Rightarrow> bool" where
  "life_good cr drv busy path T n \<longleftrightarrow> net_inv cr T n \<and> durable cr drv busy path (nt_store n) (nt_disk n)"

lemma life_step_conserves:
  assumes "gcm_correct cr" "driver_correct drv" "driver_total drv" "life_good cr drv busy path T n"
    and "life_event_ok busy path T e n" "life_step cr drv path ttl e (n, lost) = (n', lost')"
  shows "life_good cr drv busy path T n'
    \<and> (total cr T u n' + for_user u lost') + for_user u (nt_arrived n)
      = (total cr T u n + for_user u lost) + for_user u (nt_arrived n')"
proof -
  have inv: "net_inv cr T n" "durable cr drv busy path (nt_store n) (nt_disk n)" "queue_inv cr T (nt_store n)"
    using assms(4) by (simp_all add: life_good_def net_inv_def)
  show ?thesis
  proof (cases e)
    case (Normal ev)
    with assms(5,6) net_step_conserves [OF assms(1) inv(1), of ev drv u] net_step_durable [OF assms(3) inv(2,1), of ev]
    show ?thesis by (auto simp: life_good_def ac_simps)
  next
    case (Crash env)
    with assms(5) reopen_durable [OF assms(1,2) inv(2,3), of env ttl] obtain s' where
      s': "NewStore cr drv env (nt_disk n) path ttl = (Inr s', nt_disk n)" "durable cr drv busy path s' (nt_disk n)"
        "queue_inv cr T s'" "\<forall>u. pending cr T s' u = pending cr T (nt_store n) u" by auto
    with assms(6) Crash have n': "n' = n\<lparr>nt_store := s', nt_disk := nt_disk n, nt_tasks := []\<rparr>"
      "lost' = lost @ concat (map carried (nt_tasks n))" by simp_all
    have "in_flight u n' = {#}" by (simp add: n' in_flight_def)
    with n' s' lost_in_flight [of u n] show ?thesis
      by (simp add: life_good_def net_inv_def total_def ac_simps)
  qed
qed

lemma life_run_conserves:
  assumes "gcm_correct cr" "driver_correct drv" "driver_total drv" "life_good cr drv busy path T n"
    and "life_ok cr drv busy path ttl T es (n, lost)" "life_run cr drv path ttl es (n, lost) = (n', lost')"
  shows "life_good cr drv busy path T n'
    \<and> (total cr T u n' + for_user u lost') + for_user u (nt_arrived n)
      = (total cr T u n + for_user u lost) + for_user u (nt_arrived n')"
  using assms(4-6)
proof (induction es arbitrary: n lost)
  case (Cons e es)
  obtain n1 lost1 where one: "life_step cr drv path ttl e (n, lost) = (n1, lost1)" by fastforce
  have ok: "life_event_ok busy path T e n" "life_ok cr drv busy path ttl T es (n1, lost1)"
    using Cons.prems(2) one by simp_all
  note s = life_step_conserves [OF assms(1-3) Cons.prems(1) ok(1) one, of u]
  have "life_run cr drv path ttl es (n1, lost1) = (n', lost')" using Cons.prems(3) one by simp
  from Cons.IH [OF conjunct1 [OF s] ok(2) this] s show ?case by (auto intro: balance_trans)
qed simp

text \<open>The output is tied to the messages handed over in every life, whatever fails.\<close>

fun life_event_owned :: "(conn \<Rightarrow> string) \<Rightarrow> lifeEvent \<Rightarrow> bool" where
  "life_event_owned owner (Normal e) = event_owned owner e"
| "life_event_owned owner (Crash env) = True"

lemma NewStore_clients:
  assumes "NewStore cr drv env d path ttl = (Inr s, d')"
  shows "st_clients s = []"
  using assms
proof (cases rule: NewStore_cases)
  case (1 key d1)
  then show ?thesis
    by (auto simp: store_loadFromDisk_def initSchema_def Let_def split: sum.splits if_splits option.splits prod.splits)
qed

lemma life_step_owned:
  assumes "net_owned owner n" "life_event_owned owner e"
  shows "net_owned owner (fst (life_step cr drv path ttl e (n, lost)))"
proof (cases e)
  case (Normal ev)
  with assms net_step_owned show ?thesis by simp
next
  case (Crash env)
  have "clients_owned owner s'" if "NewStore cr drv env (nt_disk n) path ttl = (Inr s', d')" for s' d'
    using NewStore_clients [OF that] by (simp add: clients_owned_def LookupClient_def)
  with assms(1) Crash show ?thesis by (auto simp: net_owned_def split: prod.split sum.split)
qed

lemma life_run_owned:
  assumes "net_owned owner n" "\<forall>e \<in> set es. life_event_owned owner e"
  shows "net_owned owner (fst (life_run cr drv path ttl es (n, lost)))"
  using assms
proof (induction es arbitrary: n lost)
  case (Cons e es)
  obtain n1 lost1 where one: "life_step cr drv path ttl e (n, lost) = (n1, lost1)" by fastforce
  with life_step_owned [of owner n e cr drv path ttl lost] Cons.prems have "net_owned owner n1" by simp
  from Cons.IH [OF this] Cons.prems one show ?case by simp
qed simp

section \<open>Properties\<close>

text \<open>
  C6: Crashes lose only what is in flight.  In every interleaving of deliveries, connections,
  purges and crashes, with restarts and with any writes failing, as long as database
  statements and saves succeed, every enqueue finds room in the mailbox and nothing expires:
  the messages accepted for a user, with those queued at the start, are those queued, those
  a running goroutine carries, those that goroutines carried at the moment of a crash, and
  others whose frames are exactly, one for one, the frames written to connections of the
  user.
\<close>

theorem crashes_lose_only_in_flight:
  assumes "gcm_correct cr" "driver_correct drv" "driver_total drv" "queue_inv cr T s" "durable cr drv busy path s d"
    and "life_ok cr drv busy path ttl T es (net_start s d, [])" "life_run cr drv path ttl es (net_start s d, []) = (n, lost)"
    and "clients_owned owner s" "\<forall>e \<in> set es. life_event_owned owner e"
  shows "\<exists>written. bodies (pending cr T s u) + for_user u (nt_arrived n)
      = written + bodies (pending cr T (nt_store n) u) + in_flight u n + for_user u lost
    \<and> sent_to owner u (nt_out n) = image_mset frame_of written"
proof (intro exI conjI)
  have "life_good cr drv busy path T (net_start s d)" using assms(4,5) by (simp add: life_good_def net_inv_def net_start_def)
  from life_run_conserves [OF assms(1-3) this assms(6,7), of u]
  show "bodies (pending cr T s u) + for_user u (nt_arrived n)
      = for_user u (nt_handed n) + bodies (pending cr T (nt_store n) u) + in_flight u n + for_user u lost"
    by (simp add: total_def net_start_def in_flight_def ac_simps)
  from life_run_owned [OF net_start_owned [OF assms(8)] assms(9), of cr drv path ttl d "[]"] assms(7)
  show "sent_to owner u (nt_out n) = image_mset frame_of (for_user u (nt_handed n))"
    by (simp add: net_owned_def)
qed

section \<open>A concrete crash\<close>

text \<open>A message for bob is queued; bob connects and drains; the process dies before it writes.\<close>

definition demo_life_events :: "lifeEvent list" where
  "demo_life_events = map Normal [Arrive ''bob'' demo_msg, Section 0 demo_section, Section 0 demo_section,
     Connect ''bob'' 7, Section 1 demo_section, Section 1 demo_section] @ [Crash demo_start]"

lemma count_durable: "durable plainCrypto countDriver {''q'', ''q.key''} ''q'' demo_store count_disk"
  using count_opened(1)
proof (cases rule: first_open)
  case (1 key b)
  have key: "key = st_key demo_store" "st_queuePath demo_store = ''q''" 
    using arg_cong [OF 1(1), of st_key] arg_cong [OF 1(1), of st_queuePath] by simp_all
  have "\<exists>g. count_disk (''q'' @ keyFileSuffix) = Some g \<and> fdata g = st_key demo_store" using 1(5) key(1) by simp
  then show ?thesis using 1(3,4) key(2) count_opened(2) unfolding durable_def by blast
qed

lemma demo_enqueues: "enqueues_ok 0 demo_store demo_enq ''bob''" "deliverable demo_msg"
  using demo_wf(3) demo_expiry demo_room demo_enq_ok
  by (simp_all add: enqueues_ok_def int64_ok_def deliverable_def enq_ok_def has_envelope_def)
    (simp_all add: demo_enq_def demo_msg_def)

lemma demo_life_run:
  "life_ok plainCrypto countDriver {''q'', ''q.key''} ''q'' 604800 0 demo_life_events (net_start demo_store count_disk, [])"
  "snd (life_run plainCrypto countDriver ''q'' 604800 demo_life_events (net_start demo_store count_disk, []))
     = [(''bob'', demo_msg\<lparr>qm_ExpiresAt := 604800\<rparr>)]"
proof -
  obtain s1 d1 where e: "Enqueue plainCrypto countDriver demo_enq (demo_store, count_disk) ''bob'' demo_msg = (s1, d1)" by fastforce
  let ?s2 = "snd (Register s1 ''bob'' 7)"
  obtain ms s3 d3 where dr: "DrainQueue plainCrypto countDriver demo_drain (?s2, d1) ''bob'' = (ms, s3, d3)" by (metis prod_cases3)
  have look: "LookupClient demo_store ''bob'' = None" by (simp add: LookupClient_def demo_store_def)
  have q1: "queue_inv plainCrypto 0 s1"
    using Enqueue_queue(1) [OF plainCrypto_gcm demo_queue_inv demo_enqueues, of countDriver count_disk] e by simp
  have "pending plainCrypto 0 s1 ''bob'' = [demo_msg\<lparr>qm_ExpiresAt := 604800\<rparr>]"
    using Enqueue_pending [OF plainCrypto_gcm demo_wf(1-3) demo_room, of demo_msg 0 countDriver count_disk] demo_enq_ok e
    by (simp add: enq_ok_def demo_expiry demo_empty)
  then have ms: "ms = [demo_msg\<lparr>qm_ExpiresAt := 604800\<rparr>]"
    using DrainQueue_queue(1) [OF registry_queue(1) [OF q1] demo_wf(4) _ dr] demo_wf(5) registry_queue(3) by simp
  have save: "save_clean {''q'', ''q.key''} ''queue-'' ''q'' demo_persist" using demo_calls_ok by (simp add: demo_calls_def) (simp add: demo_enq_def)
  have env: "ee_persist demo_enq = demo_persist" "de_persist demo_drain = demo_persist" by (simp_all add: demo_enq_def demo_drain_def)
  have start: "start_clean demo_start" using demo_calls_ok by (simp add: demo_calls_def)
  show "life_ok plainCrypto countDriver {''q'', ''q.key''} ''q'' 604800 0 demo_life_events (net_start demo_store count_disk, [])"
    using look demo_enqueues demo_wf(4,5) save env start
    by (simp add: demo_life_events_def net_start_def demo_section_def e dr split_beta)
  show "snd (life_run plainCrypto countDriver ''q'' 604800 demo_life_events (net_start demo_store count_disk, []))
     = [(''bob'', demo_msg\<lparr>qm_ExpiresAt := 604800\<rparr>)]"
    using look by (simp add: demo_life_events_def net_start_def demo_section_def e dr ms split_beta)
qed

lemma demo_life_out:
  "sent_to (\<lambda>_. ''bob'') ''bob'' (nt_out (fst (life_run plainCrypto countDriver ''q'' 604800 demo_life_events
     (net_start demo_store count_disk, [])))) = {#}"
  using demo_registered(2)
  by (simp add: demo_life_events_def net_start_def demo_section_def Register_def LookupClient_def sent_to_append split_beta
      frame_simps demo_store_def split: sum.split)

theorem crashes_lose_only_in_flight_witness:
  "\<exists>n. fst (life_run plainCrypto countDriver ''q'' 604800 demo_life_events (net_start demo_store count_disk, [])) = n
     \<and> for_user ''bob'' (nt_arrived n)
       = bodies (pending plainCrypto 0 (nt_store n) ''bob'') + in_flight ''bob'' n + {#body demo_msg#}"
proof -
  obtain n lost where r: "life_run plainCrypto countDriver ''q'' 604800 demo_life_events (net_start demo_store count_disk, []) = (n, lost)"
    by fastforce
  have "clients_owned (\<lambda>_. ''bob'') demo_store" by (simp add: clients_owned_def LookupClient_def demo_store_def)
  moreover have "\<forall>e \<in> set demo_life_events. life_event_owned (\<lambda>_. ''bob'') e" by (simp add: demo_life_events_def)
  ultimately obtain w where "bodies (pending plainCrypto 0 demo_store ''bob'') + for_user ''bob'' (nt_arrived n)
      = w + bodies (pending plainCrypto 0 (nt_store n) ''bob'') + in_flight ''bob'' n + for_user ''bob'' lost"
      "sent_to (\<lambda>_. ''bob'') ''bob'' (nt_out n) = image_mset frame_of w"
    using crashes_lose_only_in_flight [OF plainCrypto_gcm countDriver_ok demo_queue_inv count_durable demo_life_run(1) r] by blast
  with demo_life_run(2) demo_life_out r show ?thesis by (simp add: demo_empty)
qed

end
