(* ===== verification/Anonymity.thy ===== *)
theory Anonymity
  imports Router_Props
begin

text \<open>
  The relay and the identity of senders.  The only use \<^verbatim>\<open>Router.Route\<close> makes of the sender's
  name is as a key of the rate limiter; here this is a noninterference property of whole
  runs.

  Shown: if the senders of a run are given other names, no two of them the same, every
  frame written, every request to another relay, every mailbox and every byte on disk is
  the same; and over one payload even two senders with the same verdict of the limiter
  cannot be told apart.
\<close>

section \<open>Runs of the router\<close>

record routed =
  ro_now :: time
  ro_env :: deliverEnv
  ro_sender :: string
  ro_payload :: bytes

fun routeAll :: "crypto \<Rightarrow> sqliteDriver \<Rightarrow> routed list \<Rightarrow> Router \<Rightarrow> Store \<times> fs \<Rightarrow> action list \<times> Router \<times> Store \<times> fs" where
  "routeAll cr drv [] r w = ([], r, w)"
| "routeAll cr drv (p # ps) r w =
     (case Route cr drv (ro_now p) (ro_env p) r w (ro_sender p) (ro_payload p) of (acts, r1, w1) \<Rightarrow>
      case routeAll cr drv ps r1 w1 of (acts', r2, w2) \<Rightarrow> (acts @ acts', r2, w2))"

section \<open>Other names for the senders\<close>

definition rename_keys :: "('k \<Rightarrow> 'k) \<Rightarrow> ('k, 'v) gomap \<Rightarrow> ('k, 'v) gomap" where
  "rename_keys f m = map (apfst f) m"

definition rename_router :: "(string \<Rightarrow> string) \<Rightarrow> Router \<Rightarrow> Router" where
  "rename_router f r = r\<lparr>rt_rateAttempts := rename_keys f (rt_rateAttempts r)\<rparr>"

definition rename_sender :: "(string \<Rightarrow> string) \<Rightarrow> routed \<Rightarrow> routed" where
  "rename_sender f p = p\<lparr>ro_sender := f (ro_sender p)\<rparr>"

lemma map_of_rename: "inj f \<Longrightarrow> map_of (rename_keys f m) (f k) = map_of m k"
  by (induction m) (auto simp: rename_keys_def inj_eq)

lemma gm_put_rename: "inj f \<Longrightarrow> gm_put (f k) v (rename_keys f m) = rename_keys f (gm_put k v m)"
  by (induction m) (auto simp: rename_keys_def gm_put_def inj_eq)

lemma Router_allow_rename:
  assumes "inj f"
  shows "Router_allow (rename_router f r) (f u) now = apsnd (rename_router f) (Router_allow r u now)"
  using assms
  by (simp add: Router_allow_def rename_router_def window_of_def map_of_rename gm_put_rename Let_def)

lemma deliver_relay:
  assumes "rt_relayID r = rt_relayID r'"
  shows "deliver cr drv env r w rid m = deliver cr drv env r' w rid m"
proof -
  have fwd: "forwardFederated r = forwardFederated r'" by (intro ext) (simp add: forwardFederated_def assms)
  show ?thesis unfolding deliver_def assms fwd by (rule refl)
qed

lemma Route_rename:
  assumes "inj f"
  shows "Route cr drv now env (rename_router f r) w (f u) p
    = (case Route cr drv now env r w u p of (acts, r', w') \<Rightarrow> (acts, rename_router f r', w'))"
proof -
  have "deliver cr drv env (rename_router f r') w rid m = deliver cr drv env r' w rid m" for r' rid m
    by (rule deliver_relay) (simp add: rename_router_def)
  moreover have "rt_maxMessageSize (rename_router f r) = rt_maxMessageSize r" by (simp add: rename_router_def)
  ultimately show ?thesis
    by (simp add: Route_def Router_allow_rename [OF assms] split: prod.split bool.split option.split)
qed

lemma routeAll_rename:
  assumes "inj f"
  shows "routeAll cr drv (map (rename_sender f) ps) (rename_router f r) w
    = (case routeAll cr drv ps r w of (acts, r', w') \<Rightarrow> (acts, rename_router f r', w'))"
proof (induction ps arbitrary: r w)
  case (Cons p ps)
  show ?case
    by (simp add: rename_sender_def Route_rename [OF assms] Cons [unfolded rename_sender_def] split: prod.split)
qed simp

section \<open>Properties\<close>

text \<open>
  C16: Senders are anonymous to everything but the rate limiter.  Whatever payloads a fresh
  router is given, replacing the names of the senders by pseudonyms changes nothing that
  leaves the relay or that it keeps: the same frames go to the same connections, the same
  requests to the same relays, and store and disk end up equal.
\<close>

theorem senders_anonymous:
  assumes "inj f"
    and "routeAll cr drv ps (NewRouter maxSize rate relayID) w = (acts, r, w')"
  shows "\<exists>r'. routeAll cr drv (map (rename_sender f) ps) (NewRouter maxSize rate relayID) w = (acts, r', w')"
proof -
  have "rename_router f (NewRouter maxSize rate relayID) = NewRouter maxSize rate relayID"
    by (simp add: rename_router_def NewRouter_def rename_keys_def)
  with routeAll_rename [OF assms(1), of cr drv ps "NewRouter maxSize rate relayID" w] assms(2) show ?thesis by simp
qed

text \<open>
  A single payload: two senders on whom the limiter decides alike cause the same writes,
  the same requests to other relays, the same store and the same disk.
\<close>

theorem sender_not_observable:
  assumes "fst (Router_allow r u now) = fst (Router_allow r v now)"
    and "Route cr drv now env r w u p = (acts, r1, w1)" "Route cr drv now env r w v p = (acts', r2, w2)"
  shows "acts = acts' \<and> w1 = w2"
proof -
  have "deliver cr drv env (snd (Router_allow r u now)) w rid m = deliver cr drv env (snd (Router_allow r v now)) w rid m" for rid m
    by (rule deliver_relay) (simp add: frame_simps)
  with assms show ?thesis
    by (cases "Router_allow r u now"; cases "Router_allow r v now")
      (auto simp: Route_def split: if_splits bool.splits option.splits prod.splits)
qed

section \<open>Witnesses\<close>

definition demo_routed :: "routed list" where
  "demo_routed = [\<lparr>ro_now = 0, ro_env = demo_deliver, ro_sender = ''alice'', ro_payload = marshalSealed demo_sealed\<rparr>]"

theorem senders_anonymous_witness:
  "\<exists>r'. routeAll plainCrypto demo_drv (map (rename_sender (\<lambda>u. CHR ''x'' # u)) demo_routed) (NewRouter 65536 60 ''relay:8080'')
      (demo_online, Map.empty) = ([Sent 7 (marshalSealed demo_sealed)], r', demo_online, Map.empty)"
proof -
  have "inj (\<lambda>u. CHR ''x'' # u)" by (simp add: inj_def)
  moreover obtain r where "routeAll plainCrypto demo_drv demo_routed (NewRouter 65536 60 ''relay:8080'') (demo_online, Map.empty)
      = ([Sent 7 (marshalSealed demo_sealed)], r, demo_online, Map.empty)"
    using demo_route_online by (simp add: demo_routed_def demo_router_def)
  ultimately show ?thesis by (rule senders_anonymous)
qed

end
