(* ===== verification/Public_Abuse.thy ===== *)
theory Public_Abuse
  imports Server_Props
begin

text \<open>
  What a stranger without an account can do to the relay over the two public endpoints of
  \<^verbatim>\<open>server/server.go\<close> that change state.

  Shown: one request, posted 500 times to \<^verbatim>\<open>/federation/deliver\<close>, fills the mailbox of a
  user, after which further messages are dropped; and requests to \<^verbatim>\<open>/prekeys/\<close> make the
  map of the limiter grow by an entry for each name asked for, which is never removed.
  A client, and anyone can be one, makes the relay send requests to any address.
\<close>

section \<open>Posting to the federation endpoint\<close>

fun postAll :: "crypto \<Rightarrow> sqliteDriver \<Rightarrow> (deliverEnv \<times> request) list \<Rightarrow> Server \<times> fs \<Rightarrow> Server \<times> fs" where
  "postAll cr drv [] w = w"
| "postAll cr drv ((env, r) # rs) w = postAll cr drv rs (snd (snd (handleFederationDeliver cr drv env w r)))"

text \<open>The message a post leads to.\<close>

definition posted :: "SealedEnvelope \<Rightarrow> request \<Rightarrow> queuedMessage" where
  "posted x r = \<lparr>qm_Sealed = Some (x\<lparr>se_FederationSenderRelay := rq_relayID r\<rparr>), qm_Open = None, qm_ExpiresAt = 0\<rparr>"

definition good_post :: "string \<Rightarrow> string \<Rightarrow> SealedEnvelope \<Rightarrow> request \<Rightarrow> bool" where
  "good_post relay u x r \<longleftrightarrow> sealed_wf x \<and> se_RecipientID x \<noteq> [] \<and> se_Ciphertext x \<noteq> []
     \<and> rq_method r = ''POST'' \<and> rq_relayID r \<noteq> [] \<and> valid_utf8 (rq_relayID r) \<and> rq_body r = marshalSealed x
     \<and> local_user relay (se_RecipientID x) = Some u"

lemma post_enqueues:
  assumes "good_post (RelayID (sv_cfg sv)) u x r" "LookupClient (sv_store sv) u = None"
  shows "snd (snd (handleFederationDeliver cr drv env (sv, d) r))
    = (case Enqueue cr drv (dv_enq env) (sv_store sv, d) u (posted x r) of (st, d') \<Rightarrow> (sv\<lparr>sv_store := st\<rparr>, d'))"
proof -
  obtain st d' where e: "Enqueue cr drv (dv_enq env) (sv_store sv, d) u (posted x r) = (st, d')" by fastforce
  then have "deliverLocal cr drv env (sv_store sv, d) u (posted x r) = ([], st, d')"
    using assms(2) by (simp add: deliverLocal_def)
  with federation_delivers_locally [of x r sv u cr drv env d "[]" st d'] assms(1) e show ?thesis
    by (simp add: good_post_def posted_def)
qed

lemma postAll_enqueues:
  assumes "good_post (RelayID (sv_cfg sv)) u x r" "LookupClient (sv_store sv) u = None"
  shows "postAll cr drv (map (\<lambda>env. (env, r)) envs) (sv, d)
    = (case enqueueAll cr drv u (map (\<lambda>env. (dv_enq env, posted x r)) envs) (sv_store sv, d) of (st, d') \<Rightarrow>
         (sv\<lparr>sv_store := st\<rparr>, d'))"
  using assms
proof (induction envs arbitrary: sv d)
  case (Cons env envs)
  obtain st d' where e: "Enqueue cr drv (dv_enq env) (sv_store sv, d) u (posted x r) = (st, d')" by fastforce
  have "LookupClient st u = None"
    using Enqueue_key(5) [of cr drv "dv_enq env" "(sv_store sv, d)" u "posted x r"] e Cons.prems(2)
    by (simp add: LookupClient_def)
  with Cons.IH [of "sv\<lparr>sv_store := st\<rparr>" d'] Cons.prems post_enqueues [OF Cons.prems] e show ?case by simp
qed simp

text \<open>What a drain would return is no longer than the live rows.\<close>

lemma drainRows_length: "length (drainRows cr key now (\<lambda>_. False) i rows) \<le> length (filter (\<lambda>(p, x). now \<le> x) rows)"
proof (induction rows arbitrary: i)
  case (Cons r rows)
  from Cons [of "Suc i"] show ?case
    by (cases r) (auto split: sum.split prod.split bool.split intro: le_SucI)
qed simp

lemma length_filter_weaken: "(\<And>x. P x \<Longrightarrow> Q x) \<Longrightarrow> length (filter P xs) \<le> length (filter Q xs)"
  by (induction xs) (auto intro: le_SucI)

lemma empty_pending: "mailbox (st_db s) u = [] \<Longrightarrow> pending cr t s u = []"
  by (simp add: pending_def)

section \<open>The limiter never forgets a name\<close>

definition names_of :: "(request \<times> time \<times> persistEnv) list \<Rightarrow> string set" where
  "names_of rs = fst ` set (concat (map limiter_call rs))"

lemma allow_keys:
  "fst ` set (attempts (snd (rateLimiter_allow l k now))) = insert k (fst ` set (attempts l))"
  by (auto simp: rateLimiter_allow_def Let_def gm_put_def dom_update)

lemma run_keys:
  "fst ` set (attempts (snd (limiter_run rateLimiter_allow l cs))) = fst ` set cs \<union> fst ` set (attempts l)"
proof (induction cs arbitrary: l)
  case (Cons c cs)
  obtain k t where "c = (k, t)" by (cases c)
  with Cons [of "snd (rateLimiter_allow l k t)"] show ?case
    by (auto simp: split_beta Let_def allow_keys)
qed simp

section \<open>Properties\<close>

text \<open>
  C40: A stranger can silence a mailbox.  The federation endpoint asks for no authentication,
  consults no limiter and does not look for duplicates: one and the same request, posted
  500 times, leaves 500 copies of its envelope in the mailbox of an offline user, and from
  then on a message of anybody else for this user is dropped without a trace in store, disk
  or answer.
\<close>

theorem stranger_silences_mailbox:
  assumes "gcm_correct cr" "store_wf (sv_store sv)" "\<not> st_stopped (sv_store sv)" "LookupClient (sv_store sv) u = None"
    and "mailbox (st_db (sv_store sv)) u = []" "db_seq (st_db (sv_store sv)) + 500 < 2 ^ 63"
    and "good_post (RelayID (sv_cfg sv)) u x r"
    and "enq_clean (dv_enq env)" "int64_ok (expiry (dv_enq env) (sv_store sv))"
    and "ee_epoch (dv_enq env) \<le> t" "t \<le> expiry (dv_enq env) (sv_store sv)"
    and "postAll cr drv (replicate 500 (env, r)) (sv, d) = (sv', d')"
    and "enq_clean env'" "ee_epoch env' \<le> t"
  shows "pending cr t (sv_store sv') u
      = replicate 500 ((posted x r)\<lparr>qm_ExpiresAt := expiry (dv_enq env) (sv_store sv)\<rparr>)
    \<and> (\<exists>s''. Enqueue cr drv env' (sv_store sv', d') u m = (s'', d') \<and> pending cr t s'' u = pending cr t (sv_store sv') u)"
proof -
  let ?es = "replicate 500 (dv_enq env, posted x r)"
  obtain st where st: "enqueueAll cr drv u ?es (sv_store sv, d) = (st, d')" "sv' = sv\<lparr>sv_store := st\<rparr>"
    using postAll_enqueues [OF assms(7,4), of cr drv "replicate 500 env" d] assms(12)
    by (auto split: prod.splits)
  have "message_wf (posted x r)" using assms(7) by (simp add: posted_def message_wf_def sealed_wf_def good_post_def)
  then have "pending cr t st u = replicate 500 ((posted x r)\<lparr>qm_ExpiresAt := expiry (dv_enq env) (sv_store sv)\<rparr>)"
    and wf: "store_wf st" "\<not> st_stopped st"
    using enqueueAll_pending [OF assms(1-3), of ?es t u drv d] assms(5,6,8-11) st(1) empty_pending [OF assms(5)]
    by (simp_all add: enq_ok_def maxQueuePerRecipient_def stamped_def)
  moreover from this have "500 \<le> length (filter (\<lambda>(p, x). t \<le> x) (mailbox (st_db st) u))"
    using drainRows_length [of cr "st_key st" t 0 "mailbox (st_db st) u"] by (simp add: pending_def)
  then have full: "500 \<le> length (filter (\<lambda>(p, x). ee_epoch env' \<le> x) (mailbox (st_db st) u))"
    using length_filter_weaken [of "\<lambda>(p, x). t \<le> x" "\<lambda>(p, x). ee_epoch env' \<le> x" "mailbox (st_db st) u"] assms(14) by auto
  have "Enqueue cr drv env' (st, d') u m = (st\<lparr>st_db := sqlDeleteExpiredFor u (ee_epoch env') (st_db st)\<rparr>, d')"
    using full by (intro Enqueue_overflow [OF wf assms(13)]) (simp add: maxQueuePerRecipient_def)
  moreover have "table_wf (st_db st)" using wf(1) by (simp add: store_wf_def)
  ultimately show ?thesis
    using assms(14) by (simp add: st(2) pending_def qt.box_expire_for drainRows_expired)
qed

text \<open>
  C26: Federation is one hop.  A request of another relay never makes this relay send a
  request: there are no forwarding loops and no amplification, whatever recipient the
  envelope names and whatever fails.
\<close>

theorem federation_one_hop:
  "Forward q \<notin> set (fst (snd (handleFederationDeliver cr drv env (sv, d) r)))"
proof -
  have "CHR ''@'' \<notin> set (splitN2 CHR ''@'' rid ! 0)" for rid
    by (cases rule: splitN2_cases [of "CHR ''@''" rid]) auto
  then have "deliver cr drv env (sv_router sv) w (splitN2 CHR ''@'' rid ! 0) m = deliverLocal cr drv env w (splitN2 CHR ''@'' rid ! 0) m"
    for rid w m by (simp add: deliver_def splitN2_none)
  moreover have "Forward q \<notin> set (fst (deliverLocal cr drv env w u m))" for w u m
    by (auto simp: deliverLocal_def split: option.splits sum.splits)
  ultimately show ?thesis
    by (auto simp: handleFederationDeliver_def Let_def split_beta)
qed

text \<open>
  The memory of the prekey limiter is not bounded by anything a stranger cannot choose:
  however many names are asked for, registered or not and at whatever times, each has an
  entry afterwards, and no later request removes one.
\<close>

theorem limiter_memory_grows:
  assumes "gets_run cr rs (sv, d) = (sv', d')"
  shows "names_of rs \<subseteq> fst ` set (attempts (sv_prekeyLimiter sv'))
    \<and> card (names_of rs) \<le> length (attempts (sv_prekeyLimiter sv'))
    \<and> fst ` set (attempts (sv_prekeyLimiter sv)) \<subseteq> fst ` set (attempts (sv_prekeyLimiter sv'))"
proof -
  have "fst ` set (attempts (sv_prekeyLimiter sv')) = names_of rs \<union> fst ` set (attempts (sv_prekeyLimiter sv))"
    using gets_run_limiter [of cr rs sv d] assms
    by (simp add: run_keys names_of_def del: set_concat)
  moreover have "card (fst ` set (attempts (sv_prekeyLimiter sv'))) \<le> length (attempts (sv_prekeyLimiter sv'))"
    by (metis card_length length_map set_map)
  moreover have "card (names_of rs) \<le> card (fst ` set (attempts (sv_prekeyLimiter sv')))"
    by (rule card_mono) (use calculation(1) in \<open>auto simp: names_of_def\<close>)
  ultimately show ?thesis by auto
qed

text \<open>
  Forwarding sends requests wherever a client wishes.  What follows the @ of a recipient
  is put into the URL of the request as it is: with host, port, path and query of the
  client's choice, over plain HTTP, and with the client's envelope as the body.
\<close>

theorem relay_posts_anywhere:
  assumes "sealed_wf x" "se_RecipientID x = v @ CHR ''@'' # target" "CHR ''@'' \<notin> set v" "se_Ciphertext x \<noteq> []"
    and "\<not> isLocalRelay target (rt_relayID r)" "int (length (marshalSealed x)) \<le> rt_maxMessageSize r"
    and "fst (Router_allow r u now)" "dv_request env"
  shows "\<exists>q. fst (Route cr drv now env r w u (marshalSealed x)) = [Forward q]
    \<and> hr_url q = ''http://'' @ target @ ''/federation/deliver'' \<and> hr_body q = marshalSealed x"
proof -
  obtain r' where r': "Router_allow r u now = (True, r')" using assms(7) by (cases "Router_allow r u now") auto
  then have "rt_relayID r' = rt_relayID r" using Router_allow_frame(1) [of r u now] by simp
  moreover have "splitN2 CHR ''@'' (se_RecipientID x) = [v, target]" using assms(2,3) by (simp add: splitN2_some)
  moreover have "se_RecipientID x \<noteq> []" using assms(2) by simp
  ultimately show ?thesis
    using assms r' by (simp add: Route_def classify_sealed deliver_def forwardFederated_def)
qed

section \<open>Witnesses\<close>

theorem relay_posts_anywhere_witness:
  "\<exists>q. fst (Route plainCrypto demo_drv 0 demo_deliver demo_router (demo_store, Map.empty) ''eve''
       (marshalSealed (demo_sealed\<lparr>se_RecipientID := ''x@10.0.0.1:8500/admin?x=''\<rparr>))) = [Forward q]
     \<and> hr_url q = ''http://10.0.0.1:8500/admin?x=/federation/deliver''"
proof -
  let ?x = "demo_sealed\<lparr>se_RecipientID := ''x@10.0.0.1:8500/admin?x=''\<rparr>"
  have "valid_utf8 ''x@10.0.0.1:8500/admin?x=''" by (rule valid_utf8_key) (simp add: code_def)
  then have x: "sealed_wf ?x" "se_Ciphertext ?x \<noteq> []" using demo_sealed_wf by (simp_all add: sealed_wf_def)
  have "\<not> isLocalRelay ''10.0.0.1:8500/admin?x='' ''relay:8080''" by code_simp
  moreover have "int (length (marshalSealed ?x)) \<le> 65536" by code_simp
  moreover have "dv_request demo_deliver" by (simp add: demo_deliver_def)
  ultimately show ?thesis
    using relay_posts_anywhere [OF x(1) _ _ x(2), of "''x''" "''10.0.0.1:8500/admin?x=''" demo_router "''eve''" 0 demo_deliver] demo_allows
    by force
qed

theorem stranger_silences_mailbox_witness:
  "\<exists>sv' d'. postAll plainCrypto demo_drv (replicate 500 (demo_deliver, fed_post)) (demo_server, Map.empty) = (sv', d')
    \<and> length (pending plainCrypto 0 (sv_store sv') ''bob'') = 500
    \<and> pending plainCrypto 0 (fst (Enqueue plainCrypto demo_drv demo_enq (sv_store sv', d') ''bob'' demo_msg)) ''bob''
        = pending plainCrypto 0 (sv_store sv') ''bob''"
proof -
  obtain sv' d' where p: "postAll plainCrypto demo_drv (replicate 500 (demo_deliver, fed_post)) (demo_server, Map.empty) = (sv', d')"
    by fastforce
  have st: "sv_store demo_server = demo_store" "dv_enq demo_deliver = demo_enq" "LookupClient demo_store ''bob'' = None"
    by (simp_all add: demo_server_def demo_deliver_def LookupClient_def demo_store_def)
  have "valid_utf8 ''other''" by (rule valid_utf8_key, simp add: code_def)
  moreover have "local_user (RelayID (sv_cfg demo_server)) (se_RecipientID demo_sealed) = Some ''bob''"
    using demo_local by (simp add: demo_server_def demo_cfg_def demo_sealed_def)
  ultimately have good: "good_post (RelayID (sv_cfg demo_server)) ''bob'' demo_sealed fed_post"
    using demo_sealed_wf by (simp add: good_post_def fed_post_def)
  have "ee_epoch demo_enq = 0" by (simp add: demo_enq_def)
  with stranger_silences_mailbox [OF plainCrypto_gcm _ _ _ _ _ good _ _ _ _ p demo_wf(3), of 0 demo_msg]
    demo_wf(1,2,3) demo_box demo_enq_ok st demo_expiry
  obtain s'' where "pending plainCrypto 0 (sv_store sv') ''bob''
      = replicate 500 ((posted demo_sealed fed_post)\<lparr>qm_ExpiresAt := 604800\<rparr>)"
    "Enqueue plainCrypto demo_drv demo_enq (sv_store sv', d') ''bob'' demo_msg = (s'', d')"
    "pending plainCrypto 0 s'' ''bob'' = pending plainCrypto 0 (sv_store sv') ''bob''"
    by (auto simp: enq_ok_def)
  with p show ?thesis by (metis fst_conv length_replicate)
qed

theorem limiter_memory_grows_witness:
  "2 \<le> length (attempts (sv_prekeyLimiter (fst (gets_run plainCrypto
     [(get_bob, 5, demo_save_env), (get_bob\<lparr>rq_path := ''/prekeys/nobody''\<rparr>, 500000000000, demo_save_env)] (demo_server, Map.empty)))))"
proof -
  let ?rs = "[(get_bob, 5, demo_save_env), (get_bob\<lparr>rq_path := ''/prekeys/nobody''\<rparr>, 500000000000, demo_save_env)]"
  obtain sv' d' where g: "gets_run plainCrypto ?rs (demo_server, Map.empty) = (sv', d')" by fastforce
  have "names_of ?rs = {''bob'', ''nobody''}"
    by (auto simp: names_of_def limiter_call_def get_bob_def trimPrefix_def containsAny_def)
  with limiter_memory_grows [OF g] g show ?thesis by simp
qed

end
