(* ===== verification/Repo_Tests.thy ===== *)
theory Repo_Tests
  imports Mailbox_Spec Server_Props
begin

text \<open>
  The scenarios of the repository's own tests (\<^verbatim>\<open>server/*_test.go\<close>) in the model: what
  the tests check on a running relay follows here from the definitions.  The scenarios of
  the store hold for any store that was opened, any times and any messages, and rest on
  the abstract machine of theory \<open>Mailbox_Spec\<close>.  Issue and rotation of certificates
  (\<^verbatim>\<open>sealed_ca_test.go\<close>) are theorems of theory \<open>Sealed_CA\<close>.
\<close>

section \<open>\<^verbatim>\<open>store_test.go\<close>\<close>

context opened_store
begin

text \<open>\<^verbatim>\<open>TestStore_BasicEnqueueDrain\<close>\<close>

lemma basic_enqueue_drain:
  assumes "call_ok busy path ttl t (CEnqueue eenv u m)" "call_ok busy path ttl t (CDrain denv u)"
  shows "fst (store_calls cr drv path ttl [CEnqueue eenv u m, CCount None t, CDrain denv u, CCount None t] (s, d))
    = [Done, Number 1, Messages [m\<lparr>qm_ExpiresAt := t + ttl\<rparr>], Number 0]"
proof -
  have "calls_ok busy path ttl t [(t, CEnqueue eenv u m), (t, CCount None t), (t, CDrain denv u), (t, CCount None t)]"
    using assms by (simp del: call_ok.simps(1,2))
  from replies [OF this] ttl(1) show ?thesis by (simp add: no_mail_def live_at_def all_live_def)
qed

text \<open>\<^verbatim>\<open>TestStore_CapPerRecipient\<close>, for any number of messages\<close>

lemma spec_sends:
  assumes "0 < ttl'"
  shows "spec_calls ttl' (replicate n (t, Send u m) @ rs) M
    = (let k = min n (500 - length (live_at t (mb_box M u)));
           M' = M\<lparr>mb_box := (mb_box M)(u := mb_box M u @ replicate k (m\<lparr>qm_ExpiresAt := t + ttl'\<rparr>))\<rparr> in
       (replicate n Done @ fst (spec_calls ttl' rs M'), snd (spec_calls ttl' rs M')))"
proof (induction n arbitrary: M)
  case (Suc n)
  show ?case
  proof (cases "length (live_at t (mb_box M u)) < 500")
    case True
    let ?m = "m\<lparr>qm_ExpiresAt := t + ttl'\<rparr>" and ?l = "length (live_at t (mb_box M u))"
    let ?M1 = "M\<lparr>mb_box := (mb_box M)(u := mb_box M u @ [?m])\<rparr>"
    have len: "length (live_at t (mb_box ?M1 u)) = Suc ?l" using assms by (simp add: live_at_def)
    have upd: "?M1\<lparr>mb_box := (mb_box ?M1)(u := mb_box ?M1 u @ replicate k ?m)\<rparr>
        = M\<lparr>mb_box := (mb_box M)(u := mb_box M u @ replicate (Suc k) ?m)\<rparr>" for k by simp
    have "min (Suc n) (500 - ?l) = Suc (min n (499 - ?l))" using True by simp
    with Suc [of ?M1, unfolded Let_def upd len] True show ?thesis
      by (simp add: Let_def split_beta del: fun_upd_apply)
  next
    case False
    with Suc [of M] show ?thesis by (simp add: Let_def)
  qed
qed (simp add: Let_def)

lemma cap_per_recipient:
  assumes "call_ok busy path ttl t (CEnqueue eenv u m)" "call_ok busy path ttl t (CDrain denv u)" "int n + 1 < 2 ^ 63"
  shows "fst (store_calls cr drv path ttl (replicate n (CEnqueue eenv u m) @ [CDrain denv u]) (s, d))
    = replicate n Done @ [Messages (replicate (min n 500) (m\<lparr>qm_ExpiresAt := t + ttl\<rparr>))]"
proof -
  have "calls_ok busy path ttl t (replicate n (t, CEnqueue eenv u m) @ [(t, CDrain denv u)])"
    using assms(1,2) by (induction n) (simp_all del: call_ok.simps(1,2))
  from replies [OF this] assms(3) ttl(1)
  have "fst (store_calls cr drv path ttl (replicate n (CEnqueue eenv u m) @ [CDrain denv u]) (s, d))
    = fst (spec_calls ttl (replicate n (t, Send u m) @ [(t, Fetch u)]) no_mail)"
    by (simp add: map_replicate_const)
  with spec_sends [OF ttl(1), of n t u m "[(t, Fetch u)]" no_mail] ttl(1) show ?thesis
    by (simp add: no_mail_def live_at_def Let_def)
qed

text \<open>\<^verbatim>\<open>TestStore_ExpirationAndPurge\<close>: when the time is up, a message is neither counted nor returned.\<close>

lemma expiration:
  assumes "call_ok busy path ttl t (CEnqueue eenv u m)" "call_ok busy path ttl t' (CDrain denv u)" "t + ttl < t'"
  shows "fst (store_calls cr drv path ttl [CEnqueue eenv u m, CCount None t, CCount None t', CDrain denv u] (s, d))
    = [Done, Number 1, Number 0, Messages []]"
proof -
  have "calls_ok busy path ttl t [(t, CEnqueue eenv u m), (t, CCount None t), (t', CCount None t'), (t', CDrain denv u)]"
    using assms ttl(1) by (simp del: call_ok.simps(1,2))
  from replies [OF this] assms(3) ttl(1) show ?thesis by (simp add: no_mail_def live_at_def all_live_def)
qed

text \<open>\<^verbatim>\<open>TestStore_KeyPersistenceAndReload\<close>\<close>

lemma reload:
  assumes "call_ok busy path ttl t (CEnqueue eenv u m)" "start_clean senv'" "call_ok busy path ttl t (CDrain denv u)"
  shows "fst (store_calls cr drv path ttl [CEnqueue eenv u m, CRestart senv', CDrain denv u] (s, d))
    = [Done, Done, Messages [m\<lparr>qm_ExpiresAt := t + ttl\<rparr>]]"
proof -
  have "calls_ok busy path ttl t [(t, CEnqueue eenv u m), (t, CRestart senv'), (t, CDrain denv u)]"
    using assms by (simp del: call_ok.simps(1,2))
  from replies [OF this] ttl(1) show ?thesis by (simp add: no_mail_def live_at_def)
qed

end

text \<open>The number of messages of the test of the cap.\<close>

lemma test_cap_per_recipient:
  "fst (store_calls plainCrypto countDriver ''q'' 604800 (replicate 505 (CEnqueue demo_enq ''bob'' demo_msg) @ [CDrain demo_drain ''bob''])
     (demo_store, count_disk))
   = replicate 505 Done @ [Messages (replicate 500 (demo_msg\<lparr>qm_ExpiresAt := 604800\<rparr>))]"
proof -
  have "call_ok {''q'', ''q.key''} ''q'' 604800 0 (CEnqueue demo_enq ''bob'' demo_msg)"
    "call_ok {''q'', ''q.key''} ''q'' 604800 0 (CDrain demo_drain ''bob'')"
    using demo_calls_ok demo_wf(4,5) by (simp_all add: demo_calls_def)
  from os.cap_per_recipient [OF this, of 505] show ?thesis by simp
qed

text \<open>The purge removes the expired rows from the table.\<close>

lemma test_purge_deletes_rows:
  assumes "\<not> st_stopped s" "pu_delete env = None" "\<forall>r \<in> set (db_rows (st_db s)). row_expires r < pu_epoch env"
  shows "db_rows (st_db (fst (purgeExpired cr drv env (s, d)))) = []"
  using assms by (simp add: purgeExpired_def sqlDeleteExpired_def Let_def)

section \<open>\<^verbatim>\<open>federation_test.go\<close>\<close>

definition test_env :: "string \<Rightarrow> string \<Rightarrow> SealedEnvelope" where
  "test_env rid c = \<lparr>se_RecipientID = rid, se_Ciphertext = c, se_TimestampMS = 0, se_ID = ''msg-id-1'', se_FederationSenderRelay = []\<rparr>"

lemma test_env_wf:
  assumes "valid_utf8 rid"
  shows "sealed_wf (test_env rid c)"
proof -
  have "valid_utf8 ''msg-id-1''" by (rule valid_utf8_key) (simp add: code_def)
  with assms show ?thesis by (simp add: sealed_wf_def test_env_def int64_ok_def)
qed

text \<open>\<^verbatim>\<open>TestFederation_OutboundRouting\<close>: a sealed envelope is posted to the other relay, an open one is not.\<close>

lemma test_outbound_routing:
  defines "r \<equiv> NewRouter 65536 60 ''relay-a''" and "rid \<equiv> ''bob@127.0.0.1:49382''"
  assumes "dv_request env"
  shows "\<exists>q. deliver cr drv env r w rid \<lparr>qm_Sealed = Some (test_env rid ''secret remote payload''), qm_Open = None, qm_ExpiresAt = 0\<rparr>
      = ([Forward q], w)
    \<and> hr_method q = ''POST'' \<and> hr_url q = ''http://127.0.0.1:49382/federation/deliver''
    \<and> map_of (hr_headers q) ''Content-Type'' = Some ''application/json'' \<and> map_of (hr_headers q) ''X-Spectre-Relay-ID'' = Some ''relay-a''
    \<and> decodeFirst decSealed zeroSealed (hr_body q) = (False, test_env rid ''secret remote payload'')"
    and "deliver cr drv env r w rid \<lparr>qm_Sealed = None, qm_Open = Some x, qm_ExpiresAt = 0\<rparr> = ([], w)"
proof -
  have sp: "splitN2 CHR ''@'' rid = [''bob'', ''127.0.0.1:49382'']" "\<not> isLocalRelay ''127.0.0.1:49382'' ''relay-a''"
    unfolding rid_def by code_simp+
  have "sealed_wf (test_env rid ''secret remote payload'')" unfolding rid_def by (rule test_env_wf, rule valid_utf8_key) (simp add: code_def)
  with sp assms(3) show "\<exists>q. deliver cr drv env r w rid
        \<lparr>qm_Sealed = Some (test_env rid ''secret remote payload''), qm_Open = None, qm_ExpiresAt = 0\<rparr> = ([Forward q], w)
    \<and> hr_method q = ''POST'' \<and> hr_url q = ''http://127.0.0.1:49382/federation/deliver''
    \<and> map_of (hr_headers q) ''Content-Type'' = Some ''application/json'' \<and> map_of (hr_headers q) ''X-Spectre-Relay-ID'' = Some ''relay-a''
    \<and> decodeFirst decSealed zeroSealed (hr_body q) = (False, test_env rid ''secret remote payload'')"
    by (simp add: deliver_def forwardFederated_def r_def NewRouter_def decode_marshalSealed)
  from sp show "deliver cr drv env r w rid \<lparr>qm_Sealed = None, qm_Open = Some x, qm_ExpiresAt = 0\<rparr> = ([], w)"
    by (simp add: deliver_def r_def NewRouter_def)
qed

text \<open>\<^verbatim>\<open>TestFederation_LocalNormalization\<close> and \<^verbatim>\<open>TestFederation_LocalNormalization_WithPorts\<close>\<close>

lemma test_local_normalization:
  "deliver cr drv env (NewRouter 65536 60 ''relay-a'') w ''alice@relay-a'' m = deliverLocal cr drv env w ''alice'' m"
  "deliver cr drv env (NewRouter 65536 60 ''relay-a:8080'') w ''alice@relay-a:8080'' m = deliverLocal cr drv env w ''alice'' m"
  "deliver cr drv env (NewRouter 65536 60 ''relay-a:8080'') w ''bob@relay-a'' m = deliverLocal cr drv env w ''bob'' m"
proof -
  have "local_user ''relay-a'' ''alice@relay-a'' = Some ''alice''" "local_user ''relay-a:8080'' ''alice@relay-a:8080'' = Some ''alice''"
    "local_user ''relay-a:8080'' ''bob@relay-a'' = Some ''bob''" by code_simp+
  then show "deliver cr drv env (NewRouter 65536 60 ''relay-a'') w ''alice@relay-a'' m = deliverLocal cr drv env w ''alice'' m"
    "deliver cr drv env (NewRouter 65536 60 ''relay-a:8080'') w ''alice@relay-a:8080'' m = deliverLocal cr drv env w ''alice'' m"
    "deliver cr drv env (NewRouter 65536 60 ''relay-a:8080'') w ''bob@relay-a'' m = deliverLocal cr drv env w ''bob'' m"
    by (simp_all add: deliver_local NewRouter_def)
qed

text \<open>
  \<^verbatim>\<open>TestFederation_ReceiveEndpoint\<close>: a post for a local user is delivered under the local
  name with the relay of the sender recorded; without the header or for another relay it
  is dropped; the answer is 204 in all cases.
\<close>

definition test_post :: "string \<Rightarrow> string \<Rightarrow> request" where
  "test_post rid relay = \<lparr>rq_method = ''POST'', rq_path = ''/federation/deliver'', rq_relayID = relay,
     rq_body = marshalSealed (test_env rid ''hello'')\<rparr>"

lemma test_receive_endpoint:
  assumes "RelayID (sv_cfg sv) = ''relay-a''"
  shows "LookupClient (sv_store sv) ''alice'' = None \<Longrightarrow>
      handleFederationDeliver cr drv env (sv, d) (test_post ''alice@relay-a'' ''relay-b'')
        = (case Enqueue cr drv (dv_enq env) (sv_store sv, d) ''alice''
             \<lparr>qm_Sealed = Some ((test_env ''alice@relay-a'' ''hello'')\<lparr>se_FederationSenderRelay := ''relay-b''\<rparr>), qm_Open = None, qm_ExpiresAt = 0\<rparr>
           of (st, d') \<Rightarrow> (reply 204, [], sv\<lparr>sv_store := st\<rparr>, d'))"
    and "handleFederationDeliver cr drv env (sv, d) (test_post ''charlie@relay-a'' []) = (reply 204, [], sv, d)"
    and "handleFederationDeliver cr drv env (sv, d) (test_post ''bob@relay-b'' ''relay-b'') = (reply 204, [], sv, d)"
proof -
  have wf: "sealed_wf (test_env ''alice@relay-a'' ''hello'')" "sealed_wf (test_env ''bob@relay-b'' ''hello'')"
    by (rule test_env_wf, rule valid_utf8_key, simp add: code_def)+
  have loc: "local_user ''relay-a'' ''alice@relay-a'' = Some ''alice''" "splitN2 CHR ''@'' ''bob@relay-b'' = [''bob'', ''relay-b'']"
    "\<not> isLocalRelay ''relay-b'' ''relay-a''" by code_simp+
  let ?m = "\<lparr>qm_Sealed = Some ((test_env ''alice@relay-a'' ''hello'')\<lparr>se_FederationSenderRelay := ''relay-b''\<rparr>), qm_Open = None, qm_ExpiresAt = 0\<rparr>"
  show "handleFederationDeliver cr drv env (sv, d) (test_post ''alice@relay-a'' ''relay-b'')
      = (case Enqueue cr drv (dv_enq env) (sv_store sv, d) ''alice'' ?m of (st, d') \<Rightarrow> (reply 204, [], sv\<lparr>sv_store := st\<rparr>, d'))"
    if "LookupClient (sv_store sv) ''alice'' = None"
  proof -
    obtain st d' where e: "Enqueue cr drv (dv_enq env) (sv_store sv, d) ''alice'' ?m = (st, d')" by fastforce
    with that have "deliverLocal cr drv env (sv_store sv, d) ''alice'' ?m = ([], st, d')" by (simp add: deliverLocal_def)
    with federation_delivers_locally [OF wf(1), of "test_post ''alice@relay-a'' ''relay-b''" sv "''alice''" cr drv env d "[]" st d'] loc(1) assms e
    show ?thesis by (simp add: test_post_def test_env_def)
  qed
  show "handleFederationDeliver cr drv env (sv, d) (test_post ''charlie@relay-a'' []) = (reply 204, [], sv, d)"
    by (simp add: handleFederationDeliver_def test_post_def)
  show "handleFederationDeliver cr drv env (sv, d) (test_post ''bob@relay-b'' ''relay-b'') = (reply 204, [], sv, d)"
    using wf(2) loc(2,3) assms
    by (simp add: handleFederationDeliver_def test_post_def decode_marshalSealed) (simp add: test_env_def)
qed

section \<open>\<^verbatim>\<open>sealed_cert_test.go\<close>\<close>

text \<open>\<^verbatim>\<open>TestBuildSenderCertBinding\<close>: a certificate needs a registered bundle, and takes its key from it.\<close>

lemma test_build_sender_cert:
  assumes "ps_bundles (sv_prekeys sv) = []" "validatePrekeyBundle b = None" "pb_IdentityKey b \<noteq> []"
    and "registerBundle cr env (sv_prekeys sv, d) ''alice'' b = (e, ps, d')"
  shows "buildSenderCert cr sv ''alice'' now = None"
    and "buildSenderCert cr (sv\<lparr>sv_prekeys := ps\<rparr>) ''alice'' now
      = Some (IssueCert cr (sv_sealedCA sv) ''alice'' (pb_IdentityKey b) (RelayID (sv_cfg sv)) now)"
    and "buildSenderCert cr (sv\<lparr>sv_prekeys := ps\<rparr>) ''mallory'' now = None"
  using assms
  by (auto simp: buildSenderCert_def identityKeyOf_def registerBundle_def Let_def split: prod.splits if_splits)

text \<open>\<^verbatim>\<open>TestCertRateLimiter\<close>\<close>

lemma test_cert_rate_limiter:
  "map (snd \<circ> snd) (fst (limiter_run rateLimiter_allow (newRateLimiter 3)
     (replicate 6 (''u'', 1700000000000000000) @ [(''other'', 1700000000000000000), (''u'', 1700000061000000000)])))
   = [True, True, True, False, False, False, True, True]"
  by code_simp

end
