(* ===== verification/Spec2Isabelle.thy ===== *)
theory Spec2Isabelle
  imports Connection_Limit Logging Loops Prekey_Spec Prekey_Gets Key_Rotation Fair_Delivery Crash_Interleaving Anonymity Public_Abuse Repo_Tests
begin

text \<open>
  A verification of the Spectre relay (\<^verbatim>\<open>src/\<close>), a store-and-forward WebSocket relay for
  end-to-end encrypted messages.

  \<^bold>\<open>The program.\<close>  A client opens a WebSocket, answers a signature challenge
  (\<^verbatim>\<open>server/auth.go\<close>) and is registered in the store (\<^verbatim>\<open>server/store.go\<close>).  Each frame it
  sends goes through \<^verbatim>\<open>Server.handleAuthedFrame\<close> (\<^verbatim>\<open>server/server.go\<close>): a prekey upload
  goes to the prekey store (\<^verbatim>\<open>server/prekey_store.go\<close>), a certificate request to the
  sealed-sender authority (\<^verbatim>\<open>server/sealed_ca.go\<close>), anything else to the router
  (\<^verbatim>\<open>server/router.go\<close>).  The router writes an envelope to the connection of a local
  recipient, or queues it in the encrypted offline queue of the store, or posts it to the
  relay of a recipient of another domain, whose \<^verbatim>\<open>/federation/deliver\<close> handler queues or
  writes it there.  A client that connects gets its mailbox flushed.  The public HTTP
  endpoints serve prekey bundles, consuming one-time prekeys, and the key of the
  authority.  Three sliding-window limiters (\<^verbatim>\<open>server/ratelimit.go\<close> and two written
  inline) bound these activities.

  \<^bold>\<open>The theories\<close>, in the order of their imports:
  \<^item> \<open>Relay_Prelude\<close>: bytes, Go maps, times, the collections \<open>gomap_simps\<close> and
    \<open>frame_simps\<close>.
  \<^item> \<open>Rate_Limit\<close>: \<^verbatim>\<open>ratelimit.go\<close>, with the in-place pruning loop as an index loop on an
    array, shown equal to a filter.  The locale \<open>sliding_window\<close> is the contract of a
    limiter.  The clock is read before the mutex is taken, so the times of the calls need
    not be sorted; if none is decided after one that read the clock more than \<open>\<delta>\<close> later,
    no window of a minute less \<open>\<delta>\<close> has more grants for a key than the limit, and a key quiet
    for a minute is let through again.
    Interpretations \<open>rl\<close> (\<^verbatim>\<open>rateLimiter\<close>), \<open>ro\<close> (\<^verbatim>\<open>Router.allow\<close>, in \<open>Router\<close>) and \<open>al\<close>
    (\<^verbatim>\<open>authLimiter.allow\<close>, in \<open>Auth\<close>).  The locale \<open>limited_service\<close> extends it by a service
    that asks the limiter: the same bound for what the callers get.  Interpretations \<open>as\<close>
    (\<^verbatim>\<open>Authenticate\<close>) and \<open>rs\<close> (\<^verbatim>\<open>Route\<close>).
  \<^item> \<open>Base64\<close>, \<open>Go_Std\<close>, \<open>Json\<close>, \<open>Json_Decode\<close>, \<open>Json_Utf8\<close>: the functions of Go's
    standard library on which decisions of the relay depend.  The main results are round
    trips: decoding what the encoder prints gives the value back, for every JSON value
    with valid UTF-8 strings whose nesting stays below the limit of the scanner; and
    whatever bytes are decoded, the strings that come out are valid UTF-8.
  \<^item> \<open>Envelope\<close>: \<^verbatim>\<open>model/envelope.go\<close>, each wire type with its codec and round trip.
  \<^item> \<open>Disk\<close>: files, AES-GCM, key files, and the write to a temporary file followed by a
    rename that both stores use.  \<open>crash_state\<close> lists the states in which a crash during
    a save may leave the disk.  The locale \<open>snapshot_file\<close> is the contract of a component
    that saves itself with that routine; in it, after any sequence of saves, successful
    or not, the file holds a complete image of one of the states saved.
    Interpretations \<open>sq\<close> (offline queue) and \<open>pk\<close> (prekeys).
  \<^item> \<open>Queue_Table\<close>: the \<^verbatim>\<open>queue\<close> table and one definition per SQL statement.  The locale
    \<open>queue_table\<close> specifies the table as a family of independent FIFO mailboxes;
    interpretation \<open>qt\<close> shows that the statements implement it.
  \<^item> \<open>Store\<close>, \<open>Store_Props\<close>: \<^verbatim>\<open>store.go\<close>, every method.  \<open>store_step\<close> and \<open>store_life\<close> are
    the step relations without and with crashes and restarts.  Shown: order and
    completeness of a drain, isolation of mailboxes, the cap, expiry, atomic saves,
    restoration after a restart, refusal of a damaged file.
  \<^item> \<open>Simulation\<close>: the locale \<open>simulation\<close>, the contract of a refinement call by call: in it,
    the replies to any allowed sequence of calls are replies of the abstract machine.
    Interpretations \<open>ms\<close> (the store) and \<open>ds\<close> (the prekey store).
  \<^item> \<open>Mailbox_Spec\<close>: what the store promises, as an abstract machine with a list of messages
    and a connection per user.  Shown by a simulation: any sequence of calls of the store,
    restarts included, gets the replies of the abstract machine; and where the promise ends
    (a crash during a flush).  The locale \<open>opened_store\<close> is what a client of a freshly
    opened store may rely on; interpretation \<open>os\<close>.
  \<^item> \<open>Sealed_CA\<close>: \<^verbatim>\<open>sealed_ca.go\<close>.  Shown: certificates verify and bind their fields,
    rotation proofs verify under the old key, the key is stable over restarts.
    \<open>Key_Rotation\<close>: any number of rotations; a pinned client can follow them all, if it
    misses none.
  \<^item> \<open>Prekey_Store\<close>, \<open>Prekey_Props\<close>: \<^verbatim>\<open>prekey_store.go\<close>, every method.  Shown: validation
    is exact, one-time prekeys are served at most once and in order, served bundles are
    well-formed also after crashes and restarts (\<open>prekey_life\<close>), bundles survive restarts.
    \<open>Prekey_Life\<close>: one-time prekeys are single-use over restarts, if the saves succeed.
    \<open>Prekey_Spec\<close>: the store refines a directory, crashes in the middle of a save included;
    interpretation \<open>ds\<close> of \<open>simulation\<close>.  \<open>Prekey_Gets\<close>: the public endpoint with its two
    critical sections apart; the one-time prekeys handed out are bounded in every
    interleaving.
  \<^item> \<open>Router\<close>, \<open>Router_Props\<close>: \<^verbatim>\<open>router.go\<close>.  Writes to connections and requests to other
    relays are lists of \<open>action\<close>.  Shown: what each kind of payload leads to, that a
    sender gets no feedback, that a flush loses nothing, which domains are local, how many
    payloads of a sender can have an effect.
    \<open>Anonymity\<close>: runs of the router do not depend on the names of the senders.
  \<^item> \<open>Config\<close>: \<^verbatim>\<open>config/config.go\<close>.  \<open>Auth\<close>: \<^verbatim>\<open>auth.go\<close>, with soundness and completeness of
    the handshake and a bound on the challenges an address gets.
  \<^item> \<open>Server\<close>, \<open>Server_Props\<close>: \<^verbatim>\<open>server.go\<close> and \<^verbatim>\<open>main.go\<close>.  \<open>relay_step\<close> is one step of the
    whole relay: a connection opens, delivers a frame or closes, a request is served, the
    purge runs, the server shuts down.  Shown: the invariant \<open>relay_ok\<close>, what each handler
    guarantees, and that any key pair takes over the connection and the mailbox of any user.
  \<^item> \<open>Public_Abuse\<close>: what a stranger can do over the public endpoints.  Shown: a request of
    another relay is never passed on; a stranger can fill a mailbox and the memory of a
    limiter, and make the relay send requests to any address.
  \<^item> \<open>Repo_Tests\<close>: the scenarios of \<^verbatim>\<open>server/*_test.go\<close>, as lemmas.
  \<^item> \<open>Connection_Limit\<close>: the atomic counter of \<^verbatim>\<open>handleWS\<close> under every interleaving.
  \<^item> \<open>Interleaving\<close>: deliveries and connections at the granularity of the mutex of the
    store.  A goroutine is a \<open>task\<close> at one of its points between critical sections, a list
    of events an interleaving; \<open>nt_out\<close> collects the frames written, the failed writes and
    the connections closed.  \<open>owner\<close>, a parameter of the theorems, says for which user a
    connection was authenticated.  Shown: every task ends, registrations have handlers, and,
    as long as statements succeed, mailboxes have room and nothing expires, no interleaving
    loses or duplicates a message: the frames that went out to a user are those of the
    messages no longer queued or in flight.
    \<open>Fair_Delivery\<close>: infinite schedules in which every goroutine that can go on gets its
    turn; the frames of what was queued go out to a user who reconnects.
    \<open>Crash_Interleaving\<close>: interleavings with crashes of the process, which lose exactly what
    the goroutines carried.
  \<^item> \<open>Http_Mux\<close>, \<open>Http_Props\<close>: \<^verbatim>\<open>http.ServeMux\<close> with the patterns that \<^verbatim>\<open>Run\<close> registers,
    and requests end to end, those for \<^verbatim>\<open>/ws\<close> with the capacity check, the upgrade and the
    handshake.  Shown: the routing tree equals a table over the path segments, what
    unauthenticated requests can change in the server and on disk, that published bundles
    are served.
  \<^item> \<open>Input_Types\<close>: what comes out of the decoders of the relay is well-typed, so that the
    round trips apply to whatever a client sends.  The exception is the relay header of a
    federation request, which is not checked.
  \<^item> \<open>File_Owners\<close>, \<open>Relay_Files\<close>, \<open>Relay_Life\<close>: the whole relay on its disk.  The locale
    \<open>file_owner\<close> is what a component promises the others that share the disk: it changes
    no file but its own ones and temporary files, and its invariant depends on those only.
    Interpretations \<open>qo\<close> (offline queue), \<open>po\<close> (prekeys) and \<open>co\<close> (authority).
    \<open>relay_next\<close> is the step relation with sessions, crashes and restarts.  Shown: the
    invariant for life, that the relay can always be restarted with the same keys, that
    certificates verify under the key of the first start.
  \<^item> \<open>Logging\<close>: the log lines of every operation, \<^verbatim>\<open>Authenticator.dbg\<close>, and \<^verbatim>\<open>main\<close> with its
    output.  Shown: the log of the handlers reveals nothing of what is relayed, and silence
    means success.
  \<^item> \<open>Loops\<close>: the read loop and the purge loop as loops that may run for ever.  Shown: when
    they return, and that a connection that ends leaves no registration behind.
  \<^item> this theory: the properties that span components.

  \<^bold>\<open>State and operations.\<close>  Each Go struct is a record and each method a function from
  the state, and the disk where the method touches it, to its results and the new state.
  A method that runs under a mutex is one transition; \<open>openConn\<close>, \<open>handleAuthedFrame\<close> and
  \<open>closeConn\<close> are separate because other goroutines run between them, and theory
  \<open>Interleaving\<close> takes them apart into their critical sections.  Errors are the
  left side of a sum, or \<open>None\<close> where the source has a single uninformative error.
  Durations and prekey ids are words and wrap as in Go; a time is an integer number of
  nanoseconds since 1970.

  \<^bold>\<open>Environments and parameters.\<close>  What the operating system, the network, the clock and
  the random source answer is an argument: a record such as \<open>enqEnv\<close>, \<open>drainEnv\<close>,
  \<open>persistEnv\<close>, \<open>authEnv\<close> or \<open>frameEnv\<close> with one field for each call that can fail or
  return something unknown.  A theorem for all environments therefore covers every fault.
  Code outside the repository is a parameter: \<open>crypto\<close> (AES-256-GCM and Ed25519) and
  \<open>sqliteDriver\<close> (serialisation of the in-memory database).  The hypotheses about them
  state documented behaviour: \<open>gcm_correct\<close> (opening a sealed box gives the plaintext),
  \<open>ed25519_correct\<close> (a signature verifies under the key that made it) and
  \<open>driver_correct\<close> (deserialising a serialised database gives it back).  No theorem
  assumes that forgery is impossible.  \<open>plainCrypto\<close> and \<open>tableDriver\<close> are concrete
  functions that meet the hypotheses and make the witnesses evaluate; \<open>tableDriver\<close> knows
  the databases of a table.  Where a theorem needs a driver that is right for all of them
  (\<open>driver_total\<close>), the witness has \<open>countDriver\<close>, which numbers the databases.

  \<^bold>\<open>Bounds and termination.\<close>  There is no fuel: every loop is total, by structural
  recursion or a measure (the pruning loop, the base64 and UTF-8 readers, the JSON
  machine, which consumes input at each step).  Loops of the source that run until the
  world stops them (the read loop of a connection, the purge loop) recurse over the list
  of events they receive; in theory \<open>Loops\<close> they are defined over infinite sequences of
  events with \<open>partial_function\<close>, and \<open>None\<close> is the value of one that never returns.

  \<^bold>\<open>Not modelled.\<close>  TLS and the WebSocket protocol (library code: a connection gives frames
  and takes writes); hosts, methods and wildcards in patterns of the multiplexer, of which
  the relay uses none, and the body of its redirects; the state a panic leaves in the
  middle of a handler (only its log line is); signal handling.  Nil and empty slices are
  identified where nothing shows the difference, and the capacity that a JSON array
  decoded three times may find in its target is not tracked.  A deadline shows as a failed read or write.
  Concurrency is at the granularity of the mutexes; a crash leaves the disk as some prefix
  of the calls made, as the file system of the operating system promises.

  \<^bold>\<open>Plan.\<close>  The order of work was: limiters, queue and its durability, prekeys, authority,
  router, handshake, server, interleavings, routing of requests, lives of the whole relay,
  logging, unbounded loops, one-time prekeys over restarts, the abstract mailbox, fairness,
  crashes inside an interleaving, anonymity, abuse of the public endpoints, the abstract
  directory of prekeys, rotations of the key.  What is left is listed above as not modelled:
  it is code of libraries, or has no behaviour of the relay's own.
\<close>

section \<open>Properties across components\<close>

text \<open>
  C11: Store and forward, end to end.  A sealed envelope accepted for a recipient who is
  offline is written, unchanged and after everything already queued, to the recipient's
  next connection, and the mailbox is empty afterwards.
\<close>

theorem store_and_forward:
  assumes "gcm_correct cr" "store_wf s" "\<not> st_stopped s" "LookupClient s u = None"
    and "sealed_wf x" "enq_clean (dv_enq env)" "has_room (dv_enq env) s u" "int64_ok (expiry (dv_enq env) s)"
    and "deliverLocal cr drv env (s, d) u \<lparr>qm_Sealed = Some x, qm_Open = None, qm_ExpiresAt = 0\<rparr> = (acts1, s1, d1)"
    and "drain_clean (fl_drain fenv)" "t = unix (de_now (fl_drain fenv))"
    and "ee_epoch (dv_enq env) \<le> t" "t \<le> expiry (dv_enq env) s" "fl_write fenv = (\<lambda>_. True)"
    and "\<forall>m \<in> set (pending cr t s u). has_envelope m"
    and "FlushQueue cr drv fenv (snd (Register s1 u c), d1) u c = (acts2, s2, d2)"
  shows "acts1 = [] \<and> filter (\<lambda>a. \<exists>raw. a = Sent c raw) acts2
      = map (Sent c \<circ> frame_of) (pending cr t s u) @ [Sent c (marshalSealed x)]
    \<and> mailbox (st_db s2) u = []"
proof -
  let ?m = "\<lparr>qm_Sealed = Some x, qm_Open = None, qm_ExpiresAt = 0\<rparr>"
  let ?q = "?m\<lparr>qm_ExpiresAt := expiry (dv_enq env) s\<rparr>"
  let ?r = "snd (Register s1 u c)"
  have s1: "(s1, d1) = Enqueue cr drv (dv_enq env) (s, d) u ?m" "acts1 = []"
    using assms(4,9) by (simp_all add: deliverLocal_def)
  have s1': "s1 = fst (Enqueue cr drv (dv_enq env) (s, d) u ?m)" using s1(1) by (metis fst_conv)
  have "message_wf ?m" using assms(5) by (simp add: message_wf_def)
  from Enqueue_pending [OF assms(1-3,6,7) this assms(8,12,13), of drv d]
  have pend: "pending cr t ?r u = pending cr t s u @ [?q]"
    by (simp add: s1' pending_def Register_def)
  have stop: "\<not> st_stopped ?r" using assms(3) by (simp add: s1' Register_def frame_simps)
  have wf: "store_wf ?r" using Enqueue_wf [OF assms(2), of cr drv "dv_enq env" d u ?m]
    by (simp add: s1' registry_wf)
  obtain dd where dr: "DrainQueue cr drv (fl_drain fenv) (?r, d1) u
      = (pending cr t s u @ [?q], ?r\<lparr>st_db := sqlDeleteFor u (st_db ?r)\<rparr>, dd)"
    using DrainQueue_clean [OF stop assms(10), of cr drv d1 u] assms(11) pend
    by (cases "DrainQueue cr drv (fl_drain fenv) (?r, d1) u") auto
  have all: "written (\<lambda>_. True) i n = n" for i n by (induction n arbitrary: i) auto
  have env: "\<forall>m \<in> set (pending cr t s u @ [?q]). has_envelope m"
    using assms(15) by (auto simp: has_envelope_def)
  from flushLoop_split [OF env, of "fl_write fenv" 0 c cr drv "fl_enq fenv" u
      "(?r\<lparr>st_db := sqlDeleteFor u (st_db ?r)\<rparr>, dd)"] assms(14,16) dr
  have "filter (\<lambda>a. \<exists>raw. a = Sent c raw) acts2 = map (Sent c \<circ> frame_of) (pending cr t s u @ [?q])"
    "s2 = ?r\<lparr>st_db := sqlDeleteFor u (st_db ?r)\<rparr>"
    by (simp_all add: FlushQueue_def all Let_def)
  with s1(2) wf show ?thesis
    by (simp add: frame_of_def marshalQueued_def qt.box_delete store_wf_def)
qed

text \<open>The request another relay sees when a forward arrives.\<close>

definition wire :: "httpRequest \<Rightarrow> request" where
  "wire q = \<lparr>rq_method = hr_method q, rq_path = ''/federation/deliver'',
     rq_relayID = (case map_of (hr_headers q) ''X-Spectre-Relay-ID'' of Some v \<Rightarrow> v | None \<Rightarrow> []),
     rq_body = hr_body q\<rparr>"

text \<open>
  C19: Federation, end to end.  A sealed envelope for a user of another relay is posted to
  the user's domain, and a relay that considers this domain its own queues for that user
  exactly the envelope that was sent, with the first relay's id as the sender's relay.
\<close>

theorem federation_end_to_end:
  assumes "gcm_correct cr" "sealed_wf x" "se_Ciphertext x \<noteq> []" "se_RecipientID x = user @ CHR ''@'' # domain"
    and "CHR ''@'' \<notin> set user" "\<not> isLocalRelay domain (rt_relayID rA)" "dv_request envA"
    and "rt_relayID rA \<noteq> []" "valid_utf8 (rt_relayID rA)"
    and "deliver crA drvA envA rA wA (se_RecipientID x) \<lparr>qm_Sealed = Some x, qm_Open = None, qm_ExpiresAt = 0\<rparr>
       = (acts, wA')"
    and "isLocalRelay domain (RelayID (sv_cfg sv))" "LookupClient (sv_store sv) user = None"
    and "store_wf (sv_store sv)" "\<not> st_stopped (sv_store sv)" "enq_clean (dv_enq env)"
    and "has_room (dv_enq env) (sv_store sv) user" "int64_ok (expiry (dv_enq env) (sv_store sv))"
    and "ee_epoch (dv_enq env) \<le> t" "t \<le> expiry (dv_enq env) (sv_store sv)"
  shows "\<exists>q. acts = [Forward q] \<and> wA' = wA \<and> hr_url q = ''http://'' @ domain @ ''/federation/deliver''
    \<and> pending cr t (sv_store (fst (snd (snd (handleFederationDeliver cr drv env (sv, d) (wire q)))))) user
      = pending cr t (sv_store sv) user
        @ [\<lparr>qm_Sealed = Some (x\<lparr>se_FederationSenderRelay := rt_relayID rA\<rparr>), qm_Open = None,
            qm_ExpiresAt = expiry (dv_enq env) (sv_store sv)\<rparr>]"
proof -
  let ?q = "\<lparr>hr_method = ''POST'', hr_url = ''http://'' @ domain @ ''/federation/deliver'',
      hr_headers = [(''Content-Type'', ''application/json''), (''X-Spectre-Relay-ID'', rt_relayID rA)],
      hr_body = marshalSealed x\<rparr>"
  let ?m = "\<lparr>qm_Sealed = Some (x\<lparr>se_FederationSenderRelay := rt_relayID rA\<rparr>), qm_Open = None, qm_ExpiresAt = 0\<rparr>"
  have sp: "splitN2 CHR ''@'' (se_RecipientID x) = [user, domain]"
    using assms(4,5) by (simp add: splitN2_some)
  have A: "acts = [Forward ?q]" "wA' = wA"
    using assms(6,7,10) sp by (simp_all add: deliver_def forwardFederated_def)
  have "splitN2 CHR ''@'' user = [user]" using assms(5) by (rule splitN2_none)
  with assms sp have B: "sv_store (fst (snd (snd (handleFederationDeliver cr drv env (sv, d) (wire ?q)))))
      = fst (Enqueue cr drv (dv_enq env) (sv_store sv, d) user ?m)"
    by (simp add: handleFederationDeliver_def wire_def decode_marshalSealed deliver_def deliverLocal_def split_beta Let_def)
  have "message_wf ?m" using assms(2,9) by (simp add: message_wf_def sealed_wf_def)
  from Enqueue_pending [OF assms(1,13-16) this assms(17-19), of drv d] A B show ?thesis by simp
qed

text \<open>
  A wake-up can be lost.  Delivery looks the recipient up and enqueues in two separate
  critical sections; if the recipient connects and flushes in between, the message is
  queued behind the flush: the recipient is online, nothing was sent, and the message
  waits for the next reconnect.
\<close>

theorem wakeup_can_be_lost:
  assumes "gcm_correct cr" "store_wf s" "\<not> st_stopped s" "LookupClient s u = None"
    and "mailbox (st_db s) u = []" "drain_clean (fl_drain fenv)"
    and "FlushQueue cr drv fenv (snd (Register s u c), d) u c = (acts, s1, d1)"
    and "message_wf m" "enq_clean env" "int64_ok (expiry env s)" "ee_epoch env \<le> t" "t \<le> expiry env s"
    and "db_seq (st_db s) + 1 < 2 ^ 63" "Enqueue cr drv env (s1, d1) u m = (s2, d2)"
  shows "acts = [] \<and> LookupClient s2 u = Some c \<and> pending cr t s2 u = [m\<lparr>qm_ExpiresAt := expiry env s\<rparr>]"
proof -
  let ?r = "snd (Register s u c)"
  have twf: "table_wf (st_db s)" using assms(2) by (simp add: store_wf_def)
  have "\<not> st_stopped ?r" using assms(3) by (simp add: Register_def)
  from DrainQueue_clean [OF this assms(6), of cr drv d u] assms(5)
  have f: "acts = []" "s1 = ?r\<lparr>st_db := sqlDeleteFor u (st_db s)\<rparr>"
    using assms(7)
    by (cases "DrainQueue cr drv (fl_drain fenv) (?r, d) u",
        simp add: FlushQueue_def pending_def Register_def)+
  have wf: "store_wf s1" "\<not> st_stopped s1"
    using DrainQueue_wf [OF registry_wf(1) [OF assms(2), of u c], of cr drv "fl_drain fenv" d u]
      DrainQueue_clean(2) [OF \<open>\<not> st_stopped ?r\<close> assms(6), of cr drv d u] assms(3) f(2)
    by (simp_all add: Register_def)
  have box: "mailbox (st_db s1) u = []" by (simp add: f(2) qt.box_delete twf)
  have exp: "expiry env s1 = expiry env s" by (simp add: f(2) expiry_def Register_def)
  have "has_room env s1 u"
    using box assms(13) by (intro room_if_short) (simp_all add: maxQueuePerRecipient_def f(2) sqlDeleteFor_def)
  from Enqueue_pending [OF assms(1) wf assms(9) this assms(8), of t drv d1] assms(10-12,14) exp box
  have "pending cr t s2 u = [m\<lparr>qm_ExpiresAt := expiry env s\<rparr>]" by (simp add: pending_def)
  moreover have "st_clients s2 = st_clients s1"
    using Enqueue_key(5) [of cr drv env "(s1, d1)" u m] assms(14) by simp
  then have "LookupClient s2 u = Some c" by (simp add: LookupClient_def f(2) Register_def)
  ultimately show ?thesis using f(1) by blast
qed

text \<open>What is queued after a drain is all there is.\<close>

lemma refill_after_drain:
  assumes "gcm_correct cr" "store_wf s" "\<not> st_stopped s" "drain_clean env"
    and "DrainQueue cr drv env (s, d) u = (ms, s1, d1)" "\<forall>e \<in> set es. enq_ok now s e"
    and "length es \<le> 500" "db_seq (st_db s) + 500 < 2 ^ 63"
  shows "pending cr now (fst (enqueueAll cr drv u es (s1, d1))) u = map (stamped s) es"
proof -
  have s1: "s1 = s\<lparr>st_db := sqlDeleteFor u (st_db s)\<rparr>"
    using DrainQueue_clean(2) [OF assms(3,4), of cr drv d u] assms(5) by simp
  have wf: "store_wf s1" "table_wf (st_db s)" using DrainQueue_wf [OF assms(2), of cr drv env d u] assms(2,5) by (simp_all add: store_wf_def)
  have exp: "expiry e s1 = expiry e s" for e by (simp add: expiry_def s1)
  have ok: "\<forall>e \<in> set es. enq_ok now s1 e" using assms(6) by (auto simp: enq_ok_def exp)
  have box: "mailbox (st_db s1) u = []" using wf(2) by (simp add: s1 qt.box_delete)
  have "pending cr now (fst (enqueueAll cr drv u es (s1, d1))) u = pending cr now s1 u @ map (stamped s1) es"
    using enqueueAll_pending [OF assms(1) wf(1) _ ok, of u drv d1] assms(3,7,8) box
    by (simp add: maxQueuePerRecipient_def) (simp add: s1 sqlDeleteFor_def)
  then show ?thesis using box by (simp add: pending_def stamped_def exp fun_eq_iff)
qed

text \<open>
  A failed flush can reorder a mailbox and renews its expiry.  A message queued between the
  drain and the failing write ends up before the older messages that are put back, and
  these are stamped as if they had just arrived.
\<close>

theorem order_can_be_lost:
  assumes "gcm_correct cr" "store_wf s" "\<not> st_stopped s" "drain_clean env"
    and "DrainQueue cr drv env (s, d) u = (ms, s1, d1)" "Enqueue cr drv env2 (s1, d1) u m2 = (s2, d2)"
    and "reenqueue cr drv enq 0 u ms (s2, d2) = (s3, d3)"
    and "enq_ok now s (env2, m2)" "\<forall>j. \<forall>m \<in> set ms. enq_ok now s (enq j, m)"
    and "length ms < 500" "db_seq (st_db s) + 500 < 2 ^ 63"
  shows "ms = pending cr (unix (de_now env)) s u
    \<and> pending cr now s3 u = m2\<lparr>qm_ExpiresAt := expiry env2 s\<rparr>
        # map (\<lambda>(j, m). m\<lparr>qm_ExpiresAt := expiry (enq j) s\<rparr>) (enumerate 0 ms)"
proof -
  let ?es = "(env2, m2) # zip (map enq [0..<length ms]) ms"
  have "(s3, d3) = enqueueAll cr drv u ?es (s1, d1)"
    using assms(6,7) by (simp add: reenqueue_all)
  moreover have "\<forall>e \<in> set ?es. enq_ok now s e"
    using assms(8,9) by (auto dest: set_zip_leftD set_zip_rightD simp: set_zip)
  ultimately have "pending cr now s3 u = map (stamped s) ?es"
    using refill_after_drain [OF assms(1-5), of ?es now] assms(10,11) by (metis (no_types, lifting) Suc_leI fst_conv length_Cons length_map length_upt length_zip
        min.idem minus_nat.diff_0)
  then show ?thesis
    using DrainQueue_clean(1) [OF assms(3,4), of cr drv d u] assms(5)
    by (simp add: stamped_def enumerate_eq_zip zip_map1 split_def)
qed

section \<open>Witnesses\<close>

theorem order_can_be_lost_witness:
  "\<exists>w s3 d3. fst (DrainQueue plainCrypto demo_drv demo_drain w ''bob'') = [demo_msg\<lparr>qm_ExpiresAt := 604800\<rparr>]
     \<and> reenqueue plainCrypto demo_drv (\<lambda>_. demo_enq) 0 ''bob'' [demo_msg\<lparr>qm_ExpiresAt := 604800\<rparr>]
         (Enqueue plainCrypto demo_drv demo_enq (snd (DrainQueue plainCrypto demo_drv demo_drain w ''bob'')) ''bob'' zeroQueued) = (s3, d3)
     \<and> pending plainCrypto 0 s3 ''bob'' = [zeroQueued\<lparr>qm_ExpiresAt := 604800\<rparr>, demo_msg\<lparr>qm_ExpiresAt := 604800\<rparr>]"
proof -
  have life: "store_wf (fst demo_next)"
    using store_life_inv [OF plainCrypto_gcm demo_drv_correct demo_life(2)] by (simp add: life_inv_def)
  have st: "\<not> st_stopped (fst demo_next)" "st_ttl (fst demo_next) = st_ttl demo_store"
    using demo_wf(2) by (simp_all add: demo_next_def demo_first_def frame_simps)
  have seq: "db_seq (st_db (fst demo_next)) \<le> 1"
    using Enqueue_growth(2) [OF demo_wf(1), of plainCrypto demo_drv demo_enq "snd demo_first" "''bob''" demo_msg]
    by (simp add: demo_next_def demo_first_def) (simp add: demo_store_def sqlCreate_def)
  have exp: "expiry demo_enq (fst demo_next) = 604800" using demo_expiry by (simp add: expiry_def st(2))
  have ok: "enq_ok 0 (fst demo_next) (demo_enq, demo_msg\<lparr>qm_ExpiresAt := 604800\<rparr>)" "enq_ok 0 (fst demo_next) (demo_enq, zeroQueued)"
    using demo_enq_ok demo_expiry exp by (simp_all add: enq_ok_def message_wf_def zeroQueued_def)
  obtain ms s1 d1 where dr: "DrainQueue plainCrypto demo_drv demo_drain (fst demo_next, snd demo_next) ''bob'' = (ms, s1, d1)"
    by (metis prod_cases3)
  have ms: "ms = [demo_msg\<lparr>qm_ExpiresAt := 604800\<rparr>]"
    using DrainQueue_clean(1) [OF st(1) demo_wf(4), of plainCrypto demo_drv "snd demo_next" "''bob''"] dr demo_next_pending demo_wf(5) by simp
  obtain s2 d2 where e: "Enqueue plainCrypto demo_drv demo_enq (s1, d1) ''bob'' zeroQueued = (s2, d2)" by fastforce
  obtain s3 d3 where r: "reenqueue plainCrypto demo_drv (\<lambda>_. demo_enq) 0 ''bob'' ms (s2, d2) = (s3, d3)" by fastforce
  have "pending plainCrypto 0 s3 ''bob'' = [zeroQueued\<lparr>qm_ExpiresAt := 604800\<rparr>, demo_msg\<lparr>qm_ExpiresAt := 604800\<rparr>]"
    using order_can_be_lost [OF plainCrypto_gcm life st(1) demo_wf(4) dr e r, of 0] ok ms seq exp
    by (simp add: enumerate_eq_zip)
  with dr ms e r show ?thesis by (metis fst_conv snd_conv)
qed

theorem store_and_forward_witness:
  "\<exists>acts s2 d2. FlushQueue plainCrypto demo_drv (demo_flush\<lparr>fl_write := \<lambda>_. True\<rparr>)
     (snd (Register (fst (snd (deliverLocal plainCrypto demo_drv demo_deliver (demo_store, Map.empty) ''bob''
        \<lparr>qm_Sealed = Some demo_sealed, qm_Open = None, qm_ExpiresAt = 0\<rparr>))) ''bob'' 7),
      snd (snd (deliverLocal plainCrypto demo_drv demo_deliver (demo_store, Map.empty) ''bob''
        \<lparr>qm_Sealed = Some demo_sealed, qm_Open = None, qm_ExpiresAt = 0\<rparr>))) ''bob'' 7 = (acts, s2, d2)
   \<and> filter (\<lambda>a. \<exists>raw. a = Sent 7 raw) acts = [Sent 7 (marshalSealed demo_sealed)] \<and> mailbox (st_db s2) ''bob'' = []"
proof -
  let ?m = "\<lparr>qm_Sealed = Some demo_sealed, qm_Open = None, qm_ExpiresAt = 0\<rparr>"
  let ?f = "demo_flush\<lparr>fl_write := \<lambda>_. True\<rparr>"
  obtain a1 s1 d1 where d: "deliverLocal plainCrypto demo_drv demo_deliver (demo_store, Map.empty) ''bob'' ?m = (a1, s1, d1)"
    by (cases "deliverLocal plainCrypto demo_drv demo_deliver (demo_store, Map.empty) ''bob'' ?m") auto
  obtain acts s2 d2 where f: "FlushQueue plainCrypto demo_drv ?f (snd (Register s1 ''bob'' 7), d1) ''bob'' 7 = (acts, s2, d2)"
    by (cases "FlushQueue plainCrypto demo_drv ?f (snd (Register s1 ''bob'' 7), d1) ''bob'' 7") auto
  have e: "dv_enq demo_deliver = demo_enq" "fl_drain ?f = demo_drain" "fl_write ?f = (\<lambda>_. True)"
    by (simp_all add: demo_deliver_def demo_flush_def)
  have look: "LookupClient demo_store ''bob'' = None" by (simp add: LookupClient_def demo_store_def)
  have "filter (\<lambda>a. \<exists>raw. a = Sent 7 raw) acts
      = map (Sent 7 \<circ> frame_of) (pending plainCrypto 0 demo_store ''bob'') @ [Sent 7 (marshalSealed demo_sealed)]
    \<and> mailbox (st_db s2) ''bob'' = []"
    using store_and_forward [OF plainCrypto_gcm demo_wf(1,2) look demo_sealed_wf(1) _ _ _ d _ _ _ _ e(3) _ f, of 0]
      demo_wf(3-5) demo_room demo_enq_ok
    by (simp add: e demo_expiry demo_empty enq_ok_def)
  then show ?thesis using f d by (simp add: demo_empty)
qed

theorem federation_end_to_end_witness:
  "\<exists>q. pending plainCrypto 0 (sv_store (fst (snd (snd (handleFederationDeliver plainCrypto demo_drv demo_deliver
       (demo_server, Map.empty) (wire q)))))) ''bob''
     = [\<lparr>qm_Sealed = Some (demo_sealed\<lparr>se_RecipientID := ''bob@relay'', se_FederationSenderRelay := ''far''\<rparr>),
         qm_Open = None, qm_ExpiresAt = 604800\<rparr>]"
proof -
  let ?x = "demo_sealed\<lparr>se_RecipientID := ''bob@relay''\<rparr>" and ?rA = "NewRouter 65536 60 ''far''"
  have utf8: "valid_utf8 ''bob@relay''" "valid_utf8 ''far''" by (rule valid_utf8_key, simp add: code_def)+
  have x: "sealed_wf ?x" "se_Ciphertext ?x \<noteq> []" "se_RecipientID ?x = ''bob'' @ CHR ''@'' # ''relay''"
    using demo_sealed_wf utf8 by (simp_all add: sealed_wf_def)
  have loc: "\<not> isLocalRelay ''relay'' (rt_relayID ?rA)" "isLocalRelay ''relay'' (RelayID (sv_cfg demo_server))"
  proof -
    have "\<not> isLocalRelay ''relay'' ''far''" "isLocalRelay ''relay'' ''relay:8080''" by code_simp+
    then show "\<not> isLocalRelay ''relay'' (rt_relayID ?rA)" "isLocalRelay ''relay'' (RelayID (sv_cfg demo_server))"
      by (simp_all add: NewRouter_def demo_server_def demo_cfg_def)
  qed
  obtain acts w where dl: "deliver plainCrypto demo_drv demo_deliver ?rA (demo_store, Map.empty) (se_RecipientID ?x)
      \<lparr>qm_Sealed = Some ?x, qm_Open = None, qm_ExpiresAt = 0\<rparr> = (acts, w)"
    by (cases "deliver plainCrypto demo_drv demo_deliver ?rA (demo_store, Map.empty) (se_RecipientID ?x)
      \<lparr>qm_Sealed = Some ?x, qm_Open = None, qm_ExpiresAt = 0\<rparr>")
  have st: "sv_store demo_server = demo_store" "dv_enq demo_deliver = demo_enq" "dv_request demo_deliver"
    "rt_relayID ?rA = ''far''" "LookupClient demo_store ''bob'' = None"
    by (simp_all add: demo_server_def demo_deliver_def NewRouter_def LookupClient_def demo_store_def)
  from federation_end_to_end [OF plainCrypto_gcm x _ loc(1) st(3) _ _ dl loc(2), of demo_deliver 0 demo_drv Map.empty]
  show ?thesis
    using demo_wf(1-3) demo_room demo_enq_ok utf8(2) by (auto simp: st demo_expiry demo_empty enq_ok_def)
qed

theorem wakeup_can_be_lost_witness:
  "let w = FlushQueue plainCrypto demo_drv demo_flush (snd (Register demo_store ''bob'' 7), Map.empty) ''bob'' 7;
       s2 = fst (Enqueue plainCrypto demo_drv demo_enq (snd w) ''bob'' demo_msg) in
   fst w = [] \<and> LookupClient s2 ''bob'' = Some 7
   \<and> pending plainCrypto 0 s2 ''bob'' = [demo_msg\<lparr>qm_ExpiresAt := expiry demo_enq demo_store\<rparr>]"
proof -
  obtain acts s1 d1 where f: "FlushQueue plainCrypto demo_drv demo_flush (snd (Register demo_store ''bob'' 7), Map.empty) ''bob'' 7
      = (acts, s1, d1)"
    by (cases "FlushQueue plainCrypto demo_drv demo_flush (snd (Register demo_store ''bob'' 7), Map.empty) ''bob'' 7") auto
  obtain s2 d2 where e: "Enqueue plainCrypto demo_drv demo_enq (s1, d1) ''bob'' demo_msg = (s2, d2)"
    by (cases "Enqueue plainCrypto demo_drv demo_enq (s1, d1) ''bob'' demo_msg")
  have look: "LookupClient demo_store ''bob'' = None" by (simp add: LookupClient_def demo_store_def)
  have "fl_drain demo_flush = demo_drain" by (simp add: demo_flush_def)
  with wakeup_can_be_lost [OF plainCrypto_gcm demo_wf(1,2) look demo_box(1) _ f _ demo_wf(3) _ _ _ _ e, of 0]
    demo_wf(4) demo_enq_ok
  show ?thesis by (simp add: f e enq_ok_def demo_box)
qed

end
